(* ===== verification/Rust_Prelude.thy ===== *)
theory Rust_Prelude
  imports Main "HOL-Library.Char_ord" "HOL-Library.List_Lexorder"
    "HOL-Library.Product_Lexorder" "HOL-Library.Option_ord" "HOL-Library.Sublist" "HOL-Library.Multiset"
    "HOL-Library.Code_Target_Nat"
begin

text \<open>
  Shared vocabulary of the development: results of fallible code, the operations of the Rust
  standard library's string type that the program uses, the SQL row helpers the query
  modules share, and the memo table that several components keep.

  A Rust \<open>str\<close> is a list of bytes holding valid UTF-8, and is modelled by \<open>string\<close>, whose
  characters are bytes. Patterns the program searches for are ASCII, and UTF-8 never uses an
  ASCII byte inside a longer encoding, so searching bytes and searching characters agree.
  Trimming removes the UTF-8 encodings of the Unicode \<open>White_Space\<close> characters.
\<close>

named_theorems res_simps \<open>rewriting of results of fallible code\<close>
named_theorems str_simps \<open>rewriting of the string operations\<close>

section \<open>Results\<close>

text \<open>A Rust \<open>Result<T, E>\<close> is a sum with the error on the left; \<open>?\<close> is \<open>res_bind\<close>.\<close>

fun res_bind :: "'e + 'a \<Rightarrow> ('a \<Rightarrow> 'e + 'b) \<Rightarrow> 'e + 'b" where
  "res_bind (Inl e) f = Inl e"
| "res_bind (Inr x) f = f x"

fun res_map :: "('a \<Rightarrow> 'b) \<Rightarrow> 'e + 'a \<Rightarrow> 'e + 'b" where
  "res_map f (Inl e) = Inl e"
| "res_map f (Inr x) = Inr (f x)"

text \<open>Collecting an iterator of results stops at the first error.\<close>

fun res_mapM :: "('a \<Rightarrow> 'e + 'b) \<Rightarrow> 'a list \<Rightarrow> 'e + 'b list" where
  "res_mapM f [] = Inr []"
| "res_mapM f (x # xs) = res_bind (f x) (\<lambda>y. res_bind (res_mapM f xs) (\<lambda>ys. Inr (y # ys)))"

text \<open>\<open>Result::ok\<close>.\<close>

fun res_ok :: "'e + 'a \<Rightarrow> 'a option" where
  "res_ok (Inl e) = None"
| "res_ok (Inr x) = Some x"

lemma res_bind_Inr_iff [res_simps]:
  "res_bind m f = Inr y \<longleftrightarrow> (\<exists>x. m = Inr x \<and> f x = Inr y)"
  by (cases m) auto

lemma res_bind_Inl_iff:
  "res_bind m f = Inl e \<longleftrightarrow> m = Inl e \<or> (\<exists>x. m = Inr x \<and> f x = Inl e)"
  by (cases m) auto

lemma res_map_Inr_iff [res_simps]: "res_map f m = Inr y \<longleftrightarrow> (\<exists>x. m = Inr x \<and> y = f x)"
  by (cases m) auto

lemma res_bind_assoc: "res_bind (res_bind m f) g = res_bind m (\<lambda>x. res_bind (f x) g)"
  by (cases m) auto

lemma res_map_bind: "res_map f (res_bind m g) = res_bind m (\<lambda>x. res_map f (g x))"
  by (cases m) auto

lemma res_map_comp: "res_map f (res_map g m) = res_map (f \<circ> g) m"
  by (cases m) auto

lemma res_map_id [simp]: "res_map (\<lambda>x. x) m = m"
  by (cases m) auto

lemma res_ok_Some_iff [res_simps]: "res_ok m = Some y \<longleftrightarrow> m = Inr y"
  by (cases m) auto

lemma res_mapM_Inr_length: "res_mapM f xs = Inr ys \<Longrightarrow> length ys = length xs"
  by (induction xs arbitrary: ys) (auto simp: res_simps)

lemma res_mapM_Inr_nth:
  "res_mapM f xs = Inr ys \<Longrightarrow> i < length xs \<Longrightarrow> f (xs ! i) = Inr (ys ! i)"
  by (induction xs arbitrary: ys i) (auto simp: res_simps nth_Cons split: nat.splits)

lemma res_mapM_set:
  "res_mapM f xs = Inr ys \<Longrightarrow> y \<in> set ys \<Longrightarrow> \<exists>x \<in> set xs. f x = Inr y"
  by (induction xs arbitrary: ys) (auto simp: res_simps)

lemma res_mapM_total:
  "(\<And>x. x \<in> set xs \<Longrightarrow> f x = Inr (g x)) \<Longrightarrow> res_mapM f xs = Inr (map g xs)"
  by (induction xs) auto

lemma res_mapM_ex:
  "(\<And>x. x \<in> set xs \<Longrightarrow> \<exists>y. f x = Inr y \<and> R x y) \<Longrightarrow> \<exists>ys. res_mapM f xs = Inr ys \<and> list_all2 R xs ys"
proof (induction xs)
  case (Cons x xs)
  then obtain y ys where "f x = Inr y" "R x y" "res_mapM f xs = Inr ys" "list_all2 R xs ys" by force
  then show ?case by simp
qed simp

lemma res_mapM_cong:
  "(\<And>x. x \<in> set xs \<Longrightarrow> f x = g x) \<Longrightarrow> res_mapM f xs = res_mapM g xs"
  by (induction xs) auto

section \<open>Strings\<close>

fun strip_prefix :: "string \<Rightarrow> string \<Rightarrow> string option" where
  "strip_prefix [] s = Some s"
| "strip_prefix (p # ps) [] = None"
| "strip_prefix (p # ps) (c # cs) = (if p = c then strip_prefix ps cs else None)"

lemma strip_prefix_Some_iff [str_simps]: "strip_prefix p s = Some r \<longleftrightarrow> s = p @ r"
  by (induction p s rule: strip_prefix.induct) auto

lemma strip_prefix_append [simp]: "strip_prefix p (p @ r) = Some r"
  by (simp add: strip_prefix_Some_iff)

lemma strip_prefix_None_iff: "strip_prefix p s = None \<longleftrightarrow> \<not> prefix p s"
  by (metis not_Some_eq prefix_def strip_prefix_Some_iff)

definition strip_suffix :: "string \<Rightarrow> string \<Rightarrow> string option" where
  "strip_suffix p s = map_option rev (strip_prefix (rev p) (rev s))"

lemma strip_suffix_Some_iff [str_simps]: "strip_suffix p s = Some r \<longleftrightarrow> s = r @ p"
proof -
  have "strip_suffix p s = Some r \<longleftrightarrow> rev s = rev p @ rev r"
    unfolding strip_suffix_def by (auto simp: strip_prefix_Some_iff)
  also have "\<dots> \<longleftrightarrow> s = r @ p" by (metis rev_append rev_rev_ident)
  finally show ?thesis .
qed

definition starts_with :: "string \<Rightarrow> string \<Rightarrow> bool" where
  "starts_with p s \<longleftrightarrow> strip_prefix p s \<noteq> None"

definition ends_with :: "string \<Rightarrow> string \<Rightarrow> bool" where
  "ends_with p s \<longleftrightarrow> strip_suffix p s \<noteq> None"

lemma starts_with_iff [str_simps]: "starts_with p s \<longleftrightarrow> (\<exists>r. s = p @ r)"
  by (auto simp: starts_with_def strip_prefix_Some_iff)

lemma ends_with_iff [str_simps]: "ends_with p s \<longleftrightarrow> (\<exists>r. s = r @ p)"
  by (auto simp: ends_with_def strip_suffix_Some_iff)

text \<open>\<open>split_once\<close> splits at the first match of a separator, \<open>rsplit_once\<close> at the last.\<close>

fun split_once :: "string \<Rightarrow> string \<Rightarrow> (string \<times> string) option" where
  "split_once sep [] = (if sep = [] then Some ([], []) else None)"
| "split_once sep (c # cs) =
     (case strip_prefix sep (c # cs) of
        Some r \<Rightarrow> Some ([], r)
      | None \<Rightarrow> map_option (\<lambda>(a, b). (c # a, b)) (split_once sep cs))"

definition rsplit_once :: "string \<Rightarrow> string \<Rightarrow> (string \<times> string) option" where
  "rsplit_once sep s = map_option (\<lambda>(a, b). (rev b, rev a)) (split_once (rev sep) (rev s))"

lemma split_once_SomeD: "split_once sep s = Some (a, b) \<Longrightarrow> s = a @ sep @ b"
  by (induction sep s arbitrary: a rule: split_once.induct)
     (auto simp: strip_prefix_Some_iff split: option.splits if_splits)

lemma rsplit_once_SomeD: "rsplit_once sep s = Some (a, b) \<Longrightarrow> s = a @ sep @ b"
proof -
  assume "rsplit_once sep s = Some (a, b)"
  then obtain x y where "split_once (rev sep) (rev s) = Some (x, y)" "a = rev y" "b = rev x"
    by (auto simp: rsplit_once_def)
  then have "rev s = x @ rev sep @ y" by (simp add: split_once_SomeD)
  then have "s = rev (x @ rev sep @ y)" by (metis rev_rev_ident)
  with \<open>a = rev y\<close> \<open>b = rev x\<close> show ?thesis by simp
qed

lemma split_once_None: "split_once sep s = None \<longleftrightarrow> \<not> sublist sep s"
proof (induction sep s rule: split_once.induct)
  case (1 sep)
  then show ?case by simp
next
  case (2 sep c cs)
  then show ?case
    by (auto simp: sublist_Cons_right strip_prefix_Some_iff strip_prefix_None_iff prefix_def
        split: option.splits)
qed

lemma split_once_char:
  "split_once [c] (a @ c # b) = Some (a, b)" if "c \<notin> set a"
  using that by (induction a) auto

lemma split_once_char_notin: "split_once [c] s = Some (a, b) \<Longrightarrow> c \<notin> set a"
  by (induction s arbitrary: a) (auto split: option.splits if_splits)

lemma split_once_char_None: "split_once [c] s = None \<longleftrightarrow> c \<notin> set s"
  by (induction s) (auto split: option.splits)

lemma rsplit_once_char:
  "rsplit_once [c] (a @ c # b) = Some (a, b)" if "c \<notin> set b"
  using split_once_char [of c "rev b" "rev a"] that by (simp add: rsplit_once_def)

lemma rsplit_once_char_notin: "rsplit_once [c] s = Some (a, b) \<Longrightarrow> c \<notin> set b"
  by (auto simp: rsplit_once_def dest: split_once_char_notin)

text \<open>\<open>str::find\<close>: the byte offset of the first match.\<close>

definition str_find :: "string \<Rightarrow> string \<Rightarrow> nat option" where
  "str_find pat s = map_option (\<lambda>(a, b). length a) (split_once pat s)"

definition str_contains :: "string \<Rightarrow> string \<Rightarrow> bool" where
  "str_contains pat s \<longleftrightarrow> split_once pat s \<noteq> None"

text \<open>\<open>str::split\<close> on a non-empty separator.\<close>

function split_str :: "string \<Rightarrow> string \<Rightarrow> string list" where
  "split_str sep s =
     (if sep = [] then [s]
      else case split_once sep s of
             None \<Rightarrow> [s]
           | Some (a, b) \<Rightarrow> a # split_str sep b)"
  by pat_completeness auto
termination
  by (relation "measure (\<lambda>(sep, s). length s)") (auto dest!: split_once_SomeD)

declare split_str.simps [simp del]

lemma split_str_not_Nil [simp]: "split_str sep s \<noteq> []"
  by (subst split_str.simps) (auto split: option.splits)

text \<open>\<open>rsplit(sep).next().unwrap_or(s)\<close>: what follows the last separator.\<close>

definition rsplit_last :: "string \<Rightarrow> string \<Rightarrow> string" where
  "rsplit_last sep s = (case rsplit_once sep s of None \<Rightarrow> s | Some (_, b) \<Rightarrow> b)"

fun join_str :: "string \<Rightarrow> string list \<Rightarrow> string" where
  "join_str sep [] = []"
| "join_str sep [x] = x"
| "join_str sep (x # y # r) = x @ sep @ join_str sep (y # r)"

lemma join_str_Cons: "xs \<noteq> [] \<Longrightarrow> join_str sep (x # xs) = x @ sep @ join_str sep xs"
  by (cases xs) auto

lemma split_str_char_simple: "c \<notin> set x \<Longrightarrow> split_str [c] x = [x]"
  by (subst split_str.simps) (simp add: split_once_char_None [THEN iffD2])

lemma split_str_char_append: "c \<notin> set x \<Longrightarrow> split_str [c] (x @ c # r) = x # split_str [c] r"
  by (subst split_str.simps) (simp add: split_once_char)

text \<open>Joining and splitting on a character that no part contains are inverse.\<close>

lemma split_join_char:
  "xs \<noteq> [] \<Longrightarrow> (\<And>x. x \<in> set xs \<Longrightarrow> c \<notin> set x) \<Longrightarrow> split_str [c] (join_str [c] xs) = xs"
proof (induction xs)
  case Nil
  then show ?case by simp
next
  case (Cons x xs)
  show ?case
  proof (cases "xs = []")
    case True
    with Cons.prems show ?thesis by (simp add: split_str_char_simple)
  next
    case False
    with Cons show ?thesis by (simp add: join_str_Cons split_str_char_append)
  qed
qed

lemma split_str_char_notin: "x \<in> set (split_str [c] s) \<Longrightarrow> c \<notin> set x"
proof (induction "[c]" s rule: split_str.induct)
  case (1 s)
  show ?case
  proof (cases "split_once [c] s")
    case None
    with "1.prems" show ?thesis by (subst (asm) split_str.simps) (auto simp: split_once_char_None)
  next
    case (Some ab)
    obtain a b where ab: "ab = (a, b)" by (cases ab)
    with Some "1.prems" have "x = a \<or> x \<in> set (split_str [c] b)"
      by (subst (asm) split_str.simps) auto
    with Some ab "1.hyps" show ?thesis by (auto dest: split_once_char_notin)
  qed
qed

lemma join_split_char: "join_str [c] (split_str [c] s) = s"
proof (induction "[c]" s rule: split_str.induct)
  case (1 s)
  show ?case
  proof (cases "split_once [c] s")
    case None
    then show ?thesis by (subst split_str.simps) simp
  next
    case (Some ab)
    obtain a b where ab: "ab = (a, b)" by (cases ab)
    with Some have "join_str [c] (split_str [c] b) = b" using "1.hyps" by simp
    with Some ab show ?thesis
      using split_once_SomeD [of "[c]" s a b]
      by (subst split_str.simps) (simp add: join_str_Cons)
  qed
qed

text \<open>\<open>str::replace\<close> of a single character.\<close>

definition replace_char :: "char \<Rightarrow> string \<Rightarrow> string \<Rightarrow> string" where
  "replace_char c rep s = concat (map (\<lambda>x. if x = c then rep else [x]) s)"

lemma replace_char_append [simp]:
  "replace_char c r (xs @ ys) = replace_char c r xs @ replace_char c r ys"
  by (simp add: replace_char_def)

lemma replace_char_Nil [simp]: "replace_char c r [] = []"
  by (simp add: replace_char_def)

lemma replace_char_id: "c \<notin> set s \<Longrightarrow> replace_char c r s = s"
  by (induction s) (auto simp: replace_char_def)

lemma replace_char_notin: "c \<notin> set r \<Longrightarrow> c \<notin> set (replace_char c r s)"
  by (induction s) (auto simp: replace_char_def)

subsection \<open>Trimming\<close>

text \<open>The UTF-8 encodings of the characters with the Unicode property \<open>White_Space\<close>.\<close>

definition ws_codes :: "string list" where
  "ws_codes =
     [[CHR 0x09], [CHR 0x0A], [CHR 0x0B], [CHR 0x0C], [CHR 0x0D], [CHR 0x20],
      [CHR 0xC2, CHR 0x85], [CHR 0xC2, CHR 0xA0], [CHR 0xE1, CHR 0x9A, CHR 0x80],
      [CHR 0xE2, CHR 0x80, CHR 0x80], [CHR 0xE2, CHR 0x80, CHR 0x81],
      [CHR 0xE2, CHR 0x80, CHR 0x82], [CHR 0xE2, CHR 0x80, CHR 0x83],
      [CHR 0xE2, CHR 0x80, CHR 0x84], [CHR 0xE2, CHR 0x80, CHR 0x85],
      [CHR 0xE2, CHR 0x80, CHR 0x86], [CHR 0xE2, CHR 0x80, CHR 0x87],
      [CHR 0xE2, CHR 0x80, CHR 0x88], [CHR 0xE2, CHR 0x80, CHR 0x89],
      [CHR 0xE2, CHR 0x80, CHR 0x8A], [CHR 0xE2, CHR 0x80, CHR 0xA8],
      [CHR 0xE2, CHR 0x80, CHR 0xA9], [CHR 0xE2, CHR 0x80, CHR 0xAF],
      [CHR 0xE2, CHR 0x81, CHR 0x9F], [CHR 0xE3, CHR 0x80, CHR 0x80]]"

fun strip_one :: "string list \<Rightarrow> string \<Rightarrow> string option" where
  "strip_one [] s = None"
| "strip_one (p # ps) s =
     (case strip_prefix p s of
        Some r \<Rightarrow> if p = [] then strip_one ps s else Some r
      | None \<Rightarrow> strip_one ps s)"

lemma strip_one_SomeD: "strip_one ps s = Some r \<Longrightarrow> \<exists>p \<in> set ps. p \<noteq> [] \<and> s = p @ r"
  by (induction ps) (auto simp: strip_prefix_Some_iff split: option.splits if_splits)

lemma strip_one_None_iff:
  "strip_one ps s = None \<longleftrightarrow> (\<forall>p \<in> set ps. p = [] \<or> \<not> prefix p s)"
  by (induction ps) (auto simp: strip_prefix_Some_iff strip_prefix_None_iff split: option.splits)

function trim_codes :: "string list \<Rightarrow> string \<Rightarrow> string" where
  "trim_codes ps s = (case strip_one ps s of None \<Rightarrow> s | Some r \<Rightarrow> trim_codes ps r)"
  by pat_completeness auto
termination
  by (relation "measure (\<lambda>(ps, s). length s)") (auto dest!: strip_one_SomeD)

declare trim_codes.simps [simp del]

definition trim_start :: "string \<Rightarrow> string" where
  "trim_start s = trim_codes ws_codes s"

definition trim_end :: "string \<Rightarrow> string" where
  "trim_end s = rev (trim_codes (map rev ws_codes) (rev s))"

definition trim_str :: "string \<Rightarrow> string" where
  "trim_str s = trim_end (trim_start s)"

lemma trim_codes_None: "strip_one ps s = None \<Longrightarrow> trim_codes ps s = s"
  by (subst trim_codes.simps) simp

lemma trim_codes_stuck: "strip_one ps (trim_codes ps s) = None"
proof (induction ps s rule: trim_codes.induct)
  case (1 ps s)
  then show ?case by (subst trim_codes.simps) (auto split: option.splits)
qed

lemma trim_codes_suffix: "suffix (trim_codes ps s) s"
proof (induction ps s rule: trim_codes.induct)
  case (1 ps s)
  show ?case
  proof (cases "strip_one ps s")
    case None
    then show ?thesis by (simp add: trim_codes_None)
  next
    case (Some r)
    with 1 have "suffix (trim_codes ps r) r" by blast
    moreover from Some have "suffix r s" by (auto dest: strip_one_SomeD simp: suffix_def)
    ultimately show ?thesis
      using Some by (subst trim_codes.simps) (auto intro: suffix_order.trans)
  qed
qed

lemma trim_start_suffix: "suffix (trim_start s) s"
  by (simp add: trim_start_def trim_codes_suffix)

lemma trim_end_prefix: "prefix (trim_end s) s"
proof -
  have "suffix (trim_codes (map rev ws_codes) (rev s)) (rev s)" by (rule trim_codes_suffix)
  then have "prefix (rev (trim_codes (map rev ws_codes) (rev s))) (rev (rev s))"
    by (metis rev_rev_ident suffix_to_prefix)
  then show ?thesis by (simp add: trim_end_def)
qed

lemma trim_str_sublist: "sublist (trim_str s) s"
  unfolding trim_str_def
  by (meson prefix_imp_sublist sublist_order.order_trans suffix_imp_sublist trim_end_prefix
      trim_start_suffix)

text \<open>A string is trimmed when no white space code starts or ends it.\<close>

definition no_ws_start :: "string \<Rightarrow> bool" where
  "no_ws_start s \<longleftrightarrow> (\<forall>p \<in> set ws_codes. \<not> prefix p s)"

definition no_ws_end :: "string \<Rightarrow> bool" where
  "no_ws_end s \<longleftrightarrow> (\<forall>p \<in> set ws_codes. \<not> suffix p s)"

lemma ws_codes_nonempty: "p \<in> set ws_codes \<Longrightarrow> p \<noteq> []"
  by (auto simp: ws_codes_def)

lemma strip_one_ws: "strip_one ws_codes s = None \<longleftrightarrow> no_ws_start s"
  by (auto simp: strip_one_None_iff no_ws_start_def dest: ws_codes_nonempty)

lemma strip_one_ws_rev: "strip_one (map rev ws_codes) (rev s) = None \<longleftrightarrow> no_ws_end s"
  by (auto simp: strip_one_None_iff no_ws_end_def suffix_to_prefix dest: ws_codes_nonempty)

lemma trim_start_stuck: "no_ws_start (trim_start s)"
  using trim_codes_stuck [of ws_codes s] by (simp add: trim_start_def strip_one_ws)

lemma trim_end_stuck: "no_ws_end (trim_end s)"
  using trim_codes_stuck [of "map rev ws_codes" "rev s"]
  unfolding trim_end_def by (metis rev_rev_ident strip_one_ws_rev)

lemma no_ws_start_prefix: "no_ws_start s \<Longrightarrow> prefix r s \<Longrightarrow> no_ws_start r"
  unfolding no_ws_start_def by (meson prefix_order.trans)

lemma trim_str_trimmed: "no_ws_start (trim_str s) \<and> no_ws_end (trim_str s)"
  unfolding trim_str_def
  using no_ws_start_prefix trim_end_prefix trim_end_stuck trim_start_stuck by blast

lemma trim_str_id: "no_ws_start s \<Longrightarrow> no_ws_end s \<Longrightarrow> trim_str s = s"
  by (simp add: trim_str_def trim_start_def trim_end_def trim_codes_None strip_one_ws
      strip_one_ws_rev)

lemma trim_str_eq_iff: "trim_str s = s \<longleftrightarrow> no_ws_start s \<and> no_ws_end s"
  by (metis trim_str_id trim_str_trimmed)

lemma trim_str_idem [simp]: "trim_str (trim_str s) = trim_str s"
  by (simp add: trim_str_id trim_str_trimmed)

text \<open>
  An ASCII character that is not white space ends neither kind of overlap: no code contains
  it, so it can be put in front of a string, or after one, without creating white space.
\<close>

definition ws_free :: "char \<Rightarrow> bool" where
  "ws_free c \<longleftrightarrow> (\<forall>p \<in> set ws_codes. c \<notin> set p)"

lemma no_ws_start_Cons: "ws_free c \<Longrightarrow> no_ws_start (c # s)"
  by (auto simp: no_ws_start_def ws_free_def prefix_Cons dest: ws_codes_nonempty)

lemma no_ws_end_append:
  assumes "no_ws_end s" "s \<noteq> []" "ws_free c"
  shows "no_ws_end (xs @ c # s)"
  unfolding no_ws_end_def
proof
  fix p assume p: "p \<in> set ws_codes"
  show "\<not> suffix p (xs @ c # s)"
  proof
    assume "suffix p (xs @ c # s)"
    then consider "suffix p s" | q where "p = q @ c # s"
      by (metis append_Cons append_Nil suffix_append suffix_Cons)
    then show False
      using assms p by cases (auto simp: no_ws_end_def ws_free_def)
  qed
qed

section \<open>Characters\<close>

abbreviation code :: "char \<Rightarrow> nat" where
  "code c \<equiv> of_char c"

definition is_ascii_upper :: "char \<Rightarrow> bool" where
  "is_ascii_upper c \<longleftrightarrow> 65 \<le> code c \<and> code c \<le> 90"

definition is_ascii_lower :: "char \<Rightarrow> bool" where
  "is_ascii_lower c \<longleftrightarrow> 97 \<le> code c \<and> code c \<le> 122"

definition is_ascii_digit :: "char \<Rightarrow> bool" where
  "is_ascii_digit c \<longleftrightarrow> 48 \<le> code c \<and> code c \<le> 57"

definition is_ascii_alphanumeric :: "char \<Rightarrow> bool" where
  "is_ascii_alphanumeric c \<longleftrightarrow> is_ascii_upper c \<or> is_ascii_lower c \<or> is_ascii_digit c"

text \<open>\<open>u8::is_ascii_whitespace\<close>: space, tab, line feed, form feed, carriage return.\<close>

definition is_ascii_whitespace :: "char \<Rightarrow> bool" where
  "is_ascii_whitespace c \<longleftrightarrow> code c \<in> {32, 9, 10, 12, 13}"

definition to_ascii_lower :: "char \<Rightarrow> char" where
  "to_ascii_lower c = (if is_ascii_upper c then char_of (code c + 32) else c)"

definition eq_ignore_ascii_case :: "string \<Rightarrow> string \<Rightarrow> bool" where
  "eq_ignore_ascii_case a b \<longleftrightarrow> map to_ascii_lower a = map to_ascii_lower b"

lemma eq_ignore_ascii_case_refl [simp]: "eq_ignore_ascii_case a a"
  by (simp add: eq_ignore_ascii_case_def)

text \<open>Decimal rendering of an unsigned number, as \<open>format!\<close> prints it.\<close>

fun show_nat :: "nat \<Rightarrow> string" where
  "show_nat n =
     (if n < 10 then [char_of (48 + n)] else show_nat (n div 10) @ [char_of (48 + n mod 10)])"

declare show_nat.simps [simp del]

definition show_int :: "int \<Rightarrow> string" where
  "show_int i = (if i < 0 then CHR ''-'' # show_nat (nat (- i)) else show_nat (nat i))"

section \<open>Rows of a query\<close>

text \<open>\<open>LIMIT 1\<close> with \<open>query_row(..).optional()\<close>: the first row, if there is one.\<close>

fun first_row :: "'a list \<Rightarrow> 'a option" where
  "first_row [] = None"
| "first_row (x # xs) = Some x"

lemma first_row_SomeD: "first_row xs = Some x \<Longrightarrow> x \<in> set xs"
  by (cases xs) auto

lemma first_row_None_iff: "first_row xs = None \<longleftrightarrow> xs = []"
  by (cases xs) auto

lemma first_row_sort_key_least:
  "first_row (sort_key f xs) = Some x \<Longrightarrow> y \<in> set xs \<Longrightarrow> f x \<le> f y"
proof -
  assume x: "first_row (sort_key f xs) = Some x" and y: "y \<in> set xs"
  obtain r where r: "sort_key f xs = x # r" using x by (cases "sort_key f xs") auto
  have "sorted (map f (x # r))" using sorted_sort_key [of f xs] r by simp
  moreover have "y \<in> set (x # r)" using y r by (metis set_sort)
  ultimately show "f x \<le> f y" by auto
qed

lemma first_row_sort_key_mem: "first_row (sort_key f xs) = Some x \<Longrightarrow> x \<in> set xs"
  by (metis first_row_SomeD set_sort)

lemma first_row_sort_key_None: "first_row (sort_key f xs) = None \<longleftrightarrow> xs = []"
  by (metis first_row_None_iff length_0_conv length_sort)

text \<open>Sorting by a first key rows that are already sorted by a second one.\<close>

lemma insort_key_lex:
  "sorted (map (\<lambda>y. (f y, g y)) zs) \<Longrightarrow> (\<And>z. z \<in> set zs \<Longrightarrow> g x \<le> g z) \<Longrightarrow>
   sorted (map (\<lambda>y. (f y, g y)) (insort_key f x zs))"
proof (induction zs)
  case (Cons z zs)
  show ?case
  proof (cases "f x \<le> f z")
    case True
    then have "(f x, g x) \<le> (f z, g z)" using Cons.prems(2) [of z] by (auto simp: less_eq_prod_def)
    with Cons.prems(1) True show ?thesis by (auto intro: order_trans)
  next
    case False
    have "sorted (map (\<lambda>y. (f y, g y)) (insort_key f x zs))" using Cons by simp
    moreover have "(f z, g z) \<le> (f x, g x)" using False by (auto simp: less_eq_prod_def)
    ultimately show ?thesis using False Cons.prems(1) by (simp add: set_insort_key)
  qed
qed simp

lemma sorted_sort_key_lex: "sorted (map g xs) \<Longrightarrow> sorted (map (\<lambda>y. (f y, g y)) (sort_key f xs))"
  by (induction xs) (auto intro!: insort_key_lex)

lemma sort_key_lex: "sort_key f (sort_key g xs) = sort_key (\<lambda>x. (f x, g x)) xs"
proof (rule sym, rule properties_for_sort_key)
  fix k
  have swap: "filter (\<lambda>x. (f k, g k) = (f x, g x)) ys = filter (\<lambda>x. g x = g k) (filter (\<lambda>x. f x = f k) ys)"
    "filter (\<lambda>x. (f k, g k) = (f x, g x)) ys = filter (\<lambda>x. f x = f k) (filter (\<lambda>x. g x = g k) ys)" for ys
    unfolding filter_filter by (auto intro!: filter_cong)
  have "filter (\<lambda>x. (f k, g k) = (f x, g x)) (sort_key f (sort_key g xs)) =
      filter (\<lambda>x. (f k, g k) = (f x, g x)) (sort_key g xs)"
    unfolding swap(1) sort_key_stable ..
  also have "\<dots> = filter (\<lambda>x. (f k, g k) = (f x, g x)) xs"
    unfolding swap(2) sort_key_stable ..
  finally show "filter (\<lambda>x. (f k, g k) = (f x, g x)) (sort_key f (sort_key g xs)) =
      filter (\<lambda>x. (f k, g k) = (f x, g x)) xs" .
qed (simp_all add: sorted_sort_key_lex)

text \<open>\<open>Iterator::min_by_key\<close>: the first element with the least key.\<close>

definition min_by_key :: "('a \<Rightarrow> 'k::linorder) \<Rightarrow> 'a list \<Rightarrow> 'a option" where
  "min_by_key f xs = first_row (sort_key f xs)"

text \<open>The elements a loop kept, and how many it skipped.\<close>

fun kept :: "'a option list \<Rightarrow> 'a list" where
  "kept [] = []"
| "kept (None # xs) = kept xs"
| "kept (Some x # xs) = x # kept xs"

definition skipped :: "'a option list \<Rightarrow> nat" where
  "skipped xs = length (filter (\<lambda>x. x = None) xs)"

lemma set_kept: "x \<in> set (kept xs) \<longleftrightarrow> Some x \<in> set xs"
  by (induction xs rule: kept.induct) auto

lemma kept_skipped: "length (kept xs) + skipped xs = length xs"
  by (induction xs rule: kept.induct) (auto simp: skipped_def)

end
