(* ===== verification/Selectors.thy ===== *)
theory Selectors
  imports Rust_Prelude
begin

text \<open>
  Selectors (\<open>crates/orbit-graph-extract/src/selector.rs\<close>): the text form by which every
  query addresses a directory, file, symbol, module or command, its parser
  \<open>selector_from_str\<close> and its printer \<open>selector_to_string\<close>.

  The lemmas show that normalized paths are in a canonical form on which normalization is the
  identity, and that printing a parsed selector and parsing it again gives the same selector.
\<close>

section \<open>Model\<close>

record selector_parse_error =
  spe_input :: string
  spe_reason :: string

datatype selector =
    Dir string
  | File string
  | Symbol string string string
  | Module string
  | Command string

fun selector_path :: "selector \<Rightarrow> string" where
  "selector_path (Dir path) = path"
| "selector_path (File path) = path"
| "selector_path (Symbol path symbol kind) = path"
| "selector_path (Module qualified) = []"
| "selector_path (Command name) = []"

fun selector_to_string :: "selector \<Rightarrow> string" where
  "selector_to_string (Dir path) = ''dir:'' @ path"
| "selector_to_string (File path) = ''file:'' @ path"
| "selector_to_string (Symbol path symbol kind) =
     ''symbol:'' @ path @ ''#'' @ symbol @ '':'' @ kind"
| "selector_to_string (Module qualified) = ''module:'' @ qualified"
| "selector_to_string (Command name) = ''command:'' @ name"

text \<open>One iteration of the component loop of \<open>normalize_path_text\<close>.\<close>

definition push_part :: "bool \<Rightarrow> string list \<Rightarrow> string \<Rightarrow> string list" where
  "push_part is_absolute parts part =
     (if part = [] \<or> part = ''.'' then parts
      else if part = ''..'' then
        (if parts \<noteq> [] \<and> last parts \<noteq> ''..'' then butlast parts
         else if \<not> is_absolute then parts @ [''..'']
         else parts)
      else parts @ [part])"

definition normalize_path_text :: "string \<Rightarrow> string + string" where
  "normalize_path_text raw =
     (let normalized = replace_char (CHR 0x5C) ''/'' (trim_str raw) in
      if normalized = [] then Inl ''selector path must not be empty''
      else
        let is_absolute = starts_with ''/'' normalized;
            parts = foldl (push_part is_absolute) [] (split_str ''/'' normalized)
        in if is_absolute
           then Inr (if parts = [] then ''/'' else ''/'' @ join_str ''/'' parts)
           else Inr (if parts = [] then ''.'' else join_str ''/'' parts))"

definition normalize_selector_path :: "string \<Rightarrow> string \<Rightarrow> selector_parse_error + string" where
  "normalize_selector_path original_input raw_path =
     (case normalize_path_text raw_path of
        Inl reason \<Rightarrow> Inl \<lparr>spe_input = original_input, spe_reason = reason\<rparr>
      | Inr path \<Rightarrow> Inr path)"

text \<open>The branch of \<open>from_str\<close> for the text after \<open>symbol:\<close>.\<close>

definition symbol_from_str :: "string \<Rightarrow> string \<Rightarrow> selector_parse_error + selector" where
  "symbol_from_str selector remainder =
     (case rsplit_once '':'' remainder of
        None \<Rightarrow> Inl \<lparr>spe_input = selector,
                     spe_reason = ''symbol selectors must use `symbol:<path>#<symbol>:<kind>`''\<rparr>
      | Some (location, kind) \<Rightarrow>
          (case split_once ''#'' location of
             None \<Rightarrow> Inl \<lparr>spe_input = selector,
                          spe_reason = ''symbol selectors must include `#<symbol>`''\<rparr>
           | Some (path, symbol) \<Rightarrow>
               res_bind (normalize_selector_path selector path) (\<lambda>path.
                 let symbol = trim_str symbol; kind = trim_str kind in
                 if symbol = [] \<or> kind = []
                 then Inl \<lparr>spe_input = selector,
                           spe_reason =
                             ''symbol selectors must include non-empty path, symbol, and kind''\<rparr>
                 else Inr (Symbol path symbol kind))))"

definition selector_from_str :: "string \<Rightarrow> selector_parse_error + selector" where
  "selector_from_str selector =
     (let trimmed = trim_str selector in
      case strip_prefix ''dir:'' trimmed of
        Some path \<Rightarrow> res_map Dir (normalize_selector_path selector path)
      | None \<Rightarrow>
      (case strip_prefix ''file:'' trimmed of
        Some path \<Rightarrow> res_map File (normalize_selector_path selector path)
      | None \<Rightarrow>
      (case strip_prefix ''symbol:'' trimmed of
        Some remainder \<Rightarrow> symbol_from_str selector remainder
      | None \<Rightarrow>
      (case strip_prefix ''module:'' trimmed of
        Some qualified \<Rightarrow>
          (let qualified = trim_str qualified in
           if qualified = []
           then Inl \<lparr>spe_input = selector,
                     spe_reason = ''module selectors must include a qualified module''\<rparr>
           else Inr (Module qualified))
      | None \<Rightarrow>
      (case strip_prefix ''command:'' trimmed of
        Some name \<Rightarrow>
          (let name = trim_str name in
           if name = []
           then Inl \<lparr>spe_input = selector,
                     spe_reason = ''command selectors must include a command name''\<rparr>
           else Inr (Command name))
      | None \<Rightarrow>
          Inl \<lparr>spe_input = selector,
               spe_reason =
  ''selectors must start with `dir:`, `file:`, `symbol:`, `module:`, or `command:`''\<rparr>)))))"

definition parse_many :: "string list \<Rightarrow> selector_parse_error + selector list" where
  "parse_many raw_selectors = res_mapM selector_from_str raw_selectors"

section \<open>Canonical paths\<close>

text \<open>
  The components a normalization leaves: \<open>..\<close> only at the front, and not at all in an
  absolute path; never an empty component or a \<open>.\<close>.
\<close>

definition plain_part :: "string \<Rightarrow> bool" where
  "plain_part x \<longleftrightarrow> x \<noteq> [] \<and> x \<noteq> ''.'' \<and> x \<noteq> ''..''"

fun canonical_parts :: "bool \<Rightarrow> string list \<Rightarrow> bool" where
  "canonical_parts a [] = True"
| "canonical_parts a (x # xs) =
     (if x = ''..'' \<and> \<not> a then canonical_parts a xs else plain_part x \<and> list_all plain_part xs)"

lemma not_plain_dots [simp]: "\<not> plain_part ''..''"
  by (simp add: plain_part_def)

lemma canonical_parts_snoc:
  "canonical_parts a (xs @ [x]) \<longleftrightarrow>
     canonical_parts a xs \<and> (plain_part x \<or> (x = ''..'' \<and> \<not> a \<and> (\<forall>y \<in> set xs. y = ''..'')))"
  by (induction xs) auto

lemma canonical_parts_last_dots:
  "canonical_parts a xs \<Longrightarrow> xs \<noteq> [] \<Longrightarrow> last xs = ''..'' \<Longrightarrow> \<not> a \<and> (\<forall>x \<in> set xs. x = ''..'')"
  by (cases xs rule: rev_cases) (auto simp: canonical_parts_snoc)

lemma canonical_parts_butlast: "canonical_parts a xs \<Longrightarrow> canonical_parts a (butlast xs)"
  by (cases xs rule: rev_cases) (auto simp: canonical_parts_snoc)

lemma push_part_canonical: "canonical_parts a xs \<Longrightarrow> canonical_parts a (push_part a xs p)"
  using canonical_parts_last_dots [of a xs] canonical_parts_snoc [of a xs p]
  by (cases "xs = []") (auto simp: push_part_def canonical_parts_butlast plain_part_def)

lemma fold_push_canonical:
  "canonical_parts a xs \<Longrightarrow> canonical_parts a (foldl (push_part a) xs ps)"
  by (induction ps arbitrary: xs) (auto simp: push_part_canonical)

lemma push_part_set: "set (push_part a xs p) \<subseteq> insert p (set xs)"
  by (auto simp: push_part_def dest: in_set_butlastD)

lemma fold_push_set: "set (foldl (push_part a) xs ps) \<subseteq> set xs \<union> set ps"
proof (induction ps arbitrary: xs)
  case (Cons p ps)
  then show ?case using push_part_set [of a xs p] by fastforce
qed simp

text \<open>Normalization is the identity on canonical components.\<close>

lemma fold_push_id: "canonical_parts a ps \<Longrightarrow> foldl (push_part a) [] ps = ps"
proof (induction ps rule: rev_induct)
  case (snoc p ps)
  from snoc.prems have c: "canonical_parts a ps" by (simp add: canonical_parts_snoc)
  have "push_part a ps p = ps @ [p]"
    using snoc.prems by (auto simp: canonical_parts_snoc push_part_def plain_part_def)
  with snoc.IH [OF c] show ?case by simp
qed simp

section \<open>Normalized paths\<close>

definition is_path_of :: "string \<Rightarrow> bool \<Rightarrow> string list \<Rightarrow> bool" where
  "is_path_of p a parts \<longleftrightarrow>
     canonical_parts a parts \<and>
     (\<forall>x \<in> set parts. CHR ''/'' \<notin> set x \<and> CHR 0x5C \<notin> set x) \<and>
     p = (if a then CHR ''/'' # join_str ''/'' parts
          else if parts = [] then ''.'' else join_str ''/'' parts)"

lemma set_join_str: "set (join_str sep xs) \<subseteq> set sep \<union> (\<Union>x \<in> set xs. set x)"
  by (induction sep xs rule: join_str.induct) auto

lemma set_split_str_char: "x \<in> set (split_str [c] s) \<Longrightarrow> set x \<subseteq> set s"
proof (induction "[c]" s rule: split_str.induct)
  case (1 s)
  show ?case
  proof (cases "split_once [c] s")
    case None
    with "1.prems" show ?thesis by (subst (asm) split_str.simps) auto
  next
    case (Some ab)
    obtain a b where ab: "ab = (a, b)" by (cases ab)
    have s: "s = a @ [c] @ b" using Some ab split_once_SomeD [of "[c]" s a b] by simp
    from Some ab "1.prems" have "x = a \<or> x \<in> set (split_str [c] b)"
      by (subst (asm) split_str.simps) auto
    moreover have "x \<in> set (split_str [c] b) \<Longrightarrow> set x \<subseteq> set b"
      using Some ab "1.hyps" by blast
    ultimately show ?thesis using s by auto
  qed
qed

lemma normalize_path_is_path_of:
  assumes "normalize_path_text raw = Inr p"
  obtains a parts where "is_path_of p a parts"
    and "\<And>x. x \<in> set parts \<Longrightarrow> set x \<subseteq> set (replace_char (CHR 0x5C) ''/'' (trim_str raw))"
proof -
  let ?n = "replace_char (CHR 0x5C) ''/'' (trim_str raw)"
  let ?a = "starts_with ''/'' ?n"
  let ?parts = "foldl (push_part ?a) [] (split_str ''/'' ?n)"
  have sub: "set ?parts \<subseteq> set (split_str ''/'' ?n)"
    using fold_push_set [of ?a "[]"] by simp
  have bs: "CHR 0x5C \<notin> set ?n" by (rule replace_char_notin) simp
  have "is_path_of p ?a ?parts"
    unfolding is_path_of_def
  proof (intro conjI)
    show "canonical_parts ?a ?parts" by (rule fold_push_canonical) simp
    show "\<forall>x \<in> set ?parts. CHR ''/'' \<notin> set x \<and> CHR 0x5C \<notin> set x"
      using sub bs by (meson set_split_str_char split_str_char_notin subsetD)
    show "p = (if ?a then CHR ''/'' # join_str ''/'' ?parts
          else if ?parts = [] then ''.'' else join_str ''/'' ?parts)"
      using assms by (auto simp: normalize_path_text_def Let_def split: if_splits)
  qed
  moreover have "\<And>x. x \<in> set ?parts \<Longrightarrow> set x \<subseteq> set ?n"
    using sub by (meson set_split_str_char subsetD)
  ultimately show thesis by (rule that)
qed

lemma join_str_Nil_iff: "join_str [c] xs = [] \<longleftrightarrow> xs = [] \<or> xs = [[]]"
  by (induction "[c]" xs rule: join_str.induct) auto

lemma join_str_hd:
  "xs \<noteq> [] \<Longrightarrow> hd xs \<noteq> [] \<Longrightarrow> join_str sep xs \<noteq> [] \<and> hd (join_str sep xs) = hd (hd xs)"
  by (induction sep xs rule: join_str.induct) auto

lemma is_path_of_replace: "is_path_of p a parts \<Longrightarrow> replace_char (CHR 0x5C) ''/'' p = p"
  using set_join_str [of "''/''" parts]
  by (intro replace_char_id) (auto simp: is_path_of_def)

lemma canonical_parts_hd: "canonical_parts a parts \<Longrightarrow> parts \<noteq> [] \<Longrightarrow> hd parts \<noteq> []"
  by (cases parts) (auto simp: plain_part_def split: if_splits)

lemma is_path_of_abs: "is_path_of p a parts \<Longrightarrow> p \<noteq> [] \<and> starts_with ''/'' p = a"
proof (cases "a \<or> parts = []")
  case True
  assume "is_path_of p a parts"
  with True show ?thesis by (auto simp: is_path_of_def starts_with_def)
next
  case False
  assume P: "is_path_of p a parts"
  with False have p: "p = join_str ''/'' parts" and h: "hd parts \<noteq> []"
    using canonical_parts_hd by (auto simp: is_path_of_def)
  from P False have "CHR ''/'' \<notin> set (hd parts)" by (simp add: is_path_of_def)
  with h have "hd (hd parts) \<noteq> CHR ''/''" by (metis hd_in_set)
  with False p h join_str_hd [of parts "''/''"] show ?thesis
    by (cases "join_str ''/'' parts") (auto simp: starts_with_def)
qed

lemma is_path_of_split:
  "is_path_of p a parts \<Longrightarrow> foldl (push_part a) [] (split_str ''/'' p) = parts"
proof (cases "parts = []")
  case True
  assume "is_path_of p a parts"
  then have "p = (if a then ''/'' else ''.'')" using True by (auto simp: is_path_of_def)
  then show ?thesis using True
    split_str_char_append [of "CHR ''/''" "[]" "[]"]
    by (auto simp: split_str_char_simple push_part_def)
next
  case False
  assume P: "is_path_of p a parts"
  then have s: "split_str ''/'' (join_str ''/'' parts) = parts"
    using False by (intro split_join_char) (auto simp: is_path_of_def)
  have id: "foldl (push_part a) [] parts = parts"
    using P by (simp add: is_path_of_def fold_push_id)
  have "push_part a [] [] = []" by (simp add: push_part_def)
  with P False s id show ?thesis
    using split_str_char_append [of "CHR ''/''" "[]" "join_str ''/'' parts"]
    by (auto simp: is_path_of_def)
qed

lemma normalize_path_id: "is_path_of p a parts \<Longrightarrow> trim_str p = p \<Longrightarrow> normalize_path_text p = Inr p"
proof -
  assume P: "is_path_of p a parts" and t: "trim_str p = p"
  have n: "p \<noteq> []" "starts_with ''/'' p = a" using is_path_of_abs [OF P] by auto
  have "(if a then if parts = [] then ''/'' else ''/'' @ join_str ''/'' parts
      else if parts = [] then ''.'' else join_str ''/'' parts) = p"
    using P by (simp add: is_path_of_def)
  then show ?thesis
    unfolding normalize_path_text_def t is_path_of_replace [OF P] Let_def n(2)
      is_path_of_split [OF P]
    using n(1) by (cases a; cases "parts = []") simp_all
qed

lemma normalize_path_idem:
  "normalize_path_text raw = Inr p \<Longrightarrow> trim_str p = p \<Longrightarrow> normalize_path_text p = Inr p"
  by (meson normalize_path_id normalize_path_is_path_of)

text \<open>Normalization introduces no character but the separator and the dot.\<close>

lemma normalize_path_chars:
  assumes "normalize_path_text raw = Inr p" "c \<notin> set raw" "c \<noteq> CHR ''/''" "c \<noteq> CHR ''.''"
  shows "c \<notin> set p"
proof -
  have "c \<notin> set (trim_str raw)" using assms(2) set_mono_sublist [OF trim_str_sublist] by blast
  then have n: "c \<notin> set (replace_char (CHR 0x5C) ''/'' (trim_str raw))"
    using assms(3) by (auto simp: replace_char_def split: if_splits)
  obtain a parts where p: "is_path_of p a parts"
    and s: "\<And>x. x \<in> set parts \<Longrightarrow> set x \<subseteq> set (replace_char (CHR 0x5C) ''/'' (trim_str raw))"
    using normalize_path_is_path_of [OF assms(1)] by blast
  have "c \<notin> set (join_str ''/'' parts)"
    using set_join_str [of "''/''" parts] s n assms(3) by fastforce
  with p assms(3,4) show ?thesis by (auto simp: is_path_of_def split: if_splits)
qed

section \<open>Parsing and printing\<close>

definition path_canonical :: "string \<Rightarrow> bool" where
  "path_canonical p \<longleftrightarrow> trim_str p = p \<and> normalize_path_text p = Inr p"

definition trimmed_token :: "string \<Rightarrow> bool" where
  "trimmed_token s \<longleftrightarrow> s \<noteq> [] \<and> trim_str s = s"

text \<open>The selectors the parser produces, when their path is trimmed.\<close>

fun selector_canonical :: "selector \<Rightarrow> bool" where
  "selector_canonical (Dir p) = path_canonical p"
| "selector_canonical (File p) = path_canonical p"
| "selector_canonical (Symbol p s k) =
     (path_canonical p \<and> CHR ''#'' \<notin> set p \<and> trimmed_token s \<and> trimmed_token k \<and>
      CHR '':'' \<notin> set k)"
| "selector_canonical (Module q) = trimmed_token q"
| "selector_canonical (Command n) = trimmed_token n"

lemma path_canonical_nonempty: "path_canonical p \<Longrightarrow> p \<noteq> []"
  by (auto simp: path_canonical_def normalize_path_text_def Let_def split: if_splits)

lemma ws_free_colon: "ws_free (CHR '':'')"
  and ws_free_letters: "ws_free (CHR ''d'')" "ws_free (CHR ''f'')" "ws_free (CHR ''s'')"
    "ws_free (CHR ''m'')" "ws_free (CHR ''c'')"
  by (simp_all add: ws_free_def ws_codes_def)

lemma trim_tagged:
  assumes "ws_free c" "trim_str s = s" "s \<noteq> []"
  shows "trim_str (c # tag @ CHR '':'' # s) = c # tag @ CHR '':'' # s"
proof -
  have "no_ws_start (c # tag @ CHR '':'' # s)" using assms(1) by (rule no_ws_start_Cons)
  moreover have "no_ws_end (c # tag @ CHR '':'' # s)"
    using no_ws_end_append [of s "CHR '':''" "c # tag"] assms ws_free_colon
    by (simp add: trim_str_eq_iff)
  ultimately show ?thesis by (simp add: trim_str_eq_iff)
qed

lemma trim_dir: "trim_str s = s \<Longrightarrow> s \<noteq> [] \<Longrightarrow> trim_str (''dir:'' @ s) = ''dir:'' @ s"
  using trim_tagged [of "CHR ''d''" s "''ir''"] by (simp add: ws_free_letters)

lemma trim_file: "trim_str s = s \<Longrightarrow> s \<noteq> [] \<Longrightarrow> trim_str (''file:'' @ s) = ''file:'' @ s"
  using trim_tagged [of "CHR ''f''" s "''ile''"] by (simp add: ws_free_letters)

lemma trim_module: "trim_str s = s \<Longrightarrow> s \<noteq> [] \<Longrightarrow> trim_str (''module:'' @ s) = ''module:'' @ s"
  using trim_tagged [of "CHR ''m''" s "''odule''"] by (simp add: ws_free_letters)

lemma trim_command: "trim_str s = s \<Longrightarrow> s \<noteq> [] \<Longrightarrow> trim_str (''command:'' @ s) = ''command:'' @ s"
  using trim_tagged [of "CHR ''c''" s "''ommand''"] by (simp add: ws_free_letters)

lemma trim_symbol:
  "trim_str k = k \<Longrightarrow> k \<noteq> [] \<Longrightarrow>
   trim_str (''symbol:'' @ p @ ''#'' @ s @ '':'' @ k) = ''symbol:'' @ p @ ''#'' @ s @ '':'' @ k"
  using trim_tagged [of "CHR ''s''" k "''ymbol:'' @ p @ ''#'' @ s"] by (simp add: ws_free_letters)

lemma symbol_from_str_canonical:
  assumes "selector_canonical (Symbol p s k)"
  shows "symbol_from_str t (p @ ''#'' @ s @ '':'' @ k) = Inr (Symbol p s k)"
proof -
  have r: "rsplit_once '':'' (p @ ''#'' @ s @ '':'' @ k) = Some (p @ ''#'' @ s, k)"
    using assms rsplit_once_char [of "CHR '':''" k "p @ ''#'' @ s"] by simp
  have l: "split_once ''#'' (p @ ''#'' @ s) = Some (p, s)"
    using assms split_once_char [of "CHR ''#''" p s] by simp
  show ?thesis
    unfolding symbol_from_str_def r option.case prod.case l
    using assms by (simp add: normalize_selector_path_def path_canonical_def trimmed_token_def)
qed

lemma selector_from_str_to_string:
  assumes "selector_canonical sel"
  shows "selector_from_str (selector_to_string sel) = Inr sel"
proof (cases sel)
  case (Dir p)
  with assms have "path_canonical p" by simp
  then show ?thesis
    using Dir path_canonical_nonempty [of p] trim_dir [of p]
    by (simp add: selector_from_str_def Let_def normalize_selector_path_def path_canonical_def)
next
  case (File p)
  with assms have "path_canonical p" by simp
  then show ?thesis
    using File path_canonical_nonempty [of p] trim_file [of p]
    by (simp add: selector_from_str_def Let_def normalize_selector_path_def path_canonical_def)
next
  case (Symbol p s k)
  with assms have "trim_str k = k" "k \<noteq> []" by (simp_all add: trimmed_token_def)
  then show ?thesis
    using Symbol assms trim_symbol [of k p s] symbol_from_str_canonical [of p s k]
    by (simp add: selector_from_str_def Let_def)
next
  case (Module q)
  with assms show ?thesis
    using trim_module [of q] by (simp add: selector_from_str_def Let_def trimmed_token_def)
next
  case (Command n)
  with assms show ?thesis
    using trim_command [of n] by (simp add: selector_from_str_def Let_def trimmed_token_def)
qed

lemma symbol_from_str_sound:
  assumes "symbol_from_str t r = Inr sel" "trim_str (selector_path sel) = selector_path sel"
  shows "selector_canonical sel"
proof -
  obtain loc k p s p' where l: "rsplit_once '':'' r = Some (loc, k)"
    and x: "split_once ''#'' loc = Some (p, s)" and n: "normalize_path_text p = Inr p'"
    and e: "trim_str s \<noteq> []" "trim_str k \<noteq> []" "sel = Symbol p' (trim_str s) (trim_str k)"
    using assms(1)
    by (auto simp: symbol_from_str_def normalize_selector_path_def res_simps Let_def
        split: option.splits prod.splits sum.splits if_splits)
  have "CHR ''#'' \<notin> set p'"
    using normalize_path_chars [OF n] split_once_char_notin [OF x] by simp
  moreover have "CHR '':'' \<notin> set (trim_str k)"
    using rsplit_once_char_notin [OF l] set_mono_sublist [OF trim_str_sublist [of k]] by blast
  ultimately show ?thesis
    using e n assms(2) normalize_path_idem [OF n] by (simp add: path_canonical_def trimmed_token_def)
qed

lemma selector_from_str_sound:
  assumes "selector_from_str t = Inr sel" "trim_str (selector_path sel) = selector_path sel"
  shows "selector_canonical sel"
  using assms symbol_from_str_sound
  by (auto simp: selector_from_str_def Let_def res_simps normalize_selector_path_def
      path_canonical_def trimmed_token_def
      split: option.splits if_splits sum.splits intro: normalize_path_idem)

text \<open>
  C14. Round trip: a selector the parser accepted, printed with \<open>Display\<close> and parsed again, is
  the same selector, provided the normalized path neither starts nor ends with white space.
\<close>

theorem selector_parse_print_roundtrip:
  assumes "selector_from_str t = Inr sel"
    and "trim_str (selector_path sel) = selector_path sel"
  shows "selector_from_str (selector_to_string sel) = Inr sel"
  using selector_from_str_sound [OF assms] by (rule selector_from_str_to_string)

theorem selector_parse_print_roundtrip_witness:
  "selector_from_str (selector_to_string (Symbol ''src/lib.rs'' ''a::helper'' ''function'')) =
     Inr (Symbol ''src/lib.rs'' ''a::helper'' ''function'')"
proof -
  have p: "selector_from_str '' symbol:src/x/.././lib.rs# a::helper:function'' =
      Inr (Symbol ''src/lib.rs'' ''a::helper'' ''function'')" by code_simp
  have t: "trim_str ''src/lib.rs'' = ''src/lib.rs''" by code_simp
  show ?thesis using selector_parse_print_roundtrip [OF p] t by simp
qed



text \<open>
  The side condition of the round trip is needed: normalization can expose white space that
  trimming removed nothing of, and then the printed selector names another path.
\<close>

theorem selector_roundtrip_needs_trimmed_path:
  "selector_from_str ''dir:./ a'' = Inr (Dir '' a'') \<and>
   selector_from_str (selector_to_string (Dir '' a'')) = Inr (Dir ''a'')"
  by code_simp

end
