(* ===== verification/Store.thy ===== *)
theory Store
  imports Selectors
begin

text \<open>
  The graph database as the query and resolution code reads it: one record per table of
  \<open>crates/orbit-graph/src/store/schema.rs\<close>, the error surface of \<open>error.rs\<close>, the stored
  confidence and kind vocabularies of \<open>query/refs.rs\<close>, and the connection guard of
  \<open>graph/mod.rs\<close>.

  A table is the list of its rows in rowid order. A \<open>SELECT\<close> is a \<open>filter\<close>, \<open>ORDER BY\<close> is a
  stable sort on the tuple of its keys (text compares by bytes, as SQLite's \<open>BINARY\<close> collation
  does; \<open>NULL\<close> is \<open>None\<close> and sorts first), \<open>LIMIT 1\<close> is \<open>first_row\<close>. An \<open>INTEGER\<close> column is an
  \<open>int\<close>. Failures of the database engine itself are not modelled; every decoding failure of
  the program is.
\<close>

section \<open>Errors\<close>

datatype graph_error =
    Io (err_operation: string) (err_path: string)
  | Sqlite (err_operation: string)
  | Git (err_operation: string)
  | InvalidInput (err_operation: string) (err_field: string) (err_reason: string)
  | NotFound (err_operation: string) (err_what: string)
  | InvalidData (err_operation: string) (err_reason: string)
  | Timeout (err_operation: string) (err_after: nat) (err_detail: string)
  | OrbitRefused (err_tool: string) (err_code: string) (err_message: string)
  | Subprocess (err_operation: string) (err_status: string) (err_stderr: string)
  | IndexMissing (err_path: string) (err_reason: string)
  | IndexIncompatible (err_path: string) (err_reason: string)
  | UnsafeStatePath (err_path: string) (err_reason: string)
  | VersionMismatch (err_key: string) (err_found: string) (err_expected: string)
      (err_path: string) (err_command: string)

type_synonym 'a graph_result = "graph_error + 'a"

section \<open>Tables\<close>

record file_row =
  fl_path :: string
  fl_content_hash :: string
  fl_mtime_ns :: int
  fl_lang :: string
  fl_byte_len :: int
  fl_extracted_at :: int

record symbol_row =
  sy_id :: int
  sy_file_path :: string
  sy_name :: string
  sy_qualified :: string
  sy_kind :: string
  sy_span_start :: int
  sy_span_end :: int
  sy_signature :: "string option"
  sy_parent_symbol :: "int option"

record ref_row =
  rf_id :: int
  rf_from_file :: string
  rf_from_span_start :: int
  rf_from_span_end :: int
  rf_target_name :: string
  rf_target_qualified :: "string option"
  rf_target_symbol_hint :: "int option"
  rf_kind :: string
  rf_confidence :: string
  rf_extracted_qualified :: "string option"
  rf_unresolved_receiver :: "string option"
  rf_spelled_path :: bool

record relation_row =
  rl_id :: int
  rl_from_qualified :: string
  rl_to_qualified :: string
  rl_kind :: string
  rl_def_file :: string
  rl_def_span_start :: int
  rl_def_span_end :: int
  rl_confidence :: string

record import_row =
  im_from_file :: string
  im_target_path :: string
  im_target_symbol :: "string option"
  im_source_symbol :: "string option"
  im_reexport_module :: "string option"

record command_row =
  cm_name :: string
  cm_file_path :: string
  cm_span_start :: int
  cm_handler_symbol :: "int option"

record string_row =
  st_id :: int
  st_file_path :: string
  st_line :: int
  st_value :: string
  st_context_symbol :: "int option"

record config_row =
  cf_id :: int
  cf_file_path :: string
  cf_line :: int
  cf_key :: string
  cf_kind :: string

record graph_db =
  db_files :: "file_row list"
  db_symbols :: "symbol_row list"
  db_refs :: "ref_row list"
  db_relations :: "relation_row list"
  db_imports :: "import_row list"
  db_commands :: "command_row list"
  db_strings :: "string_row list"
  db_configs :: "config_row list"
  db_symbols_fts :: "(int \<times> string \<times> string \<times> string option) list"
  db_strings_fts :: "(int \<times> string) list"
  db_configs_fts :: "(int \<times> string) list"
  db_meta :: "(string \<times> string) list"

text \<open>What the schema's primary keys promise.\<close>

definition db_keys_ok :: "graph_db \<Rightarrow> bool" where
  "db_keys_ok db \<longleftrightarrow>
     distinct (map sy_id (db_symbols db)) \<and> distinct (map rf_id (db_refs db)) \<and>
     distinct (map rl_id (db_relations db)) \<and> distinct (map fl_path (db_files db)) \<and>
     distinct (map cm_name (db_commands db)) \<and> distinct (map st_id (db_strings db)) \<and>
     distinct (map cf_id (db_configs db))"

lemma symbol_by_id_unique:
  "db_keys_ok db \<Longrightarrow> s \<in> set (db_symbols db) \<Longrightarrow> t \<in> set (db_symbols db) \<Longrightarrow>
   sy_id s = sy_id t \<Longrightarrow> s = t"
  by (auto simp: db_keys_ok_def distinct_map inj_on_def)

text \<open>\<open>Graph::with_read_connection\<close>: a closed handle refuses the read.\<close>

definition with_read_connection ::
  "graph_db option \<Rightarrow> (graph_db \<Rightarrow> 'a graph_result) \<Rightarrow> 'a graph_result" where
  "with_read_connection conn run =
     (case conn of
        None \<Rightarrow> Inl (InvalidData ''read graph'' ''the graph database connection is already closed'')
      | Some db \<Rightarrow> run db)"

section \<open>Stored vocabularies\<close>

datatype ref_confidence = Exact | ImportResolved | SameModule | FuzzyName

datatype ref_kind = Call | Type | Use | TraitBound | Impl | Extends | Implements

fun confidence_label :: "ref_confidence \<Rightarrow> string" where
  "confidence_label Exact = ''exact''"
| "confidence_label ImportResolved = ''import_resolved''"
| "confidence_label SameModule = ''same_module''"
| "confidence_label FuzzyName = ''fuzzy_name''"

definition confidence_from_db :: "string \<Rightarrow> ref_confidence graph_result" where
  "confidence_from_db value =
     (if value = ''exact'' then Inr Exact
      else if value = ''import_resolved'' then Inr ImportResolved
      else if value = ''same_module'' then Inr SameModule
      else if value = ''fuzzy_name'' then Inr FuzzyName
      else Inl (InvalidData ''decode stored graph ref confidence''
                  (''unknown stored confidence `'' @ value @ ''`'')))"

fun confidence_rank :: "ref_confidence \<Rightarrow> nat" where
  "confidence_rank Exact = 1"
| "confidence_rank ImportResolved = 2"
| "confidence_rank SameModule = 3"
| "confidence_rank FuzzyName = 4"

definition visible_at_floor :: "ref_confidence \<Rightarrow> ref_confidence \<Rightarrow> bool" where
  "visible_at_floor c floor \<longleftrightarrow> confidence_rank c \<le> confidence_rank floor"

fun ref_kind_as_str :: "ref_kind \<Rightarrow> string" where
  "ref_kind_as_str Call = ''call''"
| "ref_kind_as_str Type = ''type''"
| "ref_kind_as_str Use = ''use''"
| "ref_kind_as_str TraitBound = ''trait_bound''"
| "ref_kind_as_str Impl = ''impl''"
| "ref_kind_as_str Extends = ''extends''"
| "ref_kind_as_str Implements = ''implements''"

definition ref_kind_from_db :: "string \<Rightarrow> ref_kind graph_result" where
  "ref_kind_from_db value =
     (if value = ''call'' then Inr Call
      else if value = ''type'' then Inr Type
      else if value = ''use'' then Inr Use
      else if value = ''trait_bound'' then Inr TraitBound
      else if value = ''impl'' then Inr Impl
      else if value = ''extends'' then Inr Extends
      else if value = ''implements'' then Inr Implements
      else Inl (InvalidData ''decode stored graph ref kind''
                  (''unknown stored ref kind `'' @ value @ ''`'')))"

fun is_textual :: "ref_kind \<Rightarrow> bool" where
  "is_textual k \<longleftrightarrow> k = Call \<or> k = Type \<or> k = Use \<or> k = TraitBound"

fun is_structural :: "ref_kind \<Rightarrow> bool" where
  "is_structural k \<longleftrightarrow> k = Impl \<or> k = Extends \<or> k = Implements"

lemma confidence_from_db_label: "confidence_from_db (confidence_label c) = Inr c"
  by (cases c) (simp_all add: confidence_from_db_def)

lemma confidence_from_db_Inr_iff: "confidence_from_db v = Inr c \<longleftrightarrow> v = confidence_label c"
  by (cases c) (auto simp: confidence_from_db_def)

lemma ref_kind_from_db_Inr_iff: "ref_kind_from_db v = Inr k \<longleftrightarrow> v = ref_kind_as_str k"
  by (cases k) (auto simp: ref_kind_from_db_def)

lemma visible_at_floor_fuzzy: "visible_at_floor c FuzzyName"
  by (cases c) (simp_all add: visible_at_floor_def)

section \<open>Shared row predicates\<close>

text \<open>
  \<open>INBOUND_TARGET_MATCH\<close> of \<open>query/mod.rs\<close>. A comparison with \<open>NULL\<close> is never true, so a
  reference without a qualified target never matches.
\<close>

definition inbound_target_match :: "graph_db \<Rightarrow> int option \<Rightarrow> string \<Rightarrow> ref_row \<Rightarrow> bool" where
  "inbound_target_match db symbol_id qualified r \<longleftrightarrow>
     rf_target_qualified r = Some qualified \<and>
     ((rf_target_symbol_hint r \<noteq> None \<and> rf_target_symbol_hint r = symbol_id) \<or>
      \<not> list_ex (\<lambda>hinted. rf_target_symbol_hint r = Some (sy_id hinted) \<and>
                   sy_qualified hinted = qualified) (db_symbols db))"

definition symbol_selector :: "string \<Rightarrow> string \<Rightarrow> string \<Rightarrow> string" where
  "symbol_selector file_path qualified kind =
     ''symbol:'' @ file_path @ ''#'' @ qualified @ '':'' @ kind"

text \<open>
  The innermost symbol whose span encloses a reference, as the SQL of \<open>impact.rs\<close> and
  \<open>runtime.rs\<close> picks it: smallest span, then lowest id.
\<close>

definition encloses :: "string \<Rightarrow> int \<Rightarrow> int \<Rightarrow> symbol_row \<Rightarrow> bool" where
  "encloses file start end s \<longleftrightarrow>
     sy_file_path s = file \<and> sy_span_start s \<le> start \<and> end \<le> sy_span_end s"

definition enclosing_row :: "graph_db \<Rightarrow> string \<Rightarrow> int \<Rightarrow> int \<Rightarrow> symbol_row option" where
  "enclosing_row db file start end =
     first_row (sort_key (\<lambda>s. (sy_span_end s - sy_span_start s, sy_id s))
       (filter (encloses file start end) (db_symbols db)))"

section \<open>Looking a symbol up\<close>

text \<open>
  The contract every query relies on when it turns a \<open>symbol:\<close> selector into a row: the row it
  returns is stored under the file, kind and name asked for; an exact qualified name wins, the
  lowest id decides between equals; and a stored match is never missed.
\<close>

definition selected :: "string \<Rightarrow> string \<Rightarrow> string \<Rightarrow> symbol_row \<Rightarrow> bool" where
  "selected path symbol kind s \<longleftrightarrow>
     sy_file_path s = path \<and> sy_kind s = kind \<and> (sy_name s = symbol \<or> sy_qualified s = symbol)"

definition preferred :: "string \<Rightarrow> symbol_row \<Rightarrow> nat \<times> int" where
  "preferred symbol s = (if sy_qualified s = symbol then 0 else 1, sy_id s)"

locale symbol_lookup =
  fixes lookup :: "graph_db \<Rightarrow> string \<Rightarrow> string \<Rightarrow> string \<Rightarrow> symbol_row option"
  assumes sound: "lookup db path symbol kind = Some s \<Longrightarrow>
      s \<in> set (db_symbols db) \<and> selected path symbol kind s"
    and best: "lookup db path symbol kind = Some s \<Longrightarrow> t \<in> set (db_symbols db) \<Longrightarrow>
      selected path symbol kind t \<Longrightarrow> preferred symbol s \<le> preferred symbol t"
    and complete: "lookup db path symbol kind = None \<Longrightarrow> t \<in> set (db_symbols db) \<Longrightarrow>
      \<not> selected path symbol kind t"
begin

lemma lookup_Some_iff:
  assumes "db_keys_ok db"
  shows "lookup db path symbol kind = Some s \<longleftrightarrow>
    s \<in> set (db_symbols db) \<and> selected path symbol kind s \<and>
    (\<forall>t \<in> set (db_symbols db). selected path symbol kind t \<longrightarrow> preferred symbol s \<le> preferred symbol t)"
    (is "_ \<longleftrightarrow> ?best s")
proof
  assume "lookup db path symbol kind = Some s"
  then show "?best s" using sound best by blast
next
  assume s: "?best s"
  then obtain t where t: "lookup db path symbol kind = Some t"
    using complete by (cases "lookup db path symbol kind") auto
  then have "?best t" using sound best by blast
  with s have "preferred symbol s = preferred symbol t" by (meson order_antisym)
  then have "sy_id s = sy_id t" by (simp add: preferred_def)
  with s \<open>?best t\<close> assms have "s = t" by (blast intro: symbol_by_id_unique)
  with t show "lookup db path symbol kind = Some s" by simp
qed

lemma qualified_wins:
  assumes "lookup db path symbol kind = Some s" "t \<in> set (db_symbols db)"
    and "selected path symbol kind t" "sy_qualified t = symbol"
  shows "sy_qualified s = symbol"
  using best [OF assms(1-3)] assms(4) by (auto simp: preferred_def split: if_splits)

end

text \<open>Two implementations of the contract return the same row.\<close>

lemma symbol_lookup_agree:
  assumes "symbol_lookup f" "symbol_lookup g" "db_keys_ok db"
  shows "f db path symbol kind = g db path symbol kind"
proof (cases "f db path symbol kind")
  case None
  then have "\<And>t. t \<in> set (db_symbols db) \<Longrightarrow> \<not> selected path symbol kind t"
    using symbol_lookup.complete [OF assms(1)] by blast
  then have "g db path symbol kind = None"
    using symbol_lookup.sound [OF assms(2)] by (cases "g db path symbol kind") blast+
  with None show ?thesis by simp
next
  case (Some s)
  then have "g db path symbol kind = Some s"
    using symbol_lookup.lookup_Some_iff [OF assms(1,3)] symbol_lookup.lookup_Some_iff [OF assms(2,3)]
    by metis
  with Some show ?thesis by simp
qed

text \<open>The shape of every lookup statement: filter, order by preference and id, first row.\<close>

lemma symbol_lookup_first_row:
  assumes "\<And>db path symbol kind. lookup db path symbol kind =
      first_row (sort_key (key symbol) (filter (P path symbol kind) (db_symbols db)))"
    and "\<And>path symbol kind s. P path symbol kind s \<longleftrightarrow> selected path symbol kind s"
    and "\<And>path symbol kind s t. selected path symbol kind s \<Longrightarrow> selected path symbol kind t \<Longrightarrow>
      key symbol s \<le> key symbol t \<Longrightarrow> preferred symbol s \<le> preferred symbol t"
  shows "symbol_lookup lookup"
proof
  fix db path symbol kind s
  assume l: "lookup db path symbol kind = Some s"
  then show "s \<in> set (db_symbols db) \<and> selected path symbol kind s"
    using assms(1,2) by (auto dest: first_row_sort_key_mem)
  note s = this
  fix t assume t: "t \<in> set (db_symbols db)" "selected path symbol kind t"
  have "key symbol s \<le> key symbol t"
    using t l assms(1,2)
    by (auto intro: first_row_sort_key_least [of _ "filter (P path symbol kind) (db_symbols db)"])
  then show "preferred symbol s \<le> preferred symbol t"
    using s t by (blast intro: assms(3))
next
  fix db path symbol kind t
  assume "lookup db path symbol kind = None" "t \<in> set (db_symbols db)"
  then show "\<not> selected path symbol kind t"
    using assms(1,2) by (auto simp: first_row_sort_key_None filter_empty_conv)
qed

end
