(* ===== verification/Utf8.thy ===== *)
theory Utf8
  imports Rust_Prelude
begin

text \<open>
  The part of the Rust standard library's UTF-8 validation that bounded source reads and
  snippets rely on: \<open>str::from_utf8\<close> with its \<open>valid_up_to\<close> and \<open>error_len\<close>,
  \<open>is_char_boundary\<close>, the characters of a text, and \<open>String::from_utf8_lossy\<close>.

  The lemmas relate the validity of a prefix to character boundaries.
\<close>

section \<open>Validation\<close>

definition utf8_cont :: "char \<Rightarrow> bool" where
  "utf8_cont b \<longleftrightarrow> 0x80 \<le> code b \<and> code b \<le> 0xBF"

text \<open>The second byte of a three and of a four byte character.\<close>

definition utf8_second3 :: "char \<Rightarrow> char \<Rightarrow> bool" where
  "utf8_second3 b c \<longleftrightarrow>
     (if code b = 0xE0 then 0xA0 \<le> code c \<and> code c \<le> 0xBF
      else if code b = 0xED then 0x80 \<le> code c \<and> code c \<le> 0x9F
      else utf8_cont c)"

definition utf8_second4 :: "char \<Rightarrow> char \<Rightarrow> bool" where
  "utf8_second4 b c \<longleftrightarrow>
     (if code b = 0xF0 then 0x90 \<le> code c \<and> code c \<le> 0xBF
      else if code b = 0xF4 then 0x80 \<le> code c \<and> code c \<le> 0x8F
      else utf8_cont c)"

text \<open>
  What the validator finds at the start of a text: a character of so many bytes, an invalid
  sequence of so many bytes (\<open>error_len = Some n\<close>), or the end inside a character
  (\<open>error_len = None\<close>).
\<close>

datatype utf8_step = Valid nat | Invalid nat | Incomplete

fun utf8_next :: "string \<Rightarrow> utf8_step" where
  "utf8_next [] = Incomplete"
| "utf8_next (b # r) =
     (if code b < 0x80 then Valid 1
      else if 0xC2 \<le> code b \<and> code b \<le> 0xDF then
        (case r of [] \<Rightarrow> Incomplete | c # _ \<Rightarrow> if utf8_cont c then Valid 2 else Invalid 1)
      else if 0xE0 \<le> code b \<and> code b \<le> 0xEF then
        (case r of [] \<Rightarrow> Incomplete
         | c # r2 \<Rightarrow>
             if \<not> utf8_second3 b c then Invalid 1
             else (case r2 of [] \<Rightarrow> Incomplete
                   | d # _ \<Rightarrow> if utf8_cont d then Valid 3 else Invalid 2))
      else if 0xF0 \<le> code b \<and> code b \<le> 0xF4 then
        (case r of [] \<Rightarrow> Incomplete
         | c # r2 \<Rightarrow>
             if \<not> utf8_second4 b c then Invalid 1
             else (case r2 of [] \<Rightarrow> Incomplete
                   | d # r3 \<Rightarrow>
                       if \<not> utf8_cont d then Invalid 2
                       else (case r3 of [] \<Rightarrow> Incomplete
                             | e # _ \<Rightarrow> if utf8_cont e then Valid 4 else Invalid 3)))
      else Invalid 1)"

lemma utf8_next_pos: "utf8_next s \<noteq> Valid 0" "utf8_next s \<noteq> Invalid 0"
  by (cases s; auto split: if_splits list.splits)+

text \<open>\<open>str::from_utf8\<close>: \<open>None\<close> is \<open>Ok\<close>, \<open>Some (valid_up_to, error_len)\<close> the error.\<close>

function utf8_check :: "string \<Rightarrow> (nat \<times> nat option) option" where
  "utf8_check s =
     (if s = [] then None
      else case utf8_next s of
             Valid n \<Rightarrow> map_option (\<lambda>(v, e). (n + v, e)) (utf8_check (drop n s))
           | Invalid n \<Rightarrow> Some (0, Some n)
           | Incomplete \<Rightarrow> Some (0, None))"
  by pat_completeness auto
termination
proof (relation "measure length", goal_cases)
  case (2 s n)
  then show ?case using utf8_next_pos(1) [of s] by (cases n) auto
qed simp

declare utf8_check.simps [simp del]

abbreviation utf8_ok :: "string \<Rightarrow> bool" where
  "utf8_ok s \<equiv> utf8_check s = None"

definition is_char_boundary :: "string \<Rightarrow> nat \<Rightarrow> bool" where
  "is_char_boundary s i \<longleftrightarrow> i = 0 \<or> i = length s \<or> (i < length s \<and> \<not> utf8_cont (s ! i))"

text \<open>\<open>String::from_utf8_lossy\<close>: each invalid sequence becomes U+FFFD.\<close>

definition utf8_replacement :: string where
  "utf8_replacement = [CHR 0xEF, CHR 0xBF, CHR 0xBD]"

function from_utf8_lossy :: "string \<Rightarrow> string" where
  "from_utf8_lossy s =
     (if s = [] then []
      else case utf8_next s of
             Valid n \<Rightarrow> take n s @ from_utf8_lossy (drop n s)
           | Invalid n \<Rightarrow> utf8_replacement @ from_utf8_lossy (drop n s)
           | Incomplete \<Rightarrow> utf8_replacement)"
  by pat_completeness auto
termination
proof (relation "measure length", goal_cases)
  case (2 s n)
  then show ?case using utf8_next_pos(1) [of s] by (cases n) auto
next
  case (3 s n)
  then show ?case using utf8_next_pos(2) [of s] by (cases n) auto
qed simp

declare from_utf8_lossy.simps [simp del]

text \<open>The characters of a text, each as its bytes (\<open>chars()\<close> of a valid text).\<close>

function utf8_chars :: "string \<Rightarrow> string list" where
  "utf8_chars s =
     (if s = [] then []
      else case utf8_next s of
             Valid n \<Rightarrow> take n s # utf8_chars (drop n s)
           | _ \<Rightarrow> [])"
  by pat_completeness auto
termination
proof (relation "measure length", goal_cases)
  case (2 s n)
  then show ?case using utf8_next_pos(1) [of s] by (cases n) auto
qed simp

declare utf8_chars.simps [simp del]

section \<open>One character\<close>

lemma utf8_next_Valid_bounds: "utf8_next s = Valid n \<Longrightarrow> 0 < n \<and> n \<le> 4 \<and> n \<le> length s"
  by (cases s) (auto split: if_splits list.splits)

lemma utf8_next_take: "utf8_next s = Valid n \<Longrightarrow> n \<le> k \<Longrightarrow> utf8_next (take k s) = Valid n"
  by (cases s) (auto simp: take_Cons' split: if_splits list.splits)

lemma utf8_next_extend: "utf8_next (take k s) = Valid n \<Longrightarrow> k \<le> length s \<Longrightarrow> utf8_next s = Valid n"
  by (cases s) (auto simp: take_Cons' split: if_splits list.splits)

lemma utf8_next_cut: "utf8_next s = Valid n \<Longrightarrow> k < n \<Longrightarrow> utf8_next (take k s) = Incomplete"
  by (cases s) (auto simp: take_Cons' split: if_splits list.splits)

lemma utf8_next_lead: "utf8_next s = Valid n \<Longrightarrow> \<not> utf8_cont (s ! 0)"
  by (cases s) (auto simp: utf8_cont_def split: if_splits)

lemma utf8_second_cont: "utf8_second3 b c \<Longrightarrow> utf8_cont c" "utf8_second4 b c \<Longrightarrow> utf8_cont c"
  by (auto simp: utf8_second3_def utf8_second4_def utf8_cont_def split: if_splits)

lemma utf8_next_inner: "utf8_next s = Valid n \<Longrightarrow> 0 < k \<Longrightarrow> k < n \<Longrightarrow> utf8_cont (s ! k)"
proof -
  assume n: "utf8_next s = Valid n" and k: "0 < k" "k < n"
  have "n \<le> 4" using utf8_next_Valid_bounds [OF n] by simp
  with k consider "k = 1" "2 \<le> n" | "k = 2" "3 \<le> n" | "k = 3" "4 \<le> n" by linarith
  then show ?thesis
    using n by cases (cases s; auto dest: utf8_second_cont split: if_splits list.splits)+
qed

section \<open>Prefixes of valid text\<close>

lemma utf8_check_Nil [simp]: "utf8_check [] = None"
  by (subst utf8_check.simps) simp

lemma utf8_check_Valid:
  "utf8_next s = Valid n \<Longrightarrow> utf8_check s = map_option (\<lambda>(v, e). (n + v, e)) (utf8_check (drop n s))"
  by (cases "s = []") (simp, subst utf8_check.simps, simp)

lemma utf8_check_Incomplete: "s \<noteq> [] \<Longrightarrow> utf8_next s = Incomplete \<Longrightarrow> utf8_check s = Some (0, None)"
  by (subst utf8_check.simps) simp

lemma utf8_ok_cases [consumes 1, case_names Nil Char]:
  assumes "utf8_ok s"
  obtains "s = []" | n where "s \<noteq> []" "utf8_next s = Valid n" "utf8_ok (drop n s)"
proof (cases "s = []")
  case False
  with assms obtain n where "utf8_next s = Valid n"
    by (subst (asm) utf8_check.simps) (auto split: utf8_step.splits)
  with False assms that(2) show thesis by (auto simp: utf8_check_Valid)
qed (rule that(1))

lemma utf8_ok_induct [consumes 1, case_names Nil Char]:
  assumes "utf8_ok s" "P []"
    and "\<And>s n. s \<noteq> [] \<Longrightarrow> utf8_next s = Valid n \<Longrightarrow> utf8_ok (drop n s) \<Longrightarrow> P (drop n s) \<Longrightarrow> P s"
  shows "P s"
  using assms(1)
proof (induction "length s" arbitrary: s rule: less_induct)
  case less
  from less.prems show ?case
  proof (cases rule: utf8_ok_cases)
    case (Char n)
    then have "length (drop n s) < length s" using utf8_next_Valid_bounds [of s n] by simp
    with less.hyps Char show ?thesis by (blast intro: assms(3))
  qed (simp add: assms(2))
qed

text \<open>Cutting valid text either ends on a boundary or inside one character.\<close>

definition cut_at :: "string \<Rightarrow> nat \<Rightarrow> nat \<Rightarrow> bool" where
  "cut_at s k v \<longleftrightarrow> v < k \<and> k \<le> v + 3 \<and> utf8_check (take k s) = Some (v, None) \<and>
     utf8_ok (take v s) \<and> (\<exists>n. utf8_next (drop v s) = Valid n \<and> k < v + n)"

lemma utf8_take_Char:
  assumes "utf8_next s = Valid n" "n \<le> k"
  shows "utf8_check (take k s) =
    map_option (\<lambda>(v, e). (n + v, e)) (utf8_check (take (k - n) (drop n s)))"
  using utf8_check_Valid [OF utf8_next_take [OF assms]] by (simp add: drop_take)

lemma utf8_cut: "utf8_ok s \<Longrightarrow> k \<le> length s \<Longrightarrow> utf8_ok (take k s) \<or> (\<exists>v. cut_at s k v)"
proof (induction arbitrary: k rule: utf8_ok_induct)
  case (Char s n)
  show ?case
  proof (cases "n \<le> k")
    case True
    with Char.prems have "k - n \<le> length (drop n s)" by simp
    from Char.IH [OF this] consider "utf8_ok (take (k - n) (drop n s))"
      | v where "cut_at (drop n s) (k - n) v" by metis
    then show ?thesis
    proof cases
      case 1
      with True Char show ?thesis by (simp add: utf8_take_Char)
    next
      case 2
      then have "cut_at s k (n + v)"
        using True Char.hyps utf8_take_Char [of s n "n + v"] utf8_take_Char [of s n k]
        by (auto simp: cut_at_def ac_simps)
      then show ?thesis by blast
    qed
  next
    case False
    show ?thesis
    proof (cases "k = 0")
      case kpos: False
      then have "take k s \<noteq> []" using Char.hyps by simp
      then have "cut_at s k 0"
        using False kpos Char.hyps utf8_next_cut [of s n k] utf8_next_Valid_bounds [of s n]
        by (auto simp: cut_at_def utf8_check_Incomplete)
      then show ?thesis by blast
    qed simp
  qed
qed simp

lemma utf8_ok_nth_0: "utf8_ok s \<Longrightarrow> s \<noteq> [] \<Longrightarrow> \<not> utf8_cont (s ! 0)"
  by (cases rule: utf8_ok_cases) (auto dest: utf8_next_lead)

lemma boundary_drop:
  assumes "n \<le> k" "k \<le> length s" "0 < n" "utf8_ok (drop n s)"
  shows "is_char_boundary s k \<longleftrightarrow> is_char_boundary (drop n s) (k - n)"
proof (cases "k = n")
  case True
  then show ?thesis
    using assms utf8_ok_nth_0 [of "drop n s"] by (cases "n = length s") (auto simp: is_char_boundary_def)
next
  case False
  with assms have "s ! k = drop n s ! (k - n)" by simp
  with False assms show ?thesis by (auto simp: is_char_boundary_def)
qed

lemma boundary_iff_prefix_ok:
  "utf8_ok s \<Longrightarrow> k \<le> length s \<Longrightarrow> is_char_boundary s k \<longleftrightarrow> utf8_ok (take k s)"
proof (induction arbitrary: k rule: utf8_ok_induct)
  case (Char s n)
  note n = utf8_next_Valid_bounds [OF Char.hyps(2)]
  consider "k = 0" | "0 < k" "k < n" | "n \<le> k" by linarith
  then show ?case
  proof cases
    case 2
    then have "\<not> is_char_boundary s k" using utf8_next_inner [OF Char.hyps(2)] n
      by (auto simp: is_char_boundary_def)
    moreover have "\<not> utf8_ok (take k s)"
      using 2 Char.hyps utf8_next_cut [OF Char.hyps(2)] utf8_check_Incomplete [of "take k s"] by auto
    ultimately show ?thesis by simp
  next
    case 3
    then show ?thesis
      using Char n boundary_drop [of n k s] by (simp add: utf8_take_Char)
  qed (simp add: is_char_boundary_def)
qed (simp add: is_char_boundary_def)

lemma utf8_check_append:
  "utf8_ok (take v s) \<Longrightarrow> v \<le> length s \<Longrightarrow>
   utf8_check s = map_option (\<lambda>(w, e). (v + w, e)) (utf8_check (drop v s))"
proof (induction "length s" arbitrary: s v rule: less_induct)
  case less
  show ?case
  proof (cases "v = 0")
    case False
    with less.prems have "take v s \<noteq> []" by auto
    with less.prems(1) obtain n where n: "utf8_next (take v s) = Valid n"
      "utf8_ok (drop n (take v s))" by (cases rule: utf8_ok_cases) auto
    then have nv: "0 < n" "n \<le> v" using utf8_next_Valid_bounds [OF n(1)] by auto
    have ns: "utf8_next s = Valid n" using n(1) less.prems(2) by (rule utf8_next_extend)
    have "utf8_check (drop n s) =
        map_option (\<lambda>(w, e). (v - n + w, e)) (utf8_check (drop (v - n) (drop n s)))"
      using less.hyps [of "drop n s" "v - n"] less.prems n(2) nv by (simp add: drop_take)
    then show ?thesis
      using nv utf8_check_Valid [OF ns] by (simp add: option.map_comp comp_def split_def)
  qed (simp add: split_def option.map_ident)
qed

lemma cut_at_less:
  assumes "cut_at s k v" "v < j" "j \<le> k" "k \<le> length s"
  shows "utf8_check (take j s) = Some (v, None)"
proof -
  obtain n where n: "utf8_next (drop v s) = Valid n" "k < v + n" and v: "utf8_ok (take v s)" "v < k"
    using assms(1) by (auto simp: cut_at_def)
  have "drop v (take j s) = take (j - v) (drop v s)" by (simp add: drop_take)
  moreover have "utf8_next (take (j - v) (drop v s)) = Incomplete"
    using n assms(2,3) by (intro utf8_next_cut) auto
  moreover have "take (j - v) (drop v s) \<noteq> []" using assms by auto
  ultimately have "utf8_check (drop v (take j s)) = Some (0, None)"
    by (simp add: utf8_check_Incomplete)
  moreover have "utf8_ok (take v (take j s))" using v assms(2) by (simp add: min_def)
  ultimately show ?thesis using utf8_check_append [of v "take j s"] assms by simp
qed

end
