(* ===== verification/Memo.thy ===== *)
theory Memo
  imports Rust_Prelude
begin

text \<open>
  Query and resolution loops carry caches: a table filled on first use and read afterwards.
  This theory has the loop (a fallible traversal that threads a state), the table lookup, and
  the contract under which a caching loop returns what the cache-free loop returns.
\<close>

section \<open>Loops that thread a cache\<close>

fun res_scan :: "('s \<Rightarrow> 'a \<Rightarrow> 'e + 'b \<times> 's) \<Rightarrow> 's \<Rightarrow> 'a list \<Rightarrow> 'e + 'b list \<times> 's" where
  "res_scan step s [] = Inr ([], s)"
| "res_scan step s (x # xs) =
     res_bind (step s x) (\<lambda>(y, s1).
       res_bind (res_scan step s1 xs) (\<lambda>(ys, s2). Inr (y # ys, s2)))"

text \<open>Look up \<open>k\<close>; on a miss load it and remember the loaded value.\<close>

definition memo_get :: "('k \<Rightarrow> 'e + 'v) \<Rightarrow> ('k \<rightharpoonup> 'v) \<Rightarrow> 'k \<Rightarrow> 'e + 'v \<times> ('k \<rightharpoonup> 'v)" where
  "memo_get load table k =
     (case table k of
        Some v \<Rightarrow> Inr (v, table)
      | None \<Rightarrow> res_bind (load k) (\<lambda>v. Inr (v, table(k \<mapsto> v))))"

definition memo_good :: "('k \<Rightarrow> 'e + 'v) \<Rightarrow> ('k \<rightharpoonup> 'v) \<Rightarrow> bool" where
  "memo_good load table \<longleftrightarrow> (\<forall>k v. table k = Some v \<longrightarrow> load k = Inr v)"

text \<open>
  A stateful result agrees with a pure one: same error, or same value with a state that is
  still good.
\<close>

definition agrees :: "('s \<Rightarrow> bool) \<Rightarrow> 'e + 'b \<times> 's \<Rightarrow> 'e + 'b \<Rightarrow> bool" where
  "agrees good m r \<longleftrightarrow>
     (case r of Inl e \<Rightarrow> m = Inl e | Inr y \<Rightarrow> \<exists>s. good s \<and> m = Inr (y, s))"

lemma agrees_Inl_simp [simp]: "agrees good m (Inl e) \<longleftrightarrow> m = Inl e"
  by (simp add: agrees_def)

lemma agrees_Inr_simp [simp]: "agrees good (Inr (y, s)) (Inr z) \<longleftrightarrow> y = z \<and> good s"
  by (auto simp: agrees_def)

lemma agrees_Inr_D: "agrees good m (Inr y) \<Longrightarrow> \<exists>s. good s \<and> m = Inr (y, s)"
  by (simp add: agrees_def)

lemma agrees_bind:
  assumes "agrees good m r" "\<And>y s. good s \<Longrightarrow> r = Inr y \<Longrightarrow> agrees good' (f (y, s)) (g y)"
  shows "agrees good' (res_bind m f) (res_bind r g)"
proof (cases r)
  case (Inr y)
  with assms(1) obtain s where "good s" "m = Inr (y, s)" by (auto simp: agrees_def)
  with assms(2) Inr show ?thesis by simp
qed (use assms(1) in \<open>simp add: agrees_def\<close>)

lemma agrees_map:
  "agrees good m r \<Longrightarrow>
   agrees good (res_bind m (\<lambda>(y, s). Inr (f y, s))) (res_bind r (\<lambda>y. Inr (f y)))"
  by (erule agrees_bind) (simp add: agrees_def)

lemma agrees_lift:
  assumes "\<And>y. r = Inr y \<Longrightarrow> agrees good (f y) (g y)"
  shows "agrees good (res_bind r f) (res_bind r g)"
  using assms by (cases r) (auto simp: agrees_def)

lemma agrees_fst: "agrees good m r \<Longrightarrow> res_map fst m = r"
  by (cases r) (auto simp: agrees_def)

lemma memo_good_empty: "memo_good load Map.empty"
  by (simp add: memo_good_def)

lemma memo_get_agrees: "memo_good load table \<Longrightarrow> agrees (memo_good load) (memo_get load table k) (load k)"
  by (cases "table k"; cases "load k") (auto simp: memo_get_def memo_good_def agrees_def)

section \<open>The contract of a caching step\<close>

locale cached_step =
  fixes step :: "'s \<Rightarrow> 'a \<Rightarrow> 'e + 'b \<times> 's"
    and good :: "'s \<Rightarrow> bool"
    and spec :: "'a \<Rightarrow> 'e + 'b"
  assumes step_agrees: "good s \<Longrightarrow> agrees good (step s x) (spec x)"
begin

lemma scan_agrees: "good s \<Longrightarrow> agrees good (res_scan step s xs) (res_mapM spec xs)"
proof (induction xs arbitrary: s)
  case Nil
  then show ?case by (simp add: agrees_def)
next
  case (Cons x xs)
  show ?case
    unfolding res_scan.simps res_mapM.simps
  proof (rule agrees_bind [OF step_agrees [OF Cons.prems]])
    fix y s1 assume "good s1"
    show "agrees good (case (y, s1) of (y, s1) \<Rightarrow>
        res_bind (res_scan step s1 xs) (\<lambda>(ys, s2). Inr (y # ys, s2)))
        (res_bind (res_mapM spec xs) (\<lambda>ys. Inr (y # ys)))"
      using agrees_map [OF Cons.IH [OF \<open>good s1\<close>]] by simp
  qed
qed

lemma scan_result: "good s \<Longrightarrow> res_map fst (res_scan step s xs) = res_mapM spec xs"
  by (rule agrees_fst) (rule scan_agrees)

end

text \<open>The table lookup itself keeps the contract.\<close>

interpretation memo: cached_step "memo_get load" "memo_good load" load for load
  by unfold_locales (rule memo_get_agrees)

end
