(* ===== verification/Sources.thy ===== *)
theory Sources
  imports Store Utf8 Memo
begin

text \<open>
  Bounded reads of live worktree source (\<open>query/source.rs\<close>), the containment check of
  \<open>query/mod.rs\<close>, and the line index and line cache of \<open>query/refs.rs\<close>.

  The file system is a parameter: \<open>wt_canonicalize\<close> is \<open>Path::canonicalize\<close> (\<open>None\<close> when it
  fails) and \<open>wt_open\<close> what opening a path finds. A regular file carries the length that
  \<open>fstat\<close> reports and, separately, the bytes a later read sees, so that a file replaced or grown
  in between is covered.
\<close>

section \<open>The worktree\<close>

datatype fs_node =
  Regular nat string | Fifo | Socket | BlockDevice | CharDevice | Directory | SpecialFile

record worktree =
  wt_root :: string
  wt_canonicalize :: "string \<Rightarrow> string option"
  wt_open :: "string \<Rightarrow> fs_node option"

text \<open>\<open>Path::components\<close> on Unix; \<open>.\<close> and empty components are dropped.\<close>

definition path_components :: "string \<Rightarrow> string list" where
  "path_components p =
     (if starts_with ''/'' p then [''/''] else []) @
     filter (\<lambda>c. c \<noteq> [] \<and> c \<noteq> ''.'') (split_str ''/'' p)"

definition path_starts_with :: "string \<Rightarrow> string \<Rightarrow> bool" where
  "path_starts_with p base \<longleftrightarrow> prefix (path_components base) (path_components p)"

definition path_join :: "string \<Rightarrow> string \<Rightarrow> string" where
  "path_join base rel = (if ends_with ''/'' base then base @ rel else base @ ''/'' @ rel)"

definition path_leaves_worktree :: "string \<Rightarrow> bool" where
  "path_leaves_worktree path \<longleftrightarrow>
     list_ex (\<lambda>component. component = ''..'' \<or> component = ''/'') (path_components path)"

definition outside_error :: "string \<Rightarrow> string \<Rightarrow> graph_error" where
  "outside_error stored_path detail =
     InvalidData ''resolve graph source path''
       (''source path must stay inside the worktree: '' @ stored_path @ detail)"

definition contained_worktree_source :: "worktree \<Rightarrow> string \<Rightarrow> string graph_result" where
  "contained_worktree_source wt stored_path =
     (if starts_with ''/'' stored_path \<or> path_leaves_worktree stored_path
      then Inl (outside_error stored_path [])
      else let joined = path_join (wt_root wt) stored_path in
           case (wt_canonicalize wt joined, wt_canonicalize wt (wt_root wt)) of
             (Some physical, Some root) \<Rightarrow>
               if \<not> path_starts_with physical root
               then Inl (outside_error stored_path
                      ('' (a symbolic link resolves it to '' @ physical @ '')''))
               else Inr joined
           | _ \<Rightarrow> Inr joined)"

section \<open>Reading a file\<close>

definition MAX_FILE_BYTES :: nat where
  "MAX_FILE_BYTES = 4 * 1024 * 1024"

definition UTF8_CHAR_TAIL :: nat where
  "UTF8_CHAR_TAIL = 3"

definition USIZE_MAX :: nat where
  "USIZE_MAX = 2 ^ 64 - 1"

definition I64_MAX :: int where
  "I64_MAX = 2 ^ 63 - 1"

definition saturating_add :: "nat \<Rightarrow> nat \<Rightarrow> nat" where
  "saturating_add a b = min (a + b) USIZE_MAX"

definition usize_to_i64 :: "string \<Rightarrow> nat \<Rightarrow> int graph_result" where
  "usize_to_i64 operation value =
     (if int value > I64_MAX
      then Inl (InvalidData operation ''out of range integral type conversion attempted'')
      else Inr (int value))"

definition i64_to_usize :: "string \<Rightarrow> int \<Rightarrow> nat graph_result" where
  "i64_to_usize operation value =
     (if value < 0
      then Inl (InvalidData operation ''out of range integral type conversion attempted'')
      else Inr (nat value))"

fun special_kind :: "fs_node \<Rightarrow> string option" where
  "special_kind (Regular len body) = None"
| "special_kind Fifo = Some ''fifo''"
| "special_kind Socket = Some ''socket''"
| "special_kind BlockDevice = Some ''block device''"
| "special_kind CharDevice = Some ''character device''"
| "special_kind Directory = Some ''directory''"
| "special_kind SpecialFile = Some ''special file''"

text \<open>\<open>RegularSource::open\<close>: the file's \<open>fstat\<close> length and its bytes.\<close>

definition open_regular :: "worktree \<Rightarrow> string \<Rightarrow> string \<Rightarrow> (nat \<times> string) graph_result" where
  "open_regular wt path operation =
     (case wt_open wt path of
        None \<Rightarrow> Inl (Io operation path)
      | Some node \<Rightarrow>
          (case special_kind node of
             Some kind \<Rightarrow>
               Inl (InvalidData operation
                 (path @ '' is a '' @ kind
                   @ '', not a regular file; query source reads only regular files''))
           | None \<Rightarrow> (case node of Regular len body \<Rightarrow> Inr (len, body) | _ \<Rightarrow> Inl (Io operation path))))"

definition read_at :: "string \<Rightarrow> nat \<Rightarrow> nat \<Rightarrow> string \<Rightarrow> string \<Rightarrow> string graph_result" where
  "read_at body start len operation path =
     (if start + len \<le> length body then Inr (take len (drop start body))
      else Inl (Io operation path))"

definition oversized :: "string \<Rightarrow> string \<Rightarrow> nat \<Rightarrow> graph_error" where
  "oversized operation path len =
     InvalidData operation
       (path @ '' is '' @ show_nat len @ '' bytes, over the '' @ show_nat MAX_FILE_BYTES
         @ ''-byte live source cap; the file grew after it was indexed'')"

definition read_capped :: "nat \<Rightarrow> string \<Rightarrow> string \<Rightarrow> string \<Rightarrow> string graph_result" where
  "read_capped len body operation path =
     (if len > MAX_FILE_BYTES then Inl (oversized operation path len)
      else let buf = take (MAX_FILE_BYTES + 1) body in
           if length buf > MAX_FILE_BYTES then Inl (oversized operation path (length buf))
           else Inr buf)"

definition read_indexed_source :: "worktree \<Rightarrow> string \<Rightarrow> string \<Rightarrow> string graph_result" where
  "read_indexed_source wt path operation =
     res_bind (open_regular wt path operation) (\<lambda>(len, body). read_capped len body operation path)"

section \<open>The show window\<close>

definition show_read_len :: "nat \<Rightarrow> nat \<Rightarrow> nat" where
  "show_read_len span_len max_bytes =
     (if max_bytes = 0 \<or> span_len = 0 then 0
      else if span_len \<le> max_bytes then span_len
      else min span_len (saturating_add max_bytes UTF8_CHAR_TAIL))"

text \<open>The loop of \<open>rewind_to_char_boundary\<close>.\<close>

fun rewind_loop :: "string \<Rightarrow> nat \<Rightarrow> nat" where
  "rewind_loop text 0 = 0"
| "rewind_loop text (Suc n) =
     (if is_char_boundary text (Suc n) then Suc n else rewind_loop text n)"

definition rewind_to_char_boundary :: "string \<Rightarrow> nat \<Rightarrow> nat" where
  "rewind_to_char_boundary source byte_count =
     (if utf8_ok source then rewind_loop source byte_count else byte_count)"

definition utf8_has_char :: "string \<Rightarrow> bool" where
  "utf8_has_char bytes =
     (case utf8_check bytes of None \<Rightarrow> bytes \<noteq> [] | Some (valid_up_to, _) \<Rightarrow> 0 < valid_up_to)"

definition bounded_source_len :: "string \<Rightarrow> nat \<Rightarrow> bool \<Rightarrow> nat" where
  "bounded_source_len source max_bytes entire_span =
     (let byte_count = min (length source) max_bytes in
      if entire_span
      then if \<not> utf8_ok source then byte_count
           else rewind_to_char_boundary source byte_count
      else case utf8_check (take byte_count source) of
             None \<Rightarrow> byte_count
           | Some (valid, None) \<Rightarrow>
               if valid < byte_count \<and> utf8_has_char (drop valid source) then valid
               else byte_count
           | Some (valid, Some _) \<Rightarrow> byte_count)"

record show_window =
  sw_bytes :: string
  sw_start :: nat
  sw_end :: nat
  sw_truncated :: bool

definition read_show_window ::
  "worktree \<Rightarrow> string \<Rightarrow> string \<Rightarrow> string \<Rightarrow> int \<Rightarrow> int \<Rightarrow> nat \<Rightarrow> string \<Rightarrow> show_window graph_result" where
  "read_show_window wt path operation span_operation span_start span_end max_bytes file_label =
     res_bind (open_regular wt path operation) (\<lambda>(len, body).
     res_bind (i64_to_usize span_operation span_start) (\<lambda>start.
     res_bind (i64_to_usize span_operation span_end) (\<lambda>end.
       if start > end \<or> end > len
       then Inl (InvalidData span_operation
              (''invalid span '' @ show_nat start @ ''..'' @ show_nat end @ '' for '' @ file_label
                @ '' with '' @ show_nat len @ '' bytes''))
       else let span_len = end - start; read_len = show_read_len span_len max_bytes in
            res_bind (if read_len = 0 then Inr [] else read_at body start read_len operation path)
              (\<lambda>buf.
                let byte_count = bounded_source_len buf max_bytes (read_len = span_len) in
                Inr \<lparr>sw_bytes = take byte_count buf, sw_start = start, sw_end = end,
                      sw_truncated = byte_count < span_len\<rparr>))))"

section \<open>Line numbers\<close>

record line_index =
  li_bytes :: string
  li_line_starts :: "nat list"

definition newline_starts :: "string \<Rightarrow> nat list" where
  "newline_starts bytes = map (\<lambda>(index, _). index + 1)
     (filter (\<lambda>(_, byte). byte = CHR 0x0A) (List.enumerate 0 bytes))"

definition line_index_new :: "string \<Rightarrow> line_index" where
  "line_index_new bytes = \<lparr>li_bytes = bytes, li_line_starts = 0 # newline_starts bytes\<rparr>"

text \<open>\<open>partition_point\<close>: the starts are ascending, so it counts the leading ones up to the offset.\<close>

definition partition_point :: "('a \<Rightarrow> bool) \<Rightarrow> 'a list \<Rightarrow> nat" where
  "partition_point p xs = length (takeWhile p xs)"

definition li_line_for :: "line_index \<Rightarrow> nat \<Rightarrow> nat" where
  "li_line_for li byte_offset =
     (let capped = min byte_offset (length (li_bytes li)) in
      partition_point (\<lambda>line_start. line_start \<le> capped) (li_line_starts li))"

definition REF_SNIPPET_MAX_CHARS :: nat where
  "REF_SNIPPET_MAX_CHARS = 160"

definition ellipsis :: string where
  "ellipsis = [CHR 0xE2, CHR 0x80, CHR 0xA6]"

definition li_snippet_for :: "line_index \<Rightarrow> nat \<Rightarrow> nat \<Rightarrow> string" where
  "li_snippet_for li byte_offset max_chars =
     (let line = li_line_for li byte_offset;
          start = li_line_starts li ! (line - 1);
          end = max (if line < length (li_line_starts li) then li_line_starts li ! line - 1
                     else length (li_bytes li)) start;
          line_bytes = take (end - start) (drop start (li_bytes li));
          body = dropWhile is_ascii_whitespace line_bytes;
          window_len = min (length body) (min (saturating_add max_chars 1 * 4) USIZE_MAX);
          window_cut = window_len < length body;
          lossy = from_utf8_lossy (take window_len body);
          text = (if window_cut then trim_start lossy else trim_str lossy);
          chars = utf8_chars text
      in concat (take max_chars chars) @
         (if window_cut \<or> max_chars < length chars then ellipsis else []))"

definition checked_offset :: "string \<Rightarrow> int \<Rightarrow> nat graph_result" where
  "checked_offset file byte_offset =
     (if byte_offset < 0
      then Inl (InvalidData ''compute graph ref line''
             (''negative byte offset '' @ show_int byte_offset @ '' for '' @ file))
      else i64_to_usize ''compute graph ref line'' byte_offset)"

text \<open>\<open>LineCache\<close>: the line index of each file, loaded on first use.\<close>

type_synonym line_cache = "string \<rightharpoonup> line_index"

definition load_line_index :: "worktree \<Rightarrow> string \<Rightarrow> line_index graph_result" where
  "load_line_index wt file =
     res_bind (contained_worktree_source wt file) (\<lambda>path.
     res_bind (read_indexed_source wt path ''read source file for graph ref line'') (\<lambda>bytes.
       Inr (line_index_new bytes)))"

definition cache_line_for ::
  "worktree \<Rightarrow> line_cache \<Rightarrow> string \<Rightarrow> int \<Rightarrow> (nat \<times> line_cache) graph_result" where
  "cache_line_for wt cache file byte_offset =
     res_bind (checked_offset file byte_offset) (\<lambda>offset.
     res_bind (memo_get (load_line_index wt) cache file) (\<lambda>(li, cache').
       Inr (li_line_for li offset, cache')))"

definition cache_snippet_for ::
  "worktree \<Rightarrow> line_cache \<Rightarrow> string \<Rightarrow> int \<Rightarrow> (string \<times> line_cache) graph_result" where
  "cache_snippet_for wt cache file byte_offset =
     res_bind (checked_offset file byte_offset) (\<lambda>offset.
     res_bind (memo_get (load_line_index wt) cache file) (\<lambda>(li, cache').
       Inr (li_snippet_for li offset REF_SNIPPET_MAX_CHARS, cache')))"

section \<open>Lines are counted by newlines\<close>

definition newlines :: "string \<Rightarrow> nat" where
  "newlines s = length (filter (\<lambda>b. b = CHR 0x0A) s)"

lemma newline_starts_shift:
  "map (\<lambda>(index, _). index + 1) (filter (\<lambda>(_, byte). byte = CHR 0x0A) (List.enumerate n s)) =
   map (\<lambda>i. n + i) (newline_starts s)"
proof (induction s arbitrary: n)
  case (Cons c s)
  have "newline_starts (c # s) = (if c = CHR 0x0A then [1] else []) @ map Suc (newline_starts s)"
    unfolding newline_starts_def [of "c # s"] using Cons [of "Suc 0"] by simp
  with Cons [of "Suc n"] show ?case by simp
qed (simp add: newline_starts_def)

lemma newline_starts_Nil [simp]: "newline_starts [] = []"
  by (simp add: newline_starts_def)

lemma newline_starts_Cons [simp]:
  "newline_starts (c # s) = (if c = CHR 0x0A then [1] else []) @ map Suc (newline_starts s)"
  using newline_starts_shift [of 1 s] by (simp add: newline_starts_def)

lemma newline_starts_pos: "x \<in> set (newline_starts s) \<Longrightarrow> 0 < x \<and> x \<le> length s"
  by (induction s arbitrary: x) auto

lemma takeWhile_newline_starts:
  "length (takeWhile (\<lambda>x. x \<le> k) (newline_starts s)) = newlines (take k s)"
proof (induction s arbitrary: k)
  case (Cons c s)
  have "takeWhile (\<lambda>x. x \<le> 0) (map Suc (newline_starts s)) = []"
    by (cases "newline_starts s") auto
  with Cons show ?case
    by (cases k) (auto simp: newlines_def takeWhile_map comp_def)
qed (simp add: newlines_def)

lemma li_line_for_new: "li_line_for (line_index_new bytes) off = newlines (take off bytes) + 1"
  by (cases "off \<le> length bytes")
     (simp_all add: li_line_for_def line_index_new_def partition_point_def Let_def
       takeWhile_newline_starts min_def)

section \<open>The cache is transparent\<close>

definition pure_line_for :: "worktree \<Rightarrow> string \<Rightarrow> int \<Rightarrow> nat graph_result" where
  "pure_line_for wt file byte_offset =
     res_bind (checked_offset file byte_offset) (\<lambda>offset.
     res_bind (load_line_index wt file) (\<lambda>li. Inr (li_line_for li offset)))"

definition pure_snippet_for :: "worktree \<Rightarrow> string \<Rightarrow> int \<Rightarrow> string graph_result" where
  "pure_snippet_for wt file byte_offset =
     res_bind (checked_offset file byte_offset) (\<lambda>offset.
     res_bind (load_line_index wt file) (\<lambda>li.
       Inr (li_snippet_for li offset REF_SNIPPET_MAX_CHARS)))"

abbreviation lines_good :: "worktree \<Rightarrow> line_cache \<Rightarrow> bool" where
  "lines_good wt \<equiv> memo_good (load_line_index wt)"

interpretation line_lookup: cached_step
  "\<lambda>cache (file, off). cache_line_for wt cache file off" "lines_good wt"
  "\<lambda>(file, off). pure_line_for wt file off" for wt
  by unfold_locales
     (auto simp: cache_line_for_def pure_line_for_def
       intro!: agrees_lift agrees_map memo_get_agrees)

interpretation snippet_lookup: cached_step
  "\<lambda>cache (file, off). cache_snippet_for wt cache file off" "lines_good wt"
  "\<lambda>(file, off). pure_snippet_for wt file off" for wt
  by unfold_locales
     (auto simp: cache_snippet_for_def pure_snippet_for_def
       intro!: agrees_lift agrees_map memo_get_agrees)

lemma cache_line_for_agrees:
  "lines_good wt cache \<Longrightarrow>
   agrees (lines_good wt) (cache_line_for wt cache file off) (pure_line_for wt file off)"
  using line_lookup.step_agrees [of wt cache "(file, off)"] by simp

lemma cache_snippet_for_agrees:
  "lines_good wt cache \<Longrightarrow>
   agrees (lines_good wt) (cache_snippet_for wt cache file off) (pure_snippet_for wt file off)"
  using snippet_lookup.step_agrees [of wt cache "(file, off)"] by simp

section \<open>The show window stays within its budget\<close>

lemma rewind_loop_prefix:
  assumes "utf8_ok s" "k \<le> length s"
  shows "rewind_loop s k = (case utf8_check (take k s) of None \<Rightarrow> k | Some (v, _) \<Rightarrow> v)"
  using assms(2)
proof (induction k)
  case (Suc k)
  show ?case
  proof (cases "utf8_ok (take (Suc k) s)")
    case True
    with Suc.prems assms(1) show ?thesis by (simp add: boundary_iff_prefix_ok)
  next
    case False
    then obtain v where v: "cut_at s (Suc k) v" using utf8_cut [OF assms(1) Suc.prems] by auto
    have "utf8_check (take k s) = (if k = v then None else Some (v, None))"
    proof (cases "k = v")
      case True
      with v show ?thesis by (simp add: cut_at_def)
    next
      case kv: False
      with v have "v < k" by (simp add: cut_at_def)
      with v show ?thesis using cut_at_less [OF v] Suc.prems by simp
    qed
    with Suc v False assms(1) show ?thesis
      by (auto simp: boundary_iff_prefix_ok cut_at_def)
  qed
qed simp

lemma rewind_loop_le: "rewind_loop s k \<le> k"
  by (induction k) auto

lemma bounded_source_len_le: "bounded_source_len buf max_bytes entire \<le> min (length buf) max_bytes"
  using rewind_loop_le [of buf "min (length buf) max_bytes"]
  by (auto simp: bounded_source_len_def rewind_to_char_boundary_def Let_def split: option.splits)

text \<open>Either way of rewinding ends on the last character boundary within the budget.\<close>

definition last_boundary :: "string \<Rightarrow> nat \<Rightarrow> nat \<Rightarrow> bool" where
  "last_boundary s k n \<longleftrightarrow> n \<le> k \<and> k \<le> n + 3 \<and> utf8_ok (take n s)"

lemma cut_at_last_boundary: "cut_at s k v \<Longrightarrow> last_boundary s k v"
  by (simp add: cut_at_def last_boundary_def)

lemma bounded_whole:
  assumes "utf8_ok s"
  shows "last_boundary s (min (length s) b) (bounded_source_len s b True)"
proof -
  let ?k = "min (length s) b"
  have "bounded_source_len s b True = (case utf8_check (take ?k s) of None \<Rightarrow> ?k | Some (v, _) \<Rightarrow> v)"
    using assms rewind_loop_prefix [OF assms, of ?k]
    by (simp add: bounded_source_len_def rewind_to_char_boundary_def Let_def)
  moreover have "utf8_ok (take ?k s) \<or> (\<exists>v. cut_at s ?k v)" using assms by (intro utf8_cut) auto
  ultimately show ?thesis
    by (auto simp: last_boundary_def cut_at_def)
qed

lemma utf8_has_char_Valid: "utf8_next s = Valid n \<Longrightarrow> utf8_has_char s"
  using utf8_next_Valid_bounds [of s n] utf8_check_Valid [of s n]
  by (auto simp: utf8_has_char_def split: option.splits)

lemma bounded_window:
  assumes "utf8_ok s" "b + 3 \<le> length s"
  shows "last_boundary s b (bounded_source_len (take (b + 3) s) b False)"
proof -
  consider "utf8_ok (take b s)" | v where "cut_at s b v"
    using utf8_cut [OF assms(1), of b] assms(2) by auto
  then show ?thesis
  proof cases
    case 1
    with assms show ?thesis by (simp add: bounded_source_len_def last_boundary_def min_def)
  next
    case 2
    then obtain n where v: "v < b" "b \<le> v + 3" and n: "utf8_next (drop v s) = Valid n"
      and c: "utf8_check (take b s) = Some (v, None)" by (auto simp: cut_at_def)
    have "n \<le> b + 3 - v" using v utf8_next_Valid_bounds [OF n] by arith
    then have "utf8_next (drop v (take (b + 3) s)) = Valid n"
      using utf8_next_take [OF n] by (simp add: drop_take)
    then have "bounded_source_len (take (b + 3) s) b False = v"
      using assms v c utf8_has_char_Valid by (simp add: bounded_source_len_def min_def)
    with cut_at_last_boundary [OF 2] show ?thesis by simp
  qed
qed

lemma show_read_len_cases:
  assumes "span_len \<le> USIZE_MAX" "0 < max_bytes"
  shows "show_read_len span_len max_bytes = span_len \<or>
    (show_read_len span_len max_bytes = max_bytes + 3 \<and> max_bytes + 3 < span_len)"
  using assms by (auto simp: show_read_len_def saturating_add_def UTF8_CHAR_TAIL_def min_def)

lemma show_read_len_le: "show_read_len span_len max_bytes \<le> span_len"
  by (simp add: show_read_len_def)

text \<open>The window as a function of what the span bytes turn out to be.\<close>

definition window_of :: "string \<Rightarrow> nat \<Rightarrow> nat \<Rightarrow> nat \<Rightarrow> show_window" where
  "window_of buf start end max_bytes =
     \<lparr>sw_bytes = take (bounded_source_len buf max_bytes (length buf = end - start)) buf,
      sw_start = start, sw_end = end,
      sw_truncated = bounded_source_len buf max_bytes (length buf = end - start) < end - start\<rparr>"

lemma i64_to_usize_InrD: "i64_to_usize op v = Inr n \<Longrightarrow> i64_to_usize op v = Inr (nat v)"
  by (simp add: i64_to_usize_def split: if_splits)

lemma read_window_buf:
  assumes "(if n = 0 then Inr [] else read_at body start n op path) = Inr buf"
  shows "buf = take n (drop start body) \<and> length buf = n"
  using assms by (auto simp: read_at_def split: if_splits)

lemma read_show_window_InrD:
  assumes "read_show_window wt path op sop s e max_bytes label = Inr w"
    and "wt_open wt path = Some (Regular len body)"
  shows "\<exists>buf. buf = take (show_read_len (nat e - nat s) max_bytes) (drop (nat s) body) \<and>
    length buf = show_read_len (nat e - nat s) max_bytes \<and>
    w = window_of buf (nat s) (nat e) max_bytes"
proof -
  have ok: "open_regular wt path op = Inr (len, body)" by (simp add: open_regular_def assms(2))
  have "\<exists>n. i64_to_usize sop s = Inr n"
    using assms(1) by (rule contrapos_pp) (cases "i64_to_usize sop s"; simp add: read_show_window_def ok)
  then have s: "i64_to_usize sop s = Inr (nat s)" by (auto dest: i64_to_usize_InrD)
  have "\<exists>n. i64_to_usize sop e = Inr n"
    using assms(1)
    by (rule contrapos_pp) (cases "i64_to_usize sop e"; simp add: read_show_window_def ok s)
  then have e: "i64_to_usize sop e = Inr (nat e)" by (auto dest: i64_to_usize_InrD)
  note r = assms(1) [unfolded read_show_window_def ok s e res_bind.simps prod.case]
  have span: "\<not> (nat s > nat e \<or> nat e > len)"
    using r by (rule contrapos_pn) (simp only: if_True sum.distinct simp_thms)
  let ?n = "show_read_len (nat e - nat s) max_bytes"
  obtain buf where buf: "(if ?n = 0 then Inr [] else read_at body (nat s) ?n op path) = Inr buf"
    and w: "w = \<lparr>sw_bytes = take (bounded_source_len buf max_bytes (?n = nat e - nat s)) buf,
      sw_start = nat s, sw_end = nat e,
      sw_truncated = bounded_source_len buf max_bytes (?n = nat e - nat s) < nat e - nat s\<rparr>"
    using r unfolding if_not_P [OF span] res_bind_Inr_iff Let_def by blast
  note b = read_window_buf [OF buf]
  have "w = window_of buf (nat s) (nat e) max_bytes"
    unfolding w window_of_def conjunct2 [OF b] ..
  with b show ?thesis by blast
qed

lemma show_window_budget_aux:
  assumes "read_show_window wt path op sop s e max_bytes label = Inr w"
    and "wt_open wt path = Some (Regular len body)" "e \<le> I64_MAX"
  shows "prefix (sw_bytes w) (take (nat e - nat s) (drop (nat s) body)) \<and>
    length (sw_bytes w) \<le> max_bytes \<and>
    (sw_truncated w \<longleftrightarrow> length (sw_bytes w) < nat e - nat s) \<and>
    (nat e \<le> length body \<and> utf8_ok (take (nat e - nat s) (drop (nat s) body)) \<longrightarrow>
       utf8_ok (sw_bytes w) \<and> min max_bytes (nat e - nat s) \<le> length (sw_bytes w) + 3)"
proof -
  define n where "n = nat e - nat s"
  define r where "r = show_read_len n max_bytes"
  define span where "span = take n (drop (nat s) body)"
  obtain buf where buf: "buf = take r (drop (nat s) body)" "length buf = r"
    and w: "w = \<lparr>sw_bytes = take (bounded_source_len buf max_bytes (r = n)) buf,
      sw_start = nat s, sw_end = nat e, sw_truncated = bounded_source_len buf max_bytes (r = n) < n\<rparr>"
    using read_show_window_InrD [OF assms(1,2)] unfolding window_of_def n_def r_def by metis
  define k where "k = bounded_source_len buf max_bytes (r = n)"
  have k: "k \<le> r" "k \<le> max_bytes" using bounded_source_len_le [of buf max_bytes] buf by (auto simp: k_def)
  have "r \<le> n" by (simp add: r_def show_read_len_le)
  then have bs: "buf = take r span" by (simp add: buf span_def min_def)
  have wb: "sw_bytes w = take k span" "length (sw_bytes w) = k"
    using w bs k buf by (auto simp: k_def min_def)
  have utf8: "utf8_ok (take k span) \<and> min max_bytes n \<le> k + 3"
    if "nat e \<le> length body" "utf8_ok span"
  proof -
    have ls: "length span = n" using that(1) by (simp add: span_def n_def)
    have "n \<le> USIZE_MAX" using assms(3) by (simp add: n_def I64_MAX_def USIZE_MAX_def)
    then consider "max_bytes = 0" | "r = n" | "r = max_bytes + 3" "r < n"
      using show_read_len_cases [of n max_bytes] by (fastforce simp: r_def)
    then have "last_boundary span (min max_bytes n) k"
    proof cases
      case 1
      with k show ?thesis by (simp add: last_boundary_def)
    next
      case 2
      with bs ls show ?thesis
        using bounded_whole [OF that(2), of max_bytes] by (simp add: k_def min.commute)
    next
      case 3
      with bs ls show ?thesis
        using bounded_window [OF that(2), of max_bytes] by (simp add: k_def min_def)
    qed
    then show ?thesis by (simp add: last_boundary_def)
  qed
  have "sw_truncated w \<longleftrightarrow> k < n" by (simp add: w k_def)
  moreover have "prefix (take k span) span" by (rule take_is_prefix)
  ultimately show ?thesis
    unfolding n_def [symmetric] span_def [symmetric] wb(2) unfolding wb(1)
    using k(2) utf8 by (intro conjI impI) auto
qed

text \<open>
  C18. A \<open>show\<close> read returns a prefix of the indexed span that fits the caller's byte budget and
  says exactly when it is shorter than the span. When the span is valid UTF-8 the returned bytes
  are too, and at most three bytes of the budget are given up for that, although the bytes past
  the budget and one character are never read.
\<close>

theorem show_window_budget:
  assumes "read_show_window wt path op sop s e max_bytes label = Inr w"
    and "wt_open wt path = Some (Regular len body)" "e \<le> I64_MAX"
  shows "prefix (sw_bytes w) (take (nat e - nat s) (drop (nat s) body)) \<and>
    length (sw_bytes w) \<le> max_bytes \<and>
    (sw_truncated w \<longleftrightarrow> length (sw_bytes w) < nat e - nat s) \<and>
    (nat e \<le> length body \<and> utf8_ok (take (nat e - nat s) (drop (nat s) body)) \<longrightarrow>
       utf8_ok (sw_bytes w) \<and> min max_bytes (nat e - nat s) \<le> length (sw_bytes w) + 3)"
  using assms by (rule show_window_budget_aux)

definition demo_text :: string where
  "demo_text = [CHR ''a'', CHR 0xE2, CHR 0x80, CHR 0xA6, CHR ''b'', CHR ''c'', CHR ''d'']"

definition demo_worktree :: worktree where
  "demo_worktree = \<lparr>wt_root = ''/w'', wt_canonicalize = (\<lambda>p. Some p),
     wt_open = (\<lambda>p. Some (Regular 7 demo_text))\<rparr>"

theorem show_window_budget_witness:
  "\<exists>w. read_show_window demo_worktree ''/w/f'' ''read'' ''span'' 0 7 2 ''f'' = Inr w \<and>
     sw_bytes w = ''a'' \<and> length (sw_bytes w) \<le> 2 \<and> sw_truncated w"
proof -
  let ?w = "\<lparr>sw_bytes = ''a'', sw_start = 0, sw_end = 7, sw_truncated = True\<rparr>"
  have l: "show_read_len 7 2 = 5"
    by (simp add: show_read_len_def saturating_add_def UTF8_CHAR_TAIL_def USIZE_MAX_def)
  have b: "bounded_source_len (take 5 demo_text) 2 False = 1" by code_simp
  have t: "length demo_text = 7" "take 1 (take 5 demo_text) = ''a''" by (simp_all add: demo_text_def)
  have r: "read_show_window demo_worktree ''/w/f'' ''read'' ''span'' 0 7 2 ''f'' = Inr ?w"
    by (simp add: read_show_window_def open_regular_def demo_worktree_def i64_to_usize_def read_at_def
        Let_def l t) (simp add: b t(2) [simplified])
  have "wt_open demo_worktree ''/w/f'' = Some (Regular 7 demo_text)" by (simp add: demo_worktree_def)
  from show_window_budget [OF r this] have "length (sw_bytes ?w) \<le> 2" by (simp add: I64_MAX_def)
  with r show ?thesis by simp
qed

end
