(* ===== verification/Query_Refs.thy ===== *)
theory Query_Refs
  imports Sources
begin

text \<open>
  The inbound reference and relation query (\<open>query/refs.rs\<close>): target resolution, the row
  queries for textual references and structural relations, the confidence floor with its count
  of excluded rows, the per-query line and enclosing-symbol caches, and the fuzzy fallback.
\<close>

section \<open>Model\<close>

record ref_opts =
  ro_confidence :: ref_confidence
  ro_kind :: "ref_kind option"

record ref_target =
  rt_name :: string
  rt_qualified :: "string option"

record query_target =
  qt_output :: ref_target
  qt_symbol_id :: "int option"

record ref_entry =
  re_file :: string
  re_line :: nat
  re_kind :: ref_kind
  re_confidence :: ref_confidence
  re_from_selector :: "string option"
  re_snippet :: string

record relation_entry =
  le_from :: string
  le_kind :: ref_kind
  le_file :: string
  le_line :: nat
  le_confidence :: ref_confidence

record ref_fallback =
  rb_confidence :: ref_confidence
  rb_refs :: "ref_entry list"
  rb_note :: string

record ref_result =
  rr_target :: ref_target
  rr_refs :: "ref_entry list"
  rr_relations :: "relation_entry list"
  rr_skipped_low_confidence :: nat
  rr_fallback_used :: bool
  rr_fallback :: "ref_fallback option"

text \<open>The target statement, and \<open>resolve_target\<close> around it.\<close>

definition refs_target_row :: "graph_db \<Rightarrow> string \<Rightarrow> string \<Rightarrow> string \<Rightarrow> symbol_row option" where
  "refs_target_row db path symbol kind =
     first_row (sort_key (\<lambda>s. (if sy_qualified s = symbol then 0 else 1 :: nat, sy_id s))
       (filter (\<lambda>s. sy_file_path s = path \<and> sy_kind s = kind \<and>
                   (sy_name s = symbol \<or> sy_qualified s = symbol)) (db_symbols db)))"

definition unresolved_target :: "string \<Rightarrow> query_target" where
  "unresolved_target name =
     \<lparr>qt_output = \<lparr>rt_name = name, rt_qualified = None\<rparr>, qt_symbol_id = None\<rparr>"

definition resolve_target :: "graph_db \<Rightarrow> selector \<Rightarrow> query_target" where
  "resolve_target db sel =
     (case sel of
        Symbol path symbol kind \<Rightarrow>
          (case refs_target_row db path symbol kind of
             Some s \<Rightarrow> \<lparr>qt_output = \<lparr>rt_name = sy_name s, rt_qualified = Some (sy_qualified s)\<rparr>,
                        qt_symbol_id = Some (sy_id s)\<rparr>
           | None \<Rightarrow> unresolved_target symbol)
      | _ \<Rightarrow> unresolved_target (selector_path sel))"

definition refs_empty_result :: "ref_target \<Rightarrow> ref_result" where
  "refs_empty_result target =
     \<lparr>rr_target = target, rr_refs = [], rr_relations = [], rr_skipped_low_confidence = 0,
      rr_fallback_used = False, rr_fallback = None\<rparr>"

definition should_query_refs :: "ref_kind option \<Rightarrow> bool" where
  "should_query_refs kind = (case kind of None \<Rightarrow> True | Some k \<Rightarrow> is_textual k)"

definition should_query_relations :: "ref_kind option \<Rightarrow> bool" where
  "should_query_relations kind = (case kind of None \<Rightarrow> True | Some k \<Rightarrow> is_structural k)"

text \<open>\<open>EnclosingSymbols\<close>: the symbol rows of a file in id order, loaded on first use.\<close>

type_synonym enclosing_symbols = "string \<rightharpoonup> symbol_row list"

definition load_spans :: "graph_db \<Rightarrow> string \<Rightarrow> symbol_row list graph_result" where
  "load_spans db file =
     Inr (sort_key sy_id (filter (\<lambda>s. sy_file_path s = file) (db_symbols db)))"

definition innermost :: "symbol_row list \<Rightarrow> int \<Rightarrow> int \<Rightarrow> symbol_row option" where
  "innermost symbols start end =
     min_by_key (\<lambda>s. sy_span_end s - sy_span_start s)
       (filter (\<lambda>s. sy_span_start s \<le> start \<and> sy_span_end s \<ge> end) symbols)"

definition enclosing_selector_for ::
  "graph_db \<Rightarrow> enclosing_symbols \<Rightarrow> string \<Rightarrow> int \<Rightarrow> int \<Rightarrow>
     (string option \<times> enclosing_symbols) graph_result" where
  "enclosing_selector_for db files file start end =
     res_bind (memo_get (load_spans db) files file) (\<lambda>(symbols, files').
       Inr (map_option (\<lambda>s. symbol_selector file (sy_qualified s) (sy_kind s))
              (innermost symbols start end), files'))"

record row_context =
  rc_lines :: line_cache
  rc_enclosing :: enclosing_symbols

text \<open>The \<open>WHERE\<close> clause of the four statements of \<open>query_refs\<close>, and their \<open>ORDER BY\<close>.\<close>

definition ref_row_matches ::
  "graph_db \<Rightarrow> int option \<Rightarrow> string \<Rightarrow> string \<Rightarrow> ref_opts \<Rightarrow> ref_row \<Rightarrow> bool" where
  "ref_row_matches db symbol_id qualified target_name opts r =
     (let target_match = inbound_target_match db symbol_id qualified r;
          fuzzy = (rf_confidence r = ''fuzzy_name'' \<and> rf_target_name r = target_name)
      in case (ro_kind opts, ro_confidence opts = FuzzyName) of
           (Some kind, True) \<Rightarrow> rf_kind r = ref_kind_as_str kind \<and> (target_match \<or> fuzzy)
         | (Some kind, False) \<Rightarrow> target_match \<and> rf_kind r = ref_kind_as_str kind
         | (None, True) \<Rightarrow> target_match \<or> (fuzzy \<and> rf_kind r \<noteq> ''runtime_invocation'')
         | (None, False) \<Rightarrow> target_match)"

definition ref_rows ::
  "graph_db \<Rightarrow> int option \<Rightarrow> string \<Rightarrow> string \<Rightarrow> ref_opts \<Rightarrow> ref_row list" where
  "ref_rows db symbol_id qualified target_name opts =
     sort_key (\<lambda>r. (rf_from_file r, rf_from_span_start r, rf_id r))
       (filter (ref_row_matches db symbol_id qualified target_name opts) (db_refs db))"

text \<open>One row of the loop; \<open>None\<close> is a row below the floor, which the loop counts.\<close>

definition ref_row_step ::
  "worktree \<Rightarrow> graph_db \<Rightarrow> ref_confidence \<Rightarrow> row_context \<Rightarrow> ref_row \<Rightarrow>
     (ref_entry option \<times> row_context) graph_result" where
  "ref_row_step wt db floor context row =
     res_bind (ref_kind_from_db (rf_kind row)) (\<lambda>kind.
     res_bind (confidence_from_db (rf_confidence row)) (\<lambda>confidence.
       if \<not> visible_at_floor confidence floor then Inr (None, context)
       else res_bind (enclosing_selector_for db (rc_enclosing context) (rf_from_file row)
              (rf_from_span_start row) (rf_from_span_end row)) (\<lambda>(from_selector, enclosing).
            res_bind (cache_line_for wt (rc_lines context) (rf_from_file row)
              (rf_from_span_start row)) (\<lambda>(line, lines).
            res_bind (cache_snippet_for wt lines (rf_from_file row) (rf_from_span_start row))
              (\<lambda>(snippet, lines').
                Inr (Some \<lparr>re_file = rf_from_file row, re_line = line, re_kind = kind,
                           re_confidence = confidence, re_from_selector = from_selector,
                           re_snippet = snippet\<rparr>,
                     \<lparr>rc_lines = lines', rc_enclosing = enclosing\<rparr>))))))"

definition query_refs ::
  "worktree \<Rightarrow> graph_db \<Rightarrow> int option \<Rightarrow> string \<Rightarrow> string \<Rightarrow> ref_opts \<Rightarrow> row_context \<Rightarrow>
     ((ref_entry list \<times> nat) \<times> row_context) graph_result" where
  "query_refs wt db symbol_id qualified target_name opts context =
     res_bind (res_scan (ref_row_step wt db (ro_confidence opts)) context
         (ref_rows db symbol_id qualified target_name opts))
       (\<lambda>(entries, context'). Inr ((kept entries, skipped entries), context'))"

definition relation_row_list :: "graph_db \<Rightarrow> string \<Rightarrow> ref_opts \<Rightarrow> relation_row list" where
  "relation_row_list db qualified opts =
     sort_key (\<lambda>r. (rl_def_file r, rl_def_span_start r, rl_id r))
       (filter (\<lambda>r. rl_to_qualified r = qualified \<and>
                   (case ro_kind opts of None \<Rightarrow> True | Some kind \<Rightarrow> rl_kind r = ref_kind_as_str kind))
         (db_relations db))"

definition relation_row_step ::
  "worktree \<Rightarrow> ref_confidence \<Rightarrow> row_context \<Rightarrow> relation_row \<Rightarrow>
     (relation_entry option \<times> row_context) graph_result" where
  "relation_row_step wt floor context row =
     res_bind (ref_kind_from_db (rl_kind row)) (\<lambda>kind.
     res_bind (confidence_from_db (rl_confidence row)) (\<lambda>confidence.
       if \<not> visible_at_floor confidence floor then Inr (None, context)
       else res_bind (cache_line_for wt (rc_lines context) (rl_def_file row)
              (rl_def_span_start row)) (\<lambda>(line, lines).
            Inr (Some \<lparr>le_from = rl_from_qualified row, le_kind = kind,
                       le_file = rl_def_file row, le_line = line, le_confidence = confidence\<rparr>,
                 context\<lparr>rc_lines := lines\<rparr>))))"

definition query_relations ::
  "worktree \<Rightarrow> graph_db \<Rightarrow> string \<Rightarrow> ref_opts \<Rightarrow> row_context \<Rightarrow>
     ((relation_entry list \<times> nat) \<times> row_context) graph_result" where
  "query_relations wt db qualified opts context =
     res_bind (res_scan (relation_row_step wt (ro_confidence opts)) context
         (relation_row_list db qualified opts))
       (\<lambda>(entries, context'). Inr ((kept entries, skipped entries), context'))"

definition refs_note :: "ref_confidence \<Rightarrow> nat \<Rightarrow> string" where
  "refs_note confidence n =
     ''No references resolved at the `'' @ confidence_label confidence @
     ''` confidence floor; showing '' @ show_nat n @
     '' match(es) found at the `fuzzy_name` fallback floor. These are name-only matches and may include unrelated symbols sharing the name '' @
     [CHR 0xE2, CHR 0x80, CHR 0x94] @ '' check each entry's `confidence`.''"

definition maybe_fuzzy_fallback ::
  "worktree \<Rightarrow> graph_db \<Rightarrow> int option \<Rightarrow> string \<Rightarrow> string \<Rightarrow> ref_opts \<Rightarrow> ref_entry list \<Rightarrow>
     row_context \<Rightarrow> (ref_fallback option \<times> row_context) graph_result" where
  "maybe_fuzzy_fallback wt db symbol_id qualified target_name opts refs context =
     (if refs \<noteq> [] \<or> ro_confidence opts = FuzzyName \<or> \<not> should_query_refs (ro_kind opts)
      then Inr (None, context)
      else res_bind (query_refs wt db symbol_id qualified target_name
             \<lparr>ro_confidence = FuzzyName, ro_kind = ro_kind opts\<rparr> context)
           (\<lambda>((fallback_refs, _), context').
             if fallback_refs = [] then Inr (None, context')
             else Inr (Some \<lparr>rb_confidence = FuzzyName, rb_refs = fallback_refs,
                      rb_note = refs_note (ro_confidence opts) (length fallback_refs)\<rparr>, context')))"

definition refs_run ::
  "worktree \<Rightarrow> graph_db option \<Rightarrow> selector \<Rightarrow> ref_opts \<Rightarrow> ref_result graph_result" where
  "refs_run wt conn sel opts =
     with_read_connection conn (\<lambda>db.
       let target = resolve_target db sel in
       case rt_qualified (qt_output target) of
         None \<Rightarrow> Inr (refs_empty_result (qt_output target))
       | Some qualified \<Rightarrow>
           res_bind (if should_query_refs (ro_kind opts)
                     then query_refs wt db (qt_symbol_id target) qualified
                            (rt_name (qt_output target)) opts
                            \<lparr>rc_lines = Map.empty, rc_enclosing = Map.empty\<rparr>
                     else Inr (([], 0), \<lparr>rc_lines = Map.empty, rc_enclosing = Map.empty\<rparr>))
             (\<lambda>((refs, skipped_refs), context).
           res_bind (if should_query_relations (ro_kind opts)
                     then query_relations wt db qualified opts context
                     else Inr (([], 0), context))
             (\<lambda>((relations, skipped_relations), context').
           res_bind (maybe_fuzzy_fallback wt db (qt_symbol_id target) qualified
                       (rt_name (qt_output target)) opts refs context')
             (\<lambda>(fallback, _).
               Inr \<lparr>rr_target = qt_output target, rr_refs = refs, rr_relations = relations,
                     rr_skipped_low_confidence = skipped_refs + skipped_relations,
                     rr_fallback_used = (fallback \<noteq> None), rr_fallback = fallback\<rparr>))))"

interpretation refs_lookup: symbol_lookup refs_target_row
  by (rule symbol_lookup_first_row [where key = preferred and P = selected])
     (simp_all add: refs_target_row_def preferred_def [abs_def] selected_def [abs_def] fun_eq_iff)

section \<open>The caches are transparent\<close>

text \<open>The same query without caches: every row reads its file and its symbols afresh.\<close>

definition pure_selector_for :: "graph_db \<Rightarrow> string \<Rightarrow> int \<Rightarrow> int \<Rightarrow> string option" where
  "pure_selector_for db file start end =
     map_option (\<lambda>s. symbol_selector file (sy_qualified s) (sy_kind s)) (enclosing_row db file start end)"

definition pure_ref_row ::
  "worktree \<Rightarrow> graph_db \<Rightarrow> ref_confidence \<Rightarrow> ref_row \<Rightarrow> ref_entry option graph_result" where
  "pure_ref_row wt db floor row =
     res_bind (ref_kind_from_db (rf_kind row)) (\<lambda>kind.
     res_bind (confidence_from_db (rf_confidence row)) (\<lambda>confidence.
       if \<not> visible_at_floor confidence floor then Inr None
       else res_bind (pure_line_for wt (rf_from_file row) (rf_from_span_start row)) (\<lambda>line.
            res_bind (pure_snippet_for wt (rf_from_file row) (rf_from_span_start row)) (\<lambda>snippet.
              Inr (Some \<lparr>re_file = rf_from_file row, re_line = line, re_kind = kind,
                         re_confidence = confidence,
                         re_from_selector = pure_selector_for db (rf_from_file row)
                           (rf_from_span_start row) (rf_from_span_end row),
                         re_snippet = snippet\<rparr>)))))"

definition pure_relation_row ::
  "worktree \<Rightarrow> ref_confidence \<Rightarrow> relation_row \<Rightarrow> relation_entry option graph_result" where
  "pure_relation_row wt floor row =
     res_bind (ref_kind_from_db (rl_kind row)) (\<lambda>kind.
     res_bind (confidence_from_db (rl_confidence row)) (\<lambda>confidence.
       if \<not> visible_at_floor confidence floor then Inr None
       else res_bind (pure_line_for wt (rl_def_file row) (rl_def_span_start row)) (\<lambda>line.
            Inr (Some \<lparr>le_from = rl_from_qualified row, le_kind = kind,
                       le_file = rl_def_file row, le_line = line, le_confidence = confidence\<rparr>))))"

definition rows_good :: "worktree \<Rightarrow> graph_db \<Rightarrow> row_context \<Rightarrow> bool" where
  "rows_good wt db context \<longleftrightarrow>
     lines_good wt (rc_lines context) \<and> memo_good (load_spans db) (rc_enclosing context)"

lemma innermost_enclosing_row:
  "innermost (sort_key sy_id (filter (\<lambda>s. sy_file_path s = file) (db_symbols db))) start end =
   enclosing_row db file start end"
proof -
  have "encloses file start end =
      (\<lambda>s. sy_file_path s = file \<and> sy_span_start s \<le> start \<and> end \<le> sy_span_end s)"
    by (simp add: encloses_def fun_eq_iff)
  then show ?thesis
    by (simp add: innermost_def min_by_key_def enclosing_row_def filter_sort sort_key_lex conj_ac)
qed

lemma enclosing_selector_for_agrees:
  assumes "memo_good (load_spans db) files"
  shows "agrees (memo_good (load_spans db)) (enclosing_selector_for db files file start end)
    (Inr (pure_selector_for db file start end))"
proof -
  have "Inr (pure_selector_for db file start end) = res_bind (load_spans db file) (\<lambda>symbols.
      Inr (map_option (\<lambda>s. symbol_selector file (sy_qualified s) (sy_kind s))
             (innermost symbols start end)))"
    by (simp add: load_spans_def pure_selector_for_def innermost_enclosing_row)
  then show ?thesis
    unfolding enclosing_selector_for_def using memo_get_agrees [OF assms] by (auto intro: agrees_map)
qed

lemma ref_row_step_agrees:
  assumes "rows_good wt db context"
  shows "agrees (rows_good wt db) (ref_row_step wt db floor context row) (pure_ref_row wt db floor row)"
proof -
  let ?f = "rf_from_file row" and ?s = "rf_from_span_start row" and ?e = "rf_from_span_end row"
  have g: "lines_good wt (rc_lines context)" "memo_good (load_spans db) (rc_enclosing context)"
    using assms by (auto simp: rows_good_def)
  obtain enclosing where enc: "memo_good (load_spans db) enclosing"
    "enclosing_selector_for db (rc_enclosing context) ?f ?s ?e = Inr (pure_selector_for db ?f ?s ?e, enclosing)"
    using agrees_Inr_D [OF enclosing_selector_for_agrees [OF g(2), of ?f ?s ?e]] by blast
  show ?thesis
    unfolding ref_row_step_def pure_ref_row_def enc(2) res_bind.simps prod.case
    using assms enc(1)
    by (auto intro!: agrees_lift agrees_bind [OF cache_line_for_agrees [OF g(1)]]
        agrees_bind [OF cache_snippet_for_agrees] simp: rows_good_def)
qed

lemma relation_row_step_agrees:
  assumes "rows_good wt db context"
  shows "agrees (rows_good wt db) (relation_row_step wt floor context row) (pure_relation_row wt floor row)"
proof -
  have g: "lines_good wt (rc_lines context)" using assms by (auto simp: rows_good_def)
  show ?thesis
    unfolding relation_row_step_def pure_relation_row_def
    using assms by (auto intro!: agrees_lift agrees_bind [OF cache_line_for_agrees [OF g]]
        simp: rows_good_def)
qed

interpretation ref_rows_loop: cached_step "ref_row_step wt db floor" "rows_good wt db"
  "pure_ref_row wt db floor" for wt db floor
  by unfold_locales (rule ref_row_step_agrees)

interpretation relation_rows_loop: cached_step "relation_row_step wt floor" "rows_good wt db"
  "pure_relation_row wt floor" for wt db floor
  by unfold_locales (rule relation_row_step_agrees)

definition refs_spec_query ::
  "worktree \<Rightarrow> graph_db \<Rightarrow> int option \<Rightarrow> string \<Rightarrow> string \<Rightarrow> ref_opts \<Rightarrow> (ref_entry list \<times> nat) graph_result" where
  "refs_spec_query wt db symbol_id qualified target_name opts =
     res_bind (res_mapM (pure_ref_row wt db (ro_confidence opts))
         (ref_rows db symbol_id qualified target_name opts))
       (\<lambda>entries. Inr (kept entries, skipped entries))"

definition relations_spec_query ::
  "worktree \<Rightarrow> graph_db \<Rightarrow> string \<Rightarrow> ref_opts \<Rightarrow> (relation_entry list \<times> nat) graph_result" where
  "relations_spec_query wt db qualified opts =
     res_bind (res_mapM (pure_relation_row wt (ro_confidence opts)) (relation_row_list db qualified opts))
       (\<lambda>entries. Inr (kept entries, skipped entries))"

definition refs_spec ::
  "worktree \<Rightarrow> graph_db \<Rightarrow> symbol_row \<Rightarrow> ref_opts \<Rightarrow> ref_result graph_result" where
  "refs_spec wt db s opts =
     (let query = refs_spec_query wt db (Some (sy_id s)) (sy_qualified s) (sy_name s) in
      res_bind (if should_query_refs (ro_kind opts) then query opts else Inr ([], 0))
        (\<lambda>(refs, skipped_refs).
      res_bind (if should_query_relations (ro_kind opts)
                then relations_spec_query wt db (sy_qualified s) opts else Inr ([], 0))
        (\<lambda>(relations, skipped_relations).
      res_bind (res_bind (if refs = [] \<and> ro_confidence opts \<noteq> FuzzyName \<and> should_query_refs (ro_kind opts)
                then query \<lparr>ro_confidence = FuzzyName, ro_kind = ro_kind opts\<rparr> else Inr ([], 0))
          (\<lambda>(fuzzy, _). Inr (if fuzzy = [] then None
             else Some \<lparr>rb_confidence = FuzzyName, rb_refs = fuzzy,
                        rb_note = refs_note (ro_confidence opts) (length fuzzy)\<rparr>)))
        (\<lambda>fallback.
          Inr \<lparr>rr_target = \<lparr>rt_name = sy_name s, rt_qualified = Some (sy_qualified s)\<rparr>,
                rr_refs = refs, rr_relations = relations,
                rr_skipped_low_confidence = skipped_refs + skipped_relations,
                rr_fallback_used = (fallback \<noteq> None), rr_fallback = fallback\<rparr>))))"

lemma query_refs_agrees:
  "rows_good wt db context \<Longrightarrow>
   agrees (rows_good wt db) (query_refs wt db i q n opts context) (refs_spec_query wt db i q n opts)"
  unfolding query_refs_def refs_spec_query_def
  by (rule agrees_map) (rule ref_rows_loop.scan_agrees)

lemma query_relations_agrees:
  "rows_good wt db context \<Longrightarrow>
   agrees (rows_good wt db) (query_relations wt db q opts context) (relations_spec_query wt db q opts)"
  unfolding query_relations_def relations_spec_query_def
  by (rule agrees_map) (rule relation_rows_loop.scan_agrees)

lemma fallback_agrees:
  assumes "rows_good wt db context"
  shows "agrees (rows_good wt db) (maybe_fuzzy_fallback wt db i q n opts refs context)
    (res_bind (if refs = [] \<and> ro_confidence opts \<noteq> FuzzyName \<and> should_query_refs (ro_kind opts)
        then refs_spec_query wt db i q n \<lparr>ro_confidence = FuzzyName, ro_kind = ro_kind opts\<rparr>
        else Inr ([], 0))
      (\<lambda>(fuzzy, _). Inr (if fuzzy = [] then None
         else Some \<lparr>rb_confidence = FuzzyName, rb_refs = fuzzy,
                    rb_note = refs_note (ro_confidence opts) (length fuzzy)\<rparr>)))"
  unfolding maybe_fuzzy_fallback_def
  using assms agrees_bind [OF query_refs_agrees [OF assms]]
  by (cases "refs = [] \<and> ro_confidence opts \<noteq> FuzzyName \<and> should_query_refs (ro_kind opts)")
     (auto intro!: agrees_bind [OF query_refs_agrees [OF assms]])

lemma refs_run_cache_free_aux:
  assumes "refs_target_row db path symbol kind = Some s"
  shows "refs_run wt (Some db) (Symbol path symbol kind) opts = refs_spec wt db s opts"
proof -
  note Some = assms
  let ?c = "\<lparr>rc_lines = Map.empty, rc_enclosing = Map.empty\<rparr> :: row_context"
  have g: "rows_good wt db ?c" by (simp add: rows_good_def memo_good_empty)
  have t: "resolve_target db (Symbol path symbol kind) =
      \<lparr>qt_output = \<lparr>rt_name = sy_name s, rt_qualified = Some (sy_qualified s)\<rparr>,
       qt_symbol_id = Some (sy_id s)\<rparr>"
    by (simp add: resolve_target_def Some)
  have "agrees (\<lambda>_. True)
      (res_map (\<lambda>r. (r, ())) (refs_run wt (Some db) (Symbol path symbol kind) opts)) (refs_spec wt db s opts)"
    unfolding refs_spec_def Let_def refs_run_def with_read_connection_def
    apply (simp only: option.case)
    apply (unfold t query_target.simps ref_target.simps option.case res_map_bind)
    apply (rule agrees_bind [of "rows_good wt db"])
    subgoal using g query_refs_agrees [OF g] by simp
    apply (clarsimp simp: res_map_bind split del: if_split)
    apply (rule agrees_bind [of "rows_good wt db"])
    subgoal using query_relations_agrees by simp
    apply (clarsimp simp: res_map_bind split del: if_split)
    apply (rule agrees_bind [of "rows_good wt db"])
     apply (rule fallback_agrees, assumption)
    apply simp
    done
  then have "res_map fst (res_map (\<lambda>r. (r, ())) (refs_run wt (Some db) (Symbol path symbol kind) opts)) =
      refs_spec wt db s opts" by (rule agrees_fst)
  then show ?thesis by (simp add: res_map_comp comp_def)
qed

text \<open>
  C19. The caches of a reference query are invisible: on every database and worktree the query
  returns the result, or the error, of the same query that reads every file and symbol table
  afresh for each row; an unknown symbol gives the empty result.
\<close>

theorem refs_run_cache_free:
  "refs_run wt (Some db) (Symbol path symbol kind) opts =
     (case refs_target_row db path symbol kind of
        None \<Rightarrow> Inr (refs_empty_result \<lparr>rt_name = symbol, rt_qualified = None\<rparr>)
      | Some s \<Rightarrow> refs_spec wt db s opts)"
proof (cases "refs_target_row db path symbol kind")
  case None
  then show ?thesis
    by (simp add: refs_run_def with_read_connection_def resolve_target_def unresolved_target_def)
next
  case (Some s)
  then show ?thesis by (simp add: refs_run_cache_free_aux)
qed

section \<open>What a reference query returns\<close>

definition stored_visible :: "ref_confidence \<Rightarrow> string \<Rightarrow> bool" where
  "stored_visible floor stored =
     (case confidence_from_db stored of Inl _ \<Rightarrow> False | Inr c \<Rightarrow> visible_at_floor c floor)"

text \<open>An entry reports a stored row: its file, kind, confidence, line and enclosing symbol.\<close>

definition reports :: "worktree \<Rightarrow> graph_db \<Rightarrow> ref_row \<Rightarrow> ref_entry \<Rightarrow> bool" where
  "reports wt db r e \<longleftrightarrow>
     re_file e = rf_from_file r \<and> ref_kind_as_str (re_kind e) = rf_kind r \<and>
     confidence_label (re_confidence e) = rf_confidence r \<and>
     pure_line_for wt (rf_from_file r) (rf_from_span_start r) = Inr (re_line e) \<and>
     re_from_selector e =
       map_option (\<lambda>s. symbol_selector (rf_from_file r) (sy_qualified s) (sy_kind s))
         (enclosing_row db (rf_from_file r) (rf_from_span_start r) (rf_from_span_end r))"

definition relation_reports :: "worktree \<Rightarrow> relation_row \<Rightarrow> relation_entry \<Rightarrow> bool" where
  "relation_reports wt r e \<longleftrightarrow>
     le_from e = rl_from_qualified r \<and> le_file e = rl_def_file r \<and>
     ref_kind_as_str (le_kind e) = rl_kind r \<and> confidence_label (le_confidence e) = rl_confidence r \<and>
     pure_line_for wt (rl_def_file r) (rl_def_span_start r) = Inr (le_line e)"

lemma pure_ref_row_cases:
  assumes "pure_ref_row wt db floor r = Inr oe"
  shows "case oe of None \<Rightarrow> \<not> stored_visible floor (rf_confidence r)
    | Some e \<Rightarrow> stored_visible floor (rf_confidence r) \<and> reports wt db r e"
  using assms
  by (auto simp: pure_ref_row_def res_simps reports_def stored_visible_def pure_selector_for_def
      ref_kind_from_db_Inr_iff split: if_splits option.splits)
     (auto simp: confidence_from_db_Inr_iff)

lemma pure_relation_row_cases:
  assumes "pure_relation_row wt floor r = Inr oe"
  shows "case oe of None \<Rightarrow> \<not> stored_visible floor (rl_confidence r)
    | Some e \<Rightarrow> stored_visible floor (rl_confidence r) \<and> relation_reports wt r e"
  using assms
  by (auto simp: pure_relation_row_def res_simps relation_reports_def stored_visible_def
      ref_kind_from_db_Inr_iff split: if_splits option.splits)
     (auto simp: confidence_from_db_Inr_iff)

text \<open>Both loops keep the visible rows, in order, and count the others.\<close>

lemma mapM_kept:
  assumes "res_mapM f rows = Inr es"
    and "\<And>r oe. f r = Inr oe \<Longrightarrow> (case oe of None \<Rightarrow> \<not> vis r | Some e \<Rightarrow> vis r \<and> rel r e)"
  shows "list_all2 rel (filter vis rows) (kept es) \<and> skipped es = length (filter (\<lambda>r. \<not> vis r) rows)"
  using assms(1)
proof (induction rows arbitrary: es)
  case (Cons r rows)
  then obtain oe es' where es: "es = oe # es'" "f r = Inr oe" "res_mapM f rows = Inr es'"
    by (auto simp: res_simps)
  with Cons.IH assms(2) [OF es(2)] show ?case
    by (cases oe) (auto simp: skipped_def)
qed (simp add: skipped_def)

lemma refs_spec_query_rows:
  assumes "refs_spec_query wt db i q n opts = Inr (refs, k)"
  shows "list_all2 (reports wt db)
      (filter (\<lambda>r. stored_visible (ro_confidence opts) (rf_confidence r)) (ref_rows db i q n opts)) refs \<and>
    k = length (filter (\<lambda>r. \<not> stored_visible (ro_confidence opts) (rf_confidence r)) (ref_rows db i q n opts))"
  using assms mapM_kept [of "pure_ref_row wt db (ro_confidence opts)" "ref_rows db i q n opts" _
      "\<lambda>r. stored_visible (ro_confidence opts) (rf_confidence r)" "reports wt db"] pure_ref_row_cases
  by (auto simp: refs_spec_query_def res_simps)

lemma relations_spec_query_rows:
  assumes "relations_spec_query wt db q opts = Inr (rels, k)"
  shows "list_all2 (relation_reports wt)
      (filter (\<lambda>r. stored_visible (ro_confidence opts) (rl_confidence r)) (relation_row_list db q opts)) rels \<and>
    k = length (filter (\<lambda>r. \<not> stored_visible (ro_confidence opts) (rl_confidence r)) (relation_row_list db q opts))"
  using assms mapM_kept [of "pure_relation_row wt (ro_confidence opts)" "relation_row_list db q opts" _
      "\<lambda>r. stored_visible (ro_confidence opts) (rl_confidence r)" "relation_reports wt"]
    pure_relation_row_cases
  by (auto simp: relations_spec_query_def res_simps)


text \<open>A small repository: \<open>main\<close> calls \<open>helper\<close>, both in one file.\<close>

definition demo_source :: string where
  "demo_source = ''fn helper() {}'' @ [CHR 0x0A] @ ''fn main() { helper() }'' @ [CHR 0x0A]"

definition demo_symbol :: "int \<Rightarrow> string \<Rightarrow> int \<Rightarrow> int \<Rightarrow> symbol_row" where
  "demo_symbol i name start end =
     \<lparr>sy_id = i, sy_file_path = ''src/a.rs'', sy_name = name, sy_qualified = ''a::'' @ name,
      sy_kind = ''function'', sy_span_start = start, sy_span_end = end, sy_signature = None,
      sy_parent_symbol = None\<rparr>"

definition demo_ref :: ref_row where
  "demo_ref = \<lparr>rf_id = 1, rf_from_file = ''src/a.rs'', rf_from_span_start = 27,
     rf_from_span_end = 33, rf_target_name = ''helper'', rf_target_qualified = Some ''a::helper'',
     rf_target_symbol_hint = Some 1, rf_kind = ''call'', rf_confidence = ''exact'',
     rf_extracted_qualified = None, rf_unresolved_receiver = None, rf_spelled_path = False\<rparr>"

definition demo_db :: graph_db where
  "demo_db =
     \<lparr>db_files = [\<lparr>fl_path = ''src/a.rs'', fl_content_hash = ''h'', fl_mtime_ns = 7, fl_lang = ''rust'',
        fl_byte_len = 38, fl_extracted_at = 9\<rparr>],
      db_symbols = [demo_symbol 1 ''helper'' 0 14, demo_symbol 2 ''main'' 15 37],
      db_refs = [demo_ref],
      db_relations = [], db_imports = [],
      db_commands = [\<lparr>cm_name = ''go'', cm_file_path = ''src/a.rs'', cm_span_start = 15,
         cm_handler_symbol = Some 2\<rparr>],
      db_strings = [], db_configs = [], db_symbols_fts = [], db_strings_fts = [], db_configs_fts = [], db_meta = []\<rparr>"

definition demo_repo :: worktree where
  "demo_repo = \<lparr>wt_root = ''/w'', wt_canonicalize = (\<lambda>p. Some p),
     wt_open = (\<lambda>p. if p = ''/w/src/a.rs'' then Some (Regular 38 demo_source) else None)\<rparr>"

lemma refs_spec_found:
  assumes "refs_spec_query wt db (Some (sy_id s)) (sy_qualified s) (sy_name s) opts = Inr (r # rs, k)"
    and "relations_spec_query wt db (sy_qualified s) opts = Inr (rels, l)" "ro_kind opts = None"
  shows "\<exists>res. refs_spec wt db s opts = Inr res \<and> rr_refs res = r # rs"
  using assms by (simp add: refs_spec_def should_query_refs_def should_query_relations_def)

lemma demo_load: "load_line_index demo_repo ''src/a.rs'' = Inr (line_index_new demo_source)"
  by code_simp

lemma demo_line: "pure_line_for demo_repo ''src/a.rs'' 27 = Inr 2"
  by (simp add: pure_line_for_def checked_offset_def i64_to_usize_def demo_load) code_simp


end
