(* ===== verification/Filters.thy ===== *)
theory Filters
  imports Rust_Prelude
begin

text \<open>
  Presentation filters of the change analysis (\<open>crates/orbit-graph-changes/src/filters.rs\<close>):
  the log of what a filtered response leaves out, and the language, scope and change-kind
  filters themselves.

  The lemmas refine the log to a specification over the whole sequence of recorded removals,
  and characterise the scope filter by whole path components.
\<close>

section \<open>The log of removals\<close>

definition FILTERED_EXAMPLE_CAP :: nat where
  "FILTERED_EXAMPLE_CAP = 5"

datatype filter_reason = Confidence | Language | ChangeKind | Scope | Unindexed

text \<open>The derived order of the enum: its declaration order.\<close>

fun filter_reason_rank :: "filter_reason \<Rightarrow> nat" where
  "filter_reason_rank Confidence = 0"
| "filter_reason_rank Language = 1"
| "filter_reason_rank ChangeKind = 2"
| "filter_reason_rank Scope = 3"
| "filter_reason_rank Unindexed = 4"

lemma filter_reason_rank_inj: "filter_reason_rank a = filter_reason_rank b \<longleftrightarrow> a = b"
  by (cases a; cases b) auto

instantiation filter_reason :: linorder
begin

definition less_eq_filter_reason :: "filter_reason \<Rightarrow> filter_reason \<Rightarrow> bool" where
  "less_eq_filter_reason a b \<longleftrightarrow> filter_reason_rank a \<le> filter_reason_rank b"

definition less_filter_reason :: "filter_reason \<Rightarrow> filter_reason \<Rightarrow> bool" where
  "less_filter_reason a b \<longleftrightarrow> filter_reason_rank a < filter_reason_rank b"

instance
  by standard
     (auto simp: less_eq_filter_reason_def less_filter_reason_def filter_reason_rank_inj)

end

fun filter_reason_label :: "filter_reason \<Rightarrow> string" where
  "filter_reason_label Confidence = ''confidence''"
| "filter_reason_label Language = ''language''"
| "filter_reason_label ChangeKind = ''change_kind''"
| "filter_reason_label Scope = ''scope''"
| "filter_reason_label Unindexed = ''unindexed''"

fun filter_reason_explanation :: "filter_reason \<Rightarrow> string" where
  "filter_reason_explanation Confidence =
     ''Excluded by the `confidence` floor. Lower the floor to see these candidates; '' @
     ''they are weaker evidence, not absent evidence.''"
| "filter_reason_explanation Language =
     ''Excluded by the `language` filter. The underlying evidence is unchanged; only '' @
     ''this response hides it.''"
| "filter_reason_explanation ChangeKind =
     ''Excluded by the `change_kind` filter, which keeps only items whose symbol '' @
     ''changed in one of the requested ways.''"
| "filter_reason_explanation Scope =
     ''Excluded by the `scope` path prefix. Widen or drop `scope` to see these items.''"
| "filter_reason_explanation Unindexed =
     ''The item's file is not indexed in this snapshot, so it carries no symbol '' @
     ''evidence; it is reported as out of scope rather than as absent.''"

record filtered_out =
  fo_reason :: string
  fo_explanation :: string
  fo_count :: nat
  fo_examples :: "string list"

type_synonym filter_entry = "filter_reason \<times> nat \<times> string list"

text \<open>\<open>FilterLog\<close>: its entries. The counters are \<open>usize\<close>; a log never holds 2^64 removals.\<close>

type_synonym filter_log = "filter_entry list"

text \<open>
  \<open>entries.iter_mut().find(..)\<close>: update the first entry with the reason, or append a new one.
\<close>

fun update_entry :: "filter_reason \<Rightarrow> (nat \<times> string list \<Rightarrow> nat \<times> string list) \<Rightarrow>
    filter_entry \<Rightarrow> filter_log \<Rightarrow> filter_log" where
  "update_entry reason f fresh [] = [fresh]"
| "update_entry reason f fresh ((r, e) # es) =
     (if r = reason then (r, f e) # es else (r, e) # update_entry reason f fresh es)"

definition log_record :: "filter_reason \<Rightarrow> string \<Rightarrow> filter_log \<Rightarrow> filter_log" where
  "log_record reason example =
     update_entry reason
       (\<lambda>(cnt, examples).
          (cnt + 1,
           if length examples < FILTERED_EXAMPLE_CAP then examples @ [example] else examples))
       (reason, 1, [example])"

definition log_record_count :: "filter_reason \<Rightarrow> nat \<Rightarrow> filter_log \<Rightarrow> filter_log" where
  "log_record_count reason cnt log =
     (if cnt = 0 then log
      else update_entry reason (\<lambda>(n, examples). (n + cnt, examples)) (reason, cnt, []) log)"

definition into_filtered_out :: "filter_log \<Rightarrow> filtered_out list" where
  "into_filtered_out log =
     map (\<lambda>(reason, cnt, examples).
            \<lparr>fo_reason = filter_reason_label reason,
             fo_explanation = filter_reason_explanation reason,
             fo_count = cnt, fo_examples = examples\<rparr>)
       (sort_key fst log)"

section \<open>The filters\<close>

record filter_set =
  fs_language :: "string option"
  fs_change_kind :: "string list"
  fs_scope :: "string option"

definition filter_set_is_empty :: "filter_set \<Rightarrow> bool" where
  "filter_set_is_empty fs \<longleftrightarrow>
     fs_language fs = None \<and> fs_change_kind fs = [] \<and> fs_scope fs = None"

definition language_of :: "string \<Rightarrow> string option" where
  "language_of path =
     (let file = rsplit_last ''/'' path in
      case rsplit_once ''.'' file of
        None \<Rightarrow> None
      | Some (_, extension) \<Rightarrow>
          (let e = map to_ascii_lower extension in
           if e = ''rs'' then Some ''rust''
           else if e \<in> {''c'', ''h''} then Some ''c''
           else if e = ''cs'' then Some ''csharp''
           else if e = ''go'' then Some ''go''
           else if e = ''java'' then Some ''java''
           else if e \<in> {''js'', ''jsx'', ''mjs'', ''cjs''} then Some ''javascript''
           else if e \<in> {''ts'', ''tsx''} then Some ''typescript''
           else if e \<in> {''kt'', ''kts''} then Some ''kotlin''
           else if e = ''py'' then Some ''python''
           else if e = ''rb'' then Some ''ruby''
           else if e \<in> {''md'', ''markdown''} then Some ''markdown''
           else if e \<in> {''json'', ''yaml'', ''yml'', ''toml'', ''env''} then Some ''config''
           else None))"

definition language_admits :: "filter_set \<Rightarrow> string \<Rightarrow> bool" where
  "language_admits fs path \<longleftrightarrow>
     (case fs_language fs of
        None \<Rightarrow> True
      | Some requested \<Rightarrow>
          (case language_of path of
             None \<Rightarrow> False
           | Some language \<Rightarrow> eq_ignore_ascii_case language requested))"

text \<open>\<open>trim_start_matches("./")\<close> and \<open>trim_end_matches('/')\<close>.\<close>

definition trim_dot_slash :: "string \<Rightarrow> string" where
  "trim_dot_slash s = trim_codes [''./''] s"

definition trim_end_slashes :: "string \<Rightarrow> string" where
  "trim_end_slashes s = rev (dropWhile (\<lambda>c. c = CHR ''/'') (rev s))"

definition scope_admits :: "filter_set \<Rightarrow> string \<Rightarrow> bool" where
  "scope_admits fs path \<longleftrightarrow>
     (case fs_scope fs of
        None \<Rightarrow> True
      | Some scope \<Rightarrow>
          (let pre = trim_end_slashes (trim_dot_slash scope) in
           if pre = [] then True
           else path = pre \<or> starts_with (pre @ ''/'') path))"

definition change_kind_admits :: "filter_set \<Rightarrow> string option \<Rightarrow> bool" where
  "change_kind_admits fs status \<longleftrightarrow>
     (if fs_change_kind fs = [] then True
      else case status of
             None \<Rightarrow> False
           | Some st \<Rightarrow> list_ex (\<lambda>kind. eq_ignore_ascii_case kind st) (fs_change_kind fs))"

definition split_terms :: "string \<Rightarrow> string list" where
  "split_terms raw = filter (\<lambda>term. term \<noteq> []) (map trim_str (split_str '','' raw))"

section \<open>What a log holds\<close>

datatype filter_event = Removed filter_reason string | RemovedCount filter_reason nat

fun log_step :: "filter_log \<Rightarrow> filter_event \<Rightarrow> filter_log" where
  "log_step log (Removed reason example) = log_record reason example log"
| "log_step log (RemovedCount reason cnt) = log_record_count reason cnt log"

definition log_run :: "filter_event list \<Rightarrow> filter_log" where
  "log_run evs = foldl log_step [] evs"

fun event_count :: "filter_reason \<Rightarrow> filter_event \<Rightarrow> nat" where
  "event_count r (Removed reason example) = (if reason = r then 1 else 0)"
| "event_count r (RemovedCount reason cnt) = (if reason = r then cnt else 0)"

fun event_examples :: "filter_reason \<Rightarrow> filter_event \<Rightarrow> string list" where
  "event_examples r (Removed reason example) = (if reason = r then [example] else [])"
| "event_examples r (RemovedCount reason cnt) = []"

definition removals :: "filter_reason \<Rightarrow> filter_event list \<Rightarrow> nat" where
  "removals r evs = sum_list (map (event_count r) evs)"

definition examples_of :: "filter_reason \<Rightarrow> filter_event list \<Rightarrow> string list" where
  "examples_of r evs = concat (map (event_examples r) evs)"

text \<open>The abstract content of a log: for each reason its count and its first examples.\<close>

definition log_abs :: "filter_log \<Rightarrow> filter_reason \<rightharpoonup> nat \<times> string list" where
  "log_abs log = map_of log"

lemma map_of_update_entry:
  "map_of (update_entry r f (r, x) log) =
     (map_of log)(r \<mapsto> (case map_of log r of None \<Rightarrow> x | Some e \<Rightarrow> f e))"
  by (induction log) (auto simp: fun_eq_iff)

lemma update_entry_keys: "fst ` set (update_entry r f (r, x) log) = insert r (fst ` set log)"
  by (induction r f "(r, x)" log rule: update_entry.induct) (simp_all add: insert_commute)

lemma update_entry_distinct:
  "distinct (map fst log) \<Longrightarrow> distinct (map fst (update_entry r f (r, x) log))"
  by (induction log) (auto simp: update_entry_keys)

text \<open>The specification: a reason is present when something was removed for it.\<close>

definition log_spec :: "filter_event list \<Rightarrow> filter_reason \<Rightarrow> (nat \<times> string list) option" where
  "log_spec evs r =
     (if removals r evs = 0 then None
      else Some (removals r evs, take FILTERED_EXAMPLE_CAP (examples_of r evs)))"

lemma examples_le_removals: "length (examples_of r evs) \<le> removals r evs"
proof (induction evs)
  case (Cons e evs)
  then show ?case by (cases e) (auto simp: examples_of_def removals_def)
qed (simp add: examples_of_def removals_def)

lemma removals_snoc [simp]: "removals r (evs @ [e]) = removals r evs + event_count r e"
  by (simp add: removals_def)

lemma examples_snoc [simp]: "examples_of r (evs @ [e]) = examples_of r evs @ event_examples r e"
  by (simp add: examples_of_def)

lemma no_removals_no_examples: "removals r evs = 0 \<Longrightarrow> examples_of r evs = []"
  using examples_le_removals [of r evs] by simp

lemma log_run_refines: "log_abs (log_run evs) = log_spec evs \<and> distinct (map fst (log_run evs))"
proof (induction evs rule: rev_induct)
  case Nil
  show ?case by (simp add: log_run_def log_abs_def log_spec_def removals_def fun_eq_iff)
next
  case (snoc e evs)
  have run: "log_run (evs @ [e]) = log_step (log_run evs) e" by (simp add: log_run_def)
  from snoc have d: "distinct (map fst (log_run evs))"
    and a: "\<And>r. map_of (log_run evs) r = log_spec evs r" by (auto simp: log_abs_def)
  show ?case
  proof (cases e)
    case (Removed r x)
    note run = run [unfolded Removed]
    have "map_of (log_run (evs @ [e])) = (map_of (log_run evs))(r \<mapsto>
        (removals r evs + 1, take FILTERED_EXAMPLE_CAP (examples_of r evs @ [x])))"
      using no_removals_no_examples [of r evs]
      by (simp add: run Removed log_record_def map_of_update_entry a log_spec_def
          FILTERED_EXAMPLE_CAP_def)
    moreover have "distinct (map fst (log_run (evs @ [e])))"
      using d by (simp add: run Removed log_record_def update_entry_distinct)
    ultimately show ?thesis
      using a by (auto simp: log_abs_def fun_eq_iff log_spec_def Removed)
  next
    case (RemovedCount r n)
    note run = run [unfolded RemovedCount]
    have "map_of (log_run (evs @ [e])) = (if n = 0 then map_of (log_run evs) else
        (map_of (log_run evs))(r \<mapsto>
          (removals r evs + n, take FILTERED_EXAMPLE_CAP (examples_of r evs))))"
      using no_removals_no_examples [of r evs]
      by (simp add: run RemovedCount log_record_count_def map_of_update_entry a log_spec_def)
    moreover have "distinct (map fst (log_run (evs @ [e])))"
      using d by (simp add: run RemovedCount log_record_count_def update_entry_distinct)
    ultimately show ?thesis
      using a by (auto simp: log_abs_def fun_eq_iff log_spec_def RemovedCount)
  qed
qed

definition all_reasons :: "filter_reason list" where
  "all_reasons = [Confidence, Language, ChangeKind, Scope, Unindexed]"

lemma all_reasons_sorted: "sorted all_reasons" "distinct all_reasons" "set all_reasons = UNIV"
  by (auto simp: all_reasons_def less_eq_filter_reason_def intro: filter_reason.exhaust)

lemma sort_key_fst_map_of:
  assumes "distinct (map fst log)" "\<And>r. map_of log r = m r"
  shows "sort_key fst log =
    map (\<lambda>r. (r, the (m r))) (filter (\<lambda>r. m r \<noteq> None) all_reasons)"
proof -
  let ?R = "filter (\<lambda>r. m r \<noteq> None) all_reasons"
  have "set (map fst log) = set ?R"
    using map_of_eq_None_iff [of log] by (auto simp: all_reasons_sorted(3) assms(2))
  moreover have "sorted ?R" "distinct ?R" using all_reasons_sorted by (simp_all add: sorted_wrt_filter)
  moreover have "sorted (map fst (sort_key fst log))" "distinct (map fst (sort_key fst log))"
    using assms(1) by (simp_all add: distinct_map)
  ultimately have fst: "map fst (sort_key fst log) = ?R"
    by (intro sorted_distinct_set_unique) simp_all
  have "map (\<lambda>p. (fst p, the (m (fst p)))) (sort_key fst log) = sort_key fst log"
  proof (rule map_idI)
    fix p assume "p \<in> set (sort_key fst log)"
    then have "map_of log (fst p) = Some (snd p)" using assms(1) by simp
    then show "(fst p, the (m (fst p))) = p" by (simp add: assms(2))
  qed
  then have "sort_key fst log = map (\<lambda>r. (r, the (m r))) (map fst (sort_key fst log))"
    by (simp add: o_def)
  with fst show ?thesis by simp
qed

text \<open>
  C16. The \<open>filtered_out\<close> block of a response: whatever sequence of removals was recorded, the
  block lists exactly the reasons for which something was removed, in the order of the enum,
  each once, with the number of removals and the first five recorded examples.
\<close>

theorem filtered_out_complete:
  "into_filtered_out (log_run evs) =
     map (\<lambda>r. \<lparr>fo_reason = filter_reason_label r, fo_explanation = filter_reason_explanation r,
                fo_count = removals r evs,
                fo_examples = take 5 (examples_of r evs)\<rparr>)
       (filter (\<lambda>r. removals r evs > 0) [Confidence, Language, ChangeKind, Scope, Unindexed])"
proof -
  have "sort_key fst (log_run evs) =
      map (\<lambda>r. (r, the (log_spec evs r))) (filter (\<lambda>r. log_spec evs r \<noteq> None) all_reasons)"
    using log_run_refines [of evs] by (intro sort_key_fst_map_of) (auto simp: log_abs_def)
  also have "\<dots> = map (\<lambda>r. (r, removals r evs, take 5 (examples_of r evs)))
      (filter (\<lambda>r. removals r evs > 0) all_reasons)"
    by (auto simp: log_spec_def FILTERED_EXAMPLE_CAP_def intro!: map_cong filter_cong)
  finally show ?thesis by (simp add: into_filtered_out_def all_reasons_def o_def)
qed

section \<open>The scope filter\<close>

lemma split_str_slash_Cons:
  "c \<noteq> CHR ''/'' \<Longrightarrow> split_str ''/'' (c # s) =
     (case split_str ''/'' s of [] \<Rightarrow> [] | x # xs \<Rightarrow> (c # x) # xs)"
proof (cases "split_once ''/'' s")
  case None
  assume "c \<noteq> CHR ''/''"
  with None show ?thesis
    by (simp add: split_str_char_simple split_once_char_None [THEN iffD1])
next
  case (Some ab)
  assume c: "c \<noteq> CHR ''/''"
  obtain a b where ab: "ab = (a, b)" by (cases ab)
  then have s: "s = a @ CHR ''/'' # b" and a: "CHR ''/'' \<notin> set a"
    using Some split_once_SomeD [of "''/''" s a b] split_once_char_notin by auto
  then show ?thesis
    using c split_str_char_append [of "CHR ''/''" "c # a" b]
      split_str_char_append [of "CHR ''/''" a b] by simp
qed

lemma split_str_slash_prefix:
  "prefix (split_str ''/'' pre) (split_str ''/'' path) \<longleftrightarrow>
     path = pre \<or> (\<exists>r. path = pre @ ''/'' @ r)"
proof
  assume "prefix (split_str ''/'' pre) (split_str ''/'' path)"
  then obtain zs where z: "split_str ''/'' path = split_str ''/'' pre @ zs" by (auto simp: prefix_def)
  have j: "join_str ''/'' (xs @ ys) = join_str ''/'' xs @ ''/'' @ join_str ''/'' ys"
    if "xs \<noteq> []" "ys \<noteq> []" for xs ys
    using that
  proof (induction xs)
    case (Cons x xs)
    then show ?case by (cases "xs = []") (auto simp: join_str_Cons)
  qed simp
  show "path = pre \<or> (\<exists>r. path = pre @ ''/'' @ r)"
  proof (cases "zs = []")
    case True
    with z have "join_str ''/'' (split_str ''/'' path) = join_str ''/'' (split_str ''/'' pre)" by simp
    then show ?thesis by (simp add: join_split_char)
  next
    case False
    from z have "join_str ''/'' (split_str ''/'' path) = join_str ''/'' (split_str ''/'' pre @ zs)"
      by simp
    with j [of "split_str ''/'' pre" zs] False show ?thesis by (auto simp: join_split_char)
  qed
next
  have "prefix (split_str ''/'' pre) (split_str ''/'' (pre @ CHR ''/'' # r))" for r
  proof (induction pre)
    case Nil
    show ?case using split_str_char_append [of "CHR ''/''" "[]" r] by (simp add: split_str_char_simple)
  next
    case (Cons c pre)
    show ?case
    proof (cases "c = CHR ''/''")
      case True
      with Cons show ?thesis
        using split_str_char_append [of "CHR ''/''" "[]" pre]
          split_str_char_append [of "CHR ''/''" "[]" "pre @ CHR ''/'' # r"] by simp
    next
      case False
      with Cons show ?thesis by (auto simp: split_str_slash_Cons split: list.splits)
    qed
  qed
  then show "path = pre \<or> (\<exists>r. path = pre @ ''/'' @ r) \<Longrightarrow>
      prefix (split_str ''/'' pre) (split_str ''/'' path)" by auto
qed

text \<open>
  C17. The scope filter admits a path exactly when the components of the scope (less leading
  \<open>./\<close> and trailing \<open>/\<close>) are the first components of the path: \<open>src\<close> admits
  \<open>src/lib.rs\<close> and never \<open>srcs/lib.rs\<close>.
\<close>

theorem scope_admits_components:
  "scope_admits (fs\<lparr>fs_scope := Some scope\<rparr>) path \<longleftrightarrow>
     trim_end_slashes (trim_dot_slash scope) = [] \<or>
     prefix (split_str ''/'' (trim_end_slashes (trim_dot_slash scope))) (split_str ''/'' path)"
  by (auto simp: scope_admits_def Let_def split_str_slash_prefix starts_with_iff)

end
