(* ===== verification/Btree.thy ===== *)
theory Btree
  imports Rust_Prelude
begin

text \<open>
  The ordered containers of the Rust standard library the program collects its results in. A
  \<open>BTreeMap\<close> is the list of its entries with strictly increasing keys, so iterating it is
  reading the list; a \<open>BTreeSet\<close> is the sorted list of its members. The laws are stated as the
  interface \<open>ordered_map\<close> and discharged for the model.
\<close>

section \<open>The interface\<close>

locale ordered_map =
  fixes empty :: 'm
    and insert :: "'k \<Rightarrow> 'v \<Rightarrow> 'm \<Rightarrow> 'm"
    and get :: "'m \<Rightarrow> 'k \<rightharpoonup> 'v"
    and invar :: "'m \<Rightarrow> bool"
  assumes get_empty: "get empty = Map.empty"
    and invar_empty: "invar empty"
    and get_insert: "invar m \<Longrightarrow> get (insert k v m) = (get m)(k \<mapsto> v)"
    and invar_insert: "invar m \<Longrightarrow> invar (insert k v m)"
begin

definition collect :: "('k \<times> 'v) list \<Rightarrow> 'm" where
  "collect xs = fold (\<lambda>(k, v). insert k v) xs empty"

lemma invar_fold: "invar m \<Longrightarrow> invar (fold (\<lambda>(k, v). insert k v) xs m)"
  by (induction xs arbitrary: m) (auto simp: invar_insert)

lemma get_fold: "invar m \<Longrightarrow> get (fold (\<lambda>(k, v). insert k v) xs m) = get m ++ map_of (rev xs)"
  by (induction xs arbitrary: m) (auto simp: invar_insert get_insert map_add_upd_left)

text \<open>Collecting an iterator keeps the last value of every key.\<close>

lemma get_collect: "get (collect xs) = map_of (rev xs)"
  by (simp add: collect_def get_fold invar_empty get_empty)

lemma invar_collect: "invar (collect xs)"
  by (simp add: collect_def invar_fold invar_empty)

end

section \<open>The model\<close>

type_synonym ('k, 'v) btree_map = "('k \<times> 'v) list"

fun btree_insert :: "'k::linorder \<Rightarrow> 'v \<Rightarrow> ('k, 'v) btree_map \<Rightarrow> ('k, 'v) btree_map" where
  "btree_insert k v [] = [(k, v)]"
| "btree_insert k v ((a, b) # r) =
     (if k < a then (k, v) # (a, b) # r
      else if k = a then (k, v) # r
      else (a, b) # btree_insert k v r)"

definition btree_ok :: "('k::linorder, 'v) btree_map \<Rightarrow> bool" where
  "btree_ok m \<longleftrightarrow> sorted_wrt (<) (map fst m)"

lemma fst_btree_insert: "fst ` set (btree_insert k v m) = insert k (fst ` set m)"
  by (induction k v m rule: btree_insert.induct) auto

lemma btree_ok_insert: "btree_ok m \<Longrightarrow> btree_ok (btree_insert k v m)"
proof (induction k v m rule: btree_insert.induct)
  case (2 k v a b r)
  have "x \<in> insert k (fst ` set r)" if "(x, y) \<in> set (btree_insert k v r)" for x y
    using that fst_btree_insert [of k v r] by force
  with 2 show ?case by (fastforce simp: btree_ok_def)
qed (simp add: btree_ok_def)

lemma map_of_btree_insert: "btree_ok m \<Longrightarrow> map_of (btree_insert k v m) = (map_of m)(k \<mapsto> v)"
  by (induction k v m rule: btree_insert.induct) (auto simp: btree_ok_def)

interpretation btree: ordered_map "[]" btree_insert map_of btree_ok
  by unfold_locales (simp_all add: map_of_btree_insert btree_ok_insert, simp add: btree_ok_def)

text \<open>Two maps with the same lookups are the same list of entries.\<close>

lemma btree_ok_Cons: "btree_ok ((k, v) # m) \<longleftrightarrow> (\<forall>x \<in> fst ` set m. k < x) \<and> btree_ok m"
  by (auto simp: btree_ok_def)

lemma btree_sorted_key: "btree_ok m \<Longrightarrow> distinct (map fst m) \<and> sorted (map fst m)"
  by (simp add: btree_ok_def strict_sorted_iff)

lemma btree_eqI:
  assumes "btree_ok m" "btree_ok n" "map_of m = map_of n"
  shows "m = n"
proof (rule map_sorted_distinct_set_unique [where f = fst])
  have d: "distinct (map fst m)" "distinct (map fst n)"
    using assms(1,2) btree_sorted_key by blast+
  then show s: "set m = set n"
    by (metis assms(3) map_of_inject_set)
  show "inj_on fst (set m \<union> set n)"
    using d s by (auto simp: distinct_map)
qed (use assms btree_sorted_key in blast)+

text \<open>Entries inserted in increasing key order are the map.\<close>

lemma collect_sorted:
  assumes "sorted_wrt (<) (map fst xs)"
  shows "fold (\<lambda>(k, v). btree_insert k v) xs [] = xs"
proof -
  have "btree_ok (btree.collect xs)" "btree_ok xs"
    using assms btree.invar_collect by (auto simp: btree_ok_def [of xs])
  moreover have "map_of (rev xs) = map_of xs"
    using btree_sorted_key [OF \<open>btree_ok xs\<close>] by (intro map_of_eqI) (auto simp: rev_map [symmetric])
  ultimately show ?thesis
    using btree_eqI btree.get_collect unfolding btree.collect_def by metis
qed

end
