(* ===== verification/Query_Listings.thy ===== *)
theory Query_Listings
  imports Query_Refs Filters Btree
begin

text \<open>
  The listing queries: imports of a scope (\<open>query/deps.rs\<close>), implementors of a trait
  (\<open>query/implementors.rs\<close>), the shape of the repository (\<open>query/overview.rs\<close>) and the
  runtime-invocation sites (\<open>invocations\<close> of \<open>query/runtime.rs\<close>).

  SQLite's \<open>substr(x, 1, length(p)) = p\<close> holds exactly when \<open>p\<close> is a prefix of \<open>x\<close>, and
  \<open>substr(x, -length(p)) = p\<close> exactly when it is a suffix: both count characters, and an equal
  number of equal characters is the same bytes.
\<close>

section \<open>Imports\<close>

record dep_edge =
  de_from_file :: string
  de_target_path :: string
  de_target_symbol :: "string option"

record deps_result =
  dr_scope :: string
  dr_imports :: "dep_edge list"

datatype import_scope = ImportFileEq string | ImportDirPrefix string

definition import_scope_from_selector :: "selector \<Rightarrow> import_scope graph_result" where
  "import_scope_from_selector sel =
     (case sel of
        File path \<Rightarrow> Inr (ImportFileEq path)
      | Dir path \<Rightarrow> Inr (ImportDirPrefix (trim_end_slashes path @ ''/''))
      | _ \<Rightarrow> Inl (InvalidInput ''resolve deps selector'' ''selector''
                    ''deps scope must be a `file:` or `dir:` selector''))"

fun import_scope_admits :: "import_scope \<Rightarrow> string \<Rightarrow> bool" where
  "import_scope_admits (ImportFileEq path) p \<longleftrightarrow> p = path"
| "import_scope_admits (ImportDirPrefix pre) p \<longleftrightarrow> starts_with pre p"

definition dep_edge_of :: "import_row \<Rightarrow> dep_edge" where
  "dep_edge_of r =
     \<lparr>de_from_file = im_from_file r, de_target_path = im_target_path r,
      de_target_symbol = im_target_symbol r\<rparr>"

definition query_imports :: "graph_db \<Rightarrow> import_scope \<Rightarrow> dep_edge list" where
  "query_imports db scope =
     map dep_edge_of
       (sort_key (\<lambda>r. (im_from_file r, im_target_path r, im_target_symbol r))
         (filter (\<lambda>r. import_scope_admits scope (im_from_file r)) (db_imports db)))"

definition deps_run :: "graph_db option \<Rightarrow> selector \<Rightarrow> deps_result graph_result" where
  "deps_run conn sel =
     res_bind (import_scope_from_selector sel) (\<lambda>scope.
       with_read_connection conn (\<lambda>db.
         Inr \<lparr>dr_scope = selector_to_string sel, dr_imports = query_imports db scope\<rparr>))"

section \<open>Implementors\<close>

record implementor =
  ip_type_qualified :: string
  ip_trait_matched :: string
  ip_kind :: ref_kind
  ip_file :: string

record implementors_result =
  ipr_trait_name :: string
  ipr_implementors :: "implementor list"

definition trailing_segment :: "string \<Rightarrow> string" where
  "trailing_segment name = trim_str (rsplit_last ''::'' name)"

definition trait_name_from_selector :: "selector \<Rightarrow> string option" where
  "trait_name_from_selector sel =
     (let named = (\<lambda>raw. let name = trailing_segment raw in if name = [] then None else Some name) in
      case sel of
        Symbol path symbol kind \<Rightarrow> named symbol
      | Module qualified \<Rightarrow> named qualified
      | _ \<Rightarrow> None)"

definition implements_trait :: "string \<Rightarrow> relation_row \<Rightarrow> bool" where
  "implements_trait name r \<longleftrightarrow>
     (rl_kind r = ''impl'' \<or> rl_kind r = ''implements'') \<and>
     (rl_to_qualified r = name \<or> ends_with (''::'' @ name) (rl_to_qualified r))"

definition query_implementors :: "graph_db \<Rightarrow> string \<Rightarrow> implementor list graph_result" where
  "query_implementors db name =
     res_mapM (\<lambda>r.
       res_bind (ref_kind_from_db (rl_kind r)) (\<lambda>kind.
         Inr \<lparr>ip_type_qualified = rl_from_qualified r, ip_trait_matched = rl_to_qualified r,
               ip_kind = kind, ip_file = rl_def_file r\<rparr>))
       (sort_key (\<lambda>r. (rl_def_file r, rl_from_qualified r, rl_id r))
         (filter (implements_trait name) (db_relations db)))"

definition implementors_run :: "graph_db option \<Rightarrow> selector \<Rightarrow> implementors_result graph_result" where
  "implementors_run conn sel =
     with_read_connection conn (\<lambda>db.
       case trait_name_from_selector sel of
         None \<Rightarrow> Inr \<lparr>ipr_trait_name = selector_to_string sel, ipr_implementors = []\<rparr>
       | Some name \<Rightarrow>
           res_bind (query_implementors db name) (\<lambda>implementors.
             Inr \<lparr>ipr_trait_name = name, ipr_implementors = implementors\<rparr>))"

section \<open>Repository shape\<close>

datatype overview_format = Summary | Full

record overview_symbol =
  os_name :: string
  os_kind :: string
  os_qualified :: string

record overview_file =
  of_path :: string
  of_lang :: string
  of_symbol_count :: nat
  of_symbols :: "overview_symbol list"

record overview_result =
  ov_format :: overview_format
  ov_scope :: "string option"
  ov_total_files :: nat
  ov_total_symbols :: nat
  ov_languages :: "(string, nat) btree_map"
  ov_symbol_kinds :: "(string, nat) btree_map"
  ov_files :: "overview_file list"

definition SUMMARY_TOP_FILES :: nat where
  "SUMMARY_TOP_FILES = 20"

datatype scope_kind = ScopeAll | ScopeFileEq string | ScopeDirPrefix string

record scope_filter =
  sf_kind :: scope_kind
  sf_echo :: "string option"

definition scope_filter_from_selector :: "selector option \<Rightarrow> scope_filter graph_result" where
  "scope_filter_from_selector scope =
     (case scope of
        None \<Rightarrow> Inr \<lparr>sf_kind = ScopeAll, sf_echo = None\<rparr>
      | Some (File path) \<Rightarrow> Inr \<lparr>sf_kind = ScopeFileEq path, sf_echo = Some path\<rparr>
      | Some (Dir path) \<Rightarrow>
          Inr \<lparr>sf_kind = ScopeDirPrefix (trim_end_slashes path @ ''/''), sf_echo = Some path\<rparr>
      | Some _ \<Rightarrow> Inl (InvalidInput ''resolve overview scope'' ''scope''
                        ''overview scope must be a `dir:` or `file:` selector''))"

text \<open>The \<open>WHERE\<close> fragment \<open>ScopeFilter::predicate\<close> builds, applied to a column value.\<close>

fun scope_predicate :: "scope_kind \<Rightarrow> string \<Rightarrow> bool" where
  "scope_predicate ScopeAll p \<longleftrightarrow> True"
| "scope_predicate (ScopeFileEq path) p \<longleftrightarrow> p = path"
| "scope_predicate (ScopeDirPrefix pre) p \<longleftrightarrow> starts_with pre p"

definition count_to_usize :: "int \<Rightarrow> string \<Rightarrow> nat graph_result" where
  "count_to_usize n op =
     (if n < 0 then Inl (InvalidData op ''out of range integral type conversion attempted'')
      else Inr (nat n))"

text \<open>\<open>SELECT key, count(*) .. GROUP BY key\<close> over the column values of the selected rows.\<close>

definition group_by_count :: "string list \<Rightarrow> (string \<times> int) list" where
  "group_by_count keys = map (\<lambda>k. (k, int (count_list keys k))) (remdups keys)"

fun insert_counts ::
  "string \<Rightarrow> (string \<times> int) list \<Rightarrow> (string, nat) btree_map \<Rightarrow> (string, nat) btree_map graph_result"
where
  "insert_counts op [] counts = Inr counts"
| "insert_counts op ((key, n) # rows) counts =
     res_bind (count_to_usize n op) (\<lambda>n'. insert_counts op rows (btree_insert key n' counts))"

definition grouped_counts :: "string list \<Rightarrow> string \<Rightarrow> (string, nat) btree_map graph_result" where
  "grouped_counts keys op = insert_counts op (group_by_count keys) []"

definition scoped_files :: "graph_db \<Rightarrow> scope_filter \<Rightarrow> file_row list" where
  "scoped_files db scope = filter (\<lambda>f. scope_predicate (sf_kind scope) (fl_path f)) (db_files db)"

definition language_counts :: "graph_db \<Rightarrow> scope_filter \<Rightarrow> (string, nat) btree_map graph_result" where
  "language_counts db scope = grouped_counts (map fl_lang (scoped_files db scope)) ''language counts''"

definition scoped_symbols :: "graph_db \<Rightarrow> scope_filter \<Rightarrow> symbol_row list" where
  "scoped_symbols db scope =
     filter (\<lambda>s. scope_predicate (sf_kind scope) (sy_file_path s)) (db_symbols db)"

definition symbol_kind_counts ::
  "graph_db \<Rightarrow> scope_filter \<Rightarrow> (string, nat) btree_map graph_result" where
  "symbol_kind_counts db scope =
     grouped_counts (map sy_kind (scoped_symbols db scope)) ''symbol kind counts''"

definition symbols_of :: "graph_db \<Rightarrow> file_row \<Rightarrow> symbol_row list" where
  "symbols_of db f = filter (\<lambda>s. sy_file_path s = fl_path f) (db_symbols db)"

text \<open>
  The path is the primary key of \<open>files\<close>, so \<open>GROUP BY f.path, f.lang\<close> has one group per file,
  and \<open>count(s.id)\<close> is the number of its joined symbols.
\<close>

definition top_files :: "graph_db \<Rightarrow> scope_filter \<Rightarrow> overview_file list graph_result" where
  "top_files db scope =
     res_mapM (\<lambda>(path, lang, n).
       res_bind (count_to_usize n ''overview top files'') (\<lambda>symbol_count.
         Inr \<lparr>of_path = path, of_lang = lang, of_symbol_count = symbol_count, of_symbols = []\<rparr>))
       (take SUMMARY_TOP_FILES
         (sort_key (\<lambda>(path, lang, n). (- n, path))
           (map (\<lambda>f. (fl_path f, fl_lang f, int (length (symbols_of db f)))) (scoped_files db scope))))"

record full_file_row =
  ffr_path :: string
  ffr_lang :: string
  ffr_name :: "string option"
  ffr_kind :: "string option"
  ffr_qualified :: "string option"

definition full_file_row_of :: "file_row \<times> symbol_row option \<Rightarrow> full_file_row" where
  "full_file_row_of = (\<lambda>(f, s).
     \<lparr>ffr_path = fl_path f, ffr_lang = fl_lang f, ffr_name = map_option sy_name s,
      ffr_kind = map_option sy_kind s, ffr_qualified = map_option sy_qualified s\<rparr>)"

definition left_join :: "graph_db \<Rightarrow> file_row \<Rightarrow> (file_row \<times> symbol_row option) list" where
  "left_join db f =
     (if symbols_of db f = [] then [(f, None)] else map (\<lambda>s. (f, Some s)) (symbols_of db f))"

definition full_file_rows :: "graph_db \<Rightarrow> scope_filter \<Rightarrow> full_file_row list" where
  "full_file_rows db scope =
     map full_file_row_of
       (sort_key (\<lambda>(f, s). (fl_path f, map_option sy_span_start s, map_option sy_id s))
         (concat (map (left_join db) (scoped_files db scope))))"

text \<open>One turn of the loop of \<open>full_files\<close>: open an entry when the path changes, add the symbol.\<close>

definition push_full_row :: "overview_file list \<Rightarrow> full_file_row \<Rightarrow> overview_file list" where
  "push_full_row files row =
     (let opened =
        (if files = [] \<or> of_path (last files) \<noteq> ffr_path row
         then files @ [\<lparr>of_path = ffr_path row, of_lang = ffr_lang row, of_symbol_count = 0,
                        of_symbols = []\<rparr>]
         else files)
      in case (ffr_name row, ffr_kind row, ffr_qualified row) of
           (Some name, Some kind, Some qualified) \<Rightarrow>
             (let f = last opened in
              butlast opened @
                [f\<lparr>of_symbols := of_symbols f @
                     [\<lparr>os_name = name, os_kind = kind, os_qualified = qualified\<rparr>],
                   of_symbol_count := of_symbol_count f + 1\<rparr>])
         | _ \<Rightarrow> opened)"

definition full_files :: "graph_db \<Rightarrow> scope_filter \<Rightarrow> overview_file list" where
  "full_files db scope = foldl push_full_row [] (full_file_rows db scope)"

definition overview_run ::
  "graph_db option \<Rightarrow> selector option \<Rightarrow> overview_format \<Rightarrow> overview_result graph_result" where
  "overview_run conn scope fmt =
     res_bind (scope_filter_from_selector scope) (\<lambda>sf.
       with_read_connection conn (\<lambda>db.
         res_bind (language_counts db sf) (\<lambda>languages.
         res_bind (symbol_kind_counts db sf) (\<lambda>symbol_kinds.
         res_bind (case fmt of Summary \<Rightarrow> top_files db sf | Full \<Rightarrow> Inr (full_files db sf)) (\<lambda>files.
           Inr \<lparr>ov_format = fmt, ov_scope = sf_echo sf,
                 ov_total_files = sum_list (map snd languages),
                 ov_total_symbols = sum_list (map snd symbol_kinds),
                 ov_languages = languages, ov_symbol_kinds = symbol_kinds, ov_files = files\<rparr>)))))"

section \<open>Runtime invocations\<close>

record runtime_invocation_symbol =
  ris_name :: string
  ris_kind :: string
  ris_qualified :: string

record runtime_invocation =
  ri_file :: string
  ri_line :: nat
  ri_program :: string
  ri_symbol :: "runtime_invocation_symbol option"

record invocation_row =
  ir_file :: string
  ir_span_start :: int
  ir_program :: string
  ir_symbol :: "runtime_invocation_symbol option"

definition invocation_row_of :: "graph_db \<Rightarrow> ref_row \<Rightarrow> invocation_row" where
  "invocation_row_of db r =
     \<lparr>ir_file = rf_from_file r, ir_span_start = rf_from_span_start r, ir_program = rf_target_name r,
      ir_symbol = map_option (\<lambda>s. \<lparr>ris_name = sy_name s, ris_kind = sy_kind s,
                                   ris_qualified = sy_qualified s\<rparr>)
        (enclosing_row db (rf_from_file r) (rf_from_span_start r) (rf_from_span_end r))\<rparr>"

definition invocation_rows :: "graph_db \<Rightarrow> invocation_row list" where
  "invocation_rows db =
     map (invocation_row_of db)
       (sort_key (\<lambda>r. (rf_from_file r, rf_from_span_start r, rf_id r))
         (filter (\<lambda>r. rf_kind r = ''runtime_invocation'') (db_refs db)))"

definition invocation_step ::
  "worktree \<Rightarrow> line_cache \<Rightarrow> invocation_row \<Rightarrow> (runtime_invocation \<times> line_cache) graph_result" where
  "invocation_step wt cache row =
     res_bind (cache_line_for wt cache (ir_file row) (ir_span_start row)) (\<lambda>(line, cache').
       Inr (\<lparr>ri_file = ir_file row, ri_line = line, ri_program = ir_program row,
             ri_symbol = ir_symbol row\<rparr>, cache'))"

definition invocations ::
  "worktree \<Rightarrow> graph_db option \<Rightarrow> runtime_invocation list graph_result" where
  "invocations wt conn =
     with_read_connection conn (\<lambda>db.
       res_map fst (res_scan (invocation_step wt) Map.empty (invocation_rows db)))"

section \<open>Grouped counts\<close>

lemma insert_counts_fold:
  "insert_counts op (map (\<lambda>(k, n). (k, int n)) rows) counts =
     Inr (fold (\<lambda>(k, n). btree_insert k n) rows counts)"
  by (induction rows arbitrary: counts) (auto simp: count_to_usize_def)

text \<open>A \<open>GROUP BY\<close> collected into a map: every key once, in order, with its number of rows.\<close>

definition count_map :: "string list \<Rightarrow> (string, nat) btree_map" where
  "count_map keys = map (\<lambda>k. (k, count_list keys k)) (sort (remdups keys))"

lemma btree_ok_count_map: "btree_ok (count_map keys)"
  by (simp add: btree_ok_def count_map_def o_def strict_sorted_iff)

lemma map_of_rev_distinct: "distinct (map fst xs) \<Longrightarrow> map_of (rev xs) = map_of xs"
  by (intro map_of_eqI) (auto simp: rev_map [symmetric] distinct_map)

lemma grouped_counts_count_map: "grouped_counts keys op = Inr (count_map keys)"
proof -
  let ?rows = "map (\<lambda>k. (k, count_list keys k)) (remdups keys)"
  have "group_by_count keys = map (\<lambda>(k, n). (k, int n)) ?rows" by (simp add: group_by_count_def)
  then have "grouped_counts keys op = Inr (btree.collect ?rows)"
    unfolding grouped_counts_def btree.collect_def by (simp only: insert_counts_fold)
  moreover have "btree.collect ?rows = count_map keys"
  proof (rule btree_eqI [OF btree.invar_collect btree_ok_count_map])
    have "map_of (rev ?rows) = map_of ?rows" by (rule map_of_rev_distinct) (simp add: o_def)
    also have "\<dots> = map_of (count_map keys)"
      unfolding count_map_def by (rule ext) (simp add: map_of_map_keys [symmetric] map_of_map_restrict)
    finally show "map_of (btree.collect ?rows) = map_of (count_map keys)"
      unfolding btree.get_collect .
  qed
  ultimately show ?thesis by simp
qed

lemma count_map_sum: "sum_list (map snd (count_map keys)) = length keys"
proof -
  have "sum_list (map snd (count_map keys)) = sum_list (map (count_list keys) (sort (remdups keys)))"
    by (simp add: count_map_def o_def)
  also have "\<dots> = sum (count_list keys) (set keys)"
    by (subst sum_list_distinct_conv_sum_set) simp_all
  also have "\<dots> = length keys" by (rule sum_count_set) auto
  finally show ?thesis .
qed

section \<open>The full listing\<close>

definition overview_symbol_of :: "symbol_row \<Rightarrow> overview_symbol" where
  "overview_symbol_of s = \<lparr>os_name = sy_name s, os_kind = sy_kind s, os_qualified = sy_qualified s\<rparr>"

definition overview_entry :: "graph_db \<Rightarrow> file_row \<Rightarrow> overview_file" where
  "overview_entry db f =
     \<lparr>of_path = fl_path f, of_lang = fl_lang f, of_symbol_count = length (symbols_of db f),
      of_symbols = map overview_symbol_of (sort_key (\<lambda>s. (sy_span_start s, sy_id s)) (symbols_of db f))\<rparr>"

abbreviation row_key :: "file_row \<times> symbol_row option \<Rightarrow> string \<times> int option \<times> int option" where
  "row_key \<equiv> \<lambda>(f, s). (fl_path f, map_option sy_span_start s, map_option sy_id s)"

definition sorted_join :: "graph_db \<Rightarrow> file_row \<Rightarrow> (file_row \<times> symbol_row option) list" where
  "sorted_join db f =
     (if symbols_of db f = [] then [(f, None)]
      else map (\<lambda>s. (f, Some s)) (sort_key (\<lambda>s. (sy_span_start s, sy_id s)) (symbols_of db f)))"

lemma sorted_join_fst: "r \<in> set (sorted_join db f) \<Longrightarrow> fst r = f"
  by (auto simp: sorted_join_def split: if_splits)

lemma mset_sorted_join: "mset (sorted_join db f) = mset (left_join db f)"
  by (simp add: sorted_join_def left_join_def mset_map)

lemma sorted_sorted_join: "sorted (map row_key (sorted_join db f))"
proof -
  let ?ss = "sort_key (\<lambda>s. (sy_span_start s, sy_id s)) (symbols_of db f)"
  have "sorted (map (\<lambda>s. (sy_span_start s, sy_id s)) ?ss)" by (rule sorted_sort_key)
  then have "sorted (map (\<lambda>s. (fl_path f, Some (sy_span_start s), Some (sy_id s))) ?ss)"
    by (auto simp: sorted_map elim!: sorted_wrt_mono_rel [rotated])
  then show ?thesis by (simp add: sorted_join_def o_def)
qed

lemma sorted_concat_blocks:
  assumes "sorted (map fl_path fs)" "distinct (map fl_path fs)"
  shows "sorted (map row_key (concat (map (sorted_join db) fs)))"
  using assms
proof (induction fs)
  case (Cons f fs)
  have "row_key a \<le> row_key b"
    if "a \<in> set (sorted_join db f)" "b \<in> set (sorted_join db g)" "g \<in> set fs" for a b g
  proof -
    have "fl_path f < fl_path g" using Cons.prems \<open>g \<in> set fs\<close> by (force simp: order.strict_iff_order)
    moreover have "fst a = f" "fst b = g" using that sorted_join_fst by blast+
    ultimately show ?thesis by (cases a; cases b) simp
  qed
  with Cons show ?case by (auto simp: sorted_append sorted_sorted_join)
qed simp

lemma symbols_of_subset: "s \<in> set (symbols_of db f) \<Longrightarrow> s \<in> set (db_symbols db) \<and> sy_file_path s = fl_path f"
  by (simp add: symbols_of_def)

lemma row_key_inj:
  assumes "db_keys_ok db" "set fs \<subseteq> set (db_files db)"
  shows "inj_on row_key (set (concat (map (left_join db) fs)))"
proof (rule inj_onI)
  fix a b assume ab: "a \<in> set (concat (map (left_join db) fs))" "b \<in> set (concat (map (left_join db) fs))"
    and k: "row_key a = row_key b"
  obtain f s where a: "a = (f, s)" by (cases a)
  obtain g t where b: "b = (g, t)" by (cases b)
  have mem: "f \<in> set fs" "g \<in> set fs" and s: "\<And>x. s = Some x \<Longrightarrow> x \<in> set (db_symbols db)"
    and t: "\<And>x. t = Some x \<Longrightarrow> x \<in> set (db_symbols db)"
    using ab unfolding a b by (auto simp: left_join_def symbols_of_def split: if_splits)
  have "inj_on fl_path (set (db_files db))" using assms(1) by (simp add: db_keys_ok_def distinct_map)
  then have "f = g" using k mem assms(2) unfolding a b by (auto dest: inj_onD)
  moreover have "s = t"
    using k s t assms(1) unfolding a b by (cases s; cases t) (auto intro: symbol_by_id_unique)
  ultimately show "a = b" by (simp add: a b)
qed

lemma full_join_sorted:
  assumes "db_keys_ok db" "distinct fs" "set fs \<subseteq> set (db_files db)"
  shows "sort_key row_key (concat (map (left_join db) fs)) =
    concat (map (sorted_join db) (sort_key fl_path fs))"
proof (rule sort_key_inj_key_eq)
  have "mset (concat (map (left_join db) fs)) = mset (concat (map (sorted_join db) fs))"
    by (induction fs) (simp_all add: mset_sorted_join)
  also have "\<dots> = mset (concat (map (sorted_join db) (sort_key fl_path fs)))"
    by (simp add: mset_concat flip: sum_mset_sum_list)
  finally show "mset (concat (map (left_join db) fs)) =
      mset (concat (map (sorted_join db) (sort_key fl_path fs)))" .
  have "distinct (map fl_path fs)"
    using assms by (auto simp: db_keys_ok_def distinct_map inj_on_subset)
  then show "sorted (map row_key (concat (map (sorted_join db) (sort_key fl_path fs))))"
    by (intro sorted_concat_blocks) (auto simp: distinct_map)
qed (rule row_key_inj [OF assms(1,3)])

lemma push_full_row_same:
  assumes "of_path e = fl_path f"
  shows "push_full_row (acc @ [e]) (full_file_row_of (f, Some s)) =
    acc @ [e\<lparr>of_symbols := of_symbols e @ [overview_symbol_of s], of_symbol_count := of_symbol_count e + 1\<rparr>]"
  using assms by (simp add: push_full_row_def full_file_row_of_def overview_symbol_of_def)

lemma push_block_same:
  assumes "of_path e = fl_path f"
  shows "foldl push_full_row (acc @ [e]) (map (\<lambda>s. full_file_row_of (f, Some s)) ss) =
    acc @ [e\<lparr>of_symbols := of_symbols e @ map overview_symbol_of ss,
             of_symbol_count := of_symbol_count e + length ss\<rparr>]"
  using assms
proof (induction ss arbitrary: e)
  case (Cons s ss)
  then show ?case by (simp add: push_full_row_same)
qed simp

abbreviation opens :: "overview_file list \<Rightarrow> file_row \<Rightarrow> bool" where
  "opens acc f \<equiv> acc = [] \<or> of_path (last acc) \<noteq> fl_path f"

lemma push_full_row_open:
  assumes "opens acc f"
  shows "push_full_row acc (full_file_row_of (f, s)) =
    (let e = \<lparr>of_path = fl_path f, of_lang = fl_lang f, of_symbol_count = 0, of_symbols = []\<rparr> in
     case s of None \<Rightarrow> acc @ [e] | Some s \<Rightarrow> push_full_row (acc @ [e]) (full_file_row_of (f, Some s)))"
  using assms by (cases s) (auto simp: push_full_row_def full_file_row_of_def Let_def)

lemma push_block:
  assumes "opens acc f"
  shows "foldl push_full_row acc (map full_file_row_of (sorted_join db f)) = acc @ [overview_entry db f]"
proof (cases "sort_key (\<lambda>s. (sy_span_start s, sy_id s)) (symbols_of db f)")
  case Nil
  then have "symbols_of db f = []" by (metis length_0_conv length_sort)
  then show ?thesis using assms
    by (simp add: sorted_join_def push_full_row_open overview_entry_def)
next
  case (Cons s ss)
  then have ne: "symbols_of db f \<noteq> []" and len: "length (symbols_of db f) = Suc (length ss)"
    by (auto, metis length_Cons length_sort)
  let ?e = "\<lparr>of_path = fl_path f, of_lang = fl_lang f, of_symbol_count = 0, of_symbols = []\<rparr>"
  have "foldl push_full_row acc (map full_file_row_of (sorted_join db f)) =
      foldl push_full_row (acc @ [?e]) (map (\<lambda>s. full_file_row_of (f, Some s)) (s # ss))"
    using ne assms by (simp add: sorted_join_def Cons o_def push_full_row_open)
  also have "\<dots> = acc @ [overview_entry db f]"
    by (subst push_block_same) (simp_all add: overview_entry_def Cons len)
  finally show ?thesis .
qed

lemma push_blocks:
  assumes "distinct (map fl_path fs)" "fs \<noteq> [] \<Longrightarrow> opens acc (hd fs)"
  shows "foldl push_full_row acc (map full_file_row_of (concat (map (sorted_join db) fs))) =
    acc @ map (overview_entry db) fs"
  using assms
proof (induction fs arbitrary: acc)
  case (Cons f fs)
  have "opens (acc @ [overview_entry db f]) (hd fs)" if "fs \<noteq> []"
    using Cons.prems(1) that by (cases fs) (auto simp: overview_entry_def)
  with Cons show ?case by (simp add: push_block)
qed simp

lemma full_files_entries:
  assumes "db_keys_ok db"
  shows "full_files db sf = map (overview_entry db) (sort_key fl_path (scoped_files db sf))"
proof -
  have d: "distinct (scoped_files db sf)" "distinct (map fl_path (scoped_files db sf))"
    using assms by (auto simp: db_keys_ok_def scoped_files_def distinct_map inj_on_def)
  have "full_file_rows db sf =
      map full_file_row_of (concat (map (sorted_join db) (sort_key fl_path (scoped_files db sf))))"
    unfolding full_file_rows_def
    by (subst full_join_sorted [OF assms d(1)]) (auto simp: scoped_files_def)
  moreover have "distinct (map fl_path (sort_key fl_path (scoped_files db sf)))"
    using d(2) by (simp add: distinct_map)
  ultimately show ?thesis
    unfolding full_files_def by (simp only: push_blocks) (simp add: push_blocks)
qed

section \<open>What an overview shows\<close>

text \<open>The reference: totals, counts per key, and either every file or the largest ones.\<close>

definition summary_entry :: "graph_db \<Rightarrow> file_row \<Rightarrow> overview_file" where
  "summary_entry db f = (overview_entry db f)\<lparr>of_symbols := []\<rparr>"

definition overview_spec :: "graph_db \<Rightarrow> overview_format \<Rightarrow> scope_filter \<Rightarrow> overview_result" where
  "overview_spec db fmt sf =
     \<lparr>ov_format = fmt, ov_scope = sf_echo sf,
      ov_total_files = length (scoped_files db sf), ov_total_symbols = length (scoped_symbols db sf),
      ov_languages = count_map (map fl_lang (scoped_files db sf)),
      ov_symbol_kinds = count_map (map sy_kind (scoped_symbols db sf)),
      ov_files = (case fmt of
         Full \<Rightarrow> map (overview_entry db) (sort_key fl_path (scoped_files db sf))
       | Summary \<Rightarrow> map (summary_entry db)
           (take 20 (sort_key (\<lambda>f. (- int (length (symbols_of db f)), fl_path f)) (scoped_files db sf))))\<rparr>"

lemma sort_key_map: "sort_key k (map f xs) = map f (sort_key (k \<circ> f) xs)"
proof -
  have "insort_key k (f x) (map f ys) = map f (insort_key (k \<circ> f) x ys)" for x ys
    by (induction ys) auto
  then show ?thesis by (induction xs) auto
qed

lemma top_files_summary:
  "top_files db sf = Inr (map (summary_entry db)
     (take 20 (sort_key (\<lambda>f. (- int (length (symbols_of db f)), fl_path f)) (scoped_files db sf))))"
  unfolding top_files_def sort_key_map take_map
  by (subst res_mapM_total
      [where g = "\<lambda>(p, l, n). \<lparr>of_path = p, of_lang = l, of_symbol_count = nat n, of_symbols = []\<rparr>"])
     (auto simp: count_to_usize_def SUMMARY_TOP_FILES_def o_def summary_entry_def overview_entry_def)

lemma overview_run_spec_aux:
  assumes "db_keys_ok db"
  shows "overview_run (Some db) scope fmt = res_map (overview_spec db fmt) (scope_filter_from_selector scope)"
  using assms
  by (cases "scope_filter_from_selector scope"; cases fmt)
     (simp_all add: overview_run_def with_read_connection_def language_counts_def symbol_kind_counts_def
       grouped_counts_count_map count_map_sum top_files_summary full_files_entries overview_spec_def)

text \<open>
  C29. On a database whose primary keys hold, an overview fails exactly when its scope is not a
  \<open>file:\<close> or \<open>dir:\<close> selector, and otherwise is the reference overview: totals and per-key counts
  of the files and symbols in scope, with every file in path order and its symbols in source
  order (\<open>full\<close>), or the twenty files with the most symbols (\<open>summary\<close>). The row-by-row grouping
  of the joined rows never splits or merges files.
\<close>

theorem overview_run_spec:
  assumes "db_keys_ok db"
  shows "overview_run (Some db) scope fmt = res_map (overview_spec db fmt) (scope_filter_from_selector scope)"
  using assms by (rule overview_run_spec_aux)

theorem overview_run_spec_witness:
  "overview_run (Some demo_db) None Full =
     Inr (overview_spec demo_db Full \<lparr>sf_kind = ScopeAll, sf_echo = None\<rparr>)"
proof -
  have "db_keys_ok demo_db" by code_simp
  from overview_run_spec [OF this] show ?thesis by (simp add: scope_filter_from_selector_def)
qed

text \<open>What the foreign keys of the schema promise about \<open>file_path\<close> of a symbol.\<close>

definition symbols_have_files :: "graph_db \<Rightarrow> bool" where
  "symbols_have_files db \<longleftrightarrow>
     list_all (\<lambda>s. list_ex (\<lambda>f. fl_path f = sy_file_path s) (db_files db)) (db_symbols db)"

lemma sum_list_count_filter:
  assumes "distinct (map key fs)"
  shows "sum_list (map (\<lambda>f. length (filter (\<lambda>s. h s = key f) xs)) fs) =
    length (filter (\<lambda>s. h s \<in> key ` set fs) xs)"
proof (induction xs)
  case (Cons x xs)
  have "sum_list (map (\<lambda>f. if h x = key f then 1 else 0 :: nat) fs) = (if h x \<in> key ` set fs then 1 else 0)"
    using assms by (induction fs) auto
  moreover have "sum_list (map (\<lambda>f. length (filter (\<lambda>s. h s = key f) (x # xs))) fs) =
      sum_list (map (\<lambda>f. if h x = key f then 1 else 0) fs) +
      sum_list (map (\<lambda>f. length (filter (\<lambda>s. h s = key f) xs)) fs)"
    by (subst sum_list_addf [symmetric]) (auto intro!: arg_cong [where f = sum_list])
  ultimately show ?case using Cons by simp
qed (simp add: sum_list_0)

lemma sum_list_sort_key: "sum_list (map f (sort_key g xs)) = (sum_list (map f xs) :: nat)"
  by (simp add: mset_map flip: sum_mset_sum_list)

lemma listed_symbols_total:
  assumes "db_keys_ok db" "symbols_have_files db"
  shows "sum_list (map (\<lambda>f. length (symbols_of db f)) (scoped_files db sf)) = length (scoped_symbols db sf)"
proof -
  have d: "distinct (map fl_path (scoped_files db sf))"
    using assms(1) by (auto simp: db_keys_ok_def scoped_files_def distinct_map inj_on_def)
  have "filter (\<lambda>s. sy_file_path s \<in> fl_path ` set (scoped_files db sf)) (db_symbols db) =
      scoped_symbols db sf"
    unfolding scoped_symbols_def
    using assms(2)
    by (intro filter_cong) (force simp: scoped_files_def symbols_have_files_def list_all_iff list_ex_iff)+
  then show ?thesis unfolding symbols_of_def by (simp only: sum_list_count_filter [OF d])
qed

text \<open>
  C30. The parts of a full overview agree with each other: the number of listed files is the file
  total and the sum of the language counts, and the listed symbols add up to the symbol total
  and to the sum of the per-kind counts.
\<close>

theorem overview_full_consistent:
  assumes "db_keys_ok db" "symbols_have_files db" "overview_run (Some db) scope Full = Inr r"
  shows "length (ov_files r) = ov_total_files r \<and> sum_list (map snd (ov_languages r)) = ov_total_files r \<and>
    sum_list (map (length \<circ> of_symbols) (ov_files r)) = ov_total_symbols r \<and>
    sum_list (map of_symbol_count (ov_files r)) = ov_total_symbols r \<and>
    sum_list (map snd (ov_symbol_kinds r)) = ov_total_symbols r"
proof -
  obtain sf where r: "r = overview_spec db Full sf"
    using assms(3) unfolding overview_run_spec_aux [OF assms(1)] by (auto simp: res_simps)
  let ?fs = "scoped_files db sf"
  have "sum_list (map (\<lambda>f. length (symbols_of db f)) (sort_key fl_path ?fs)) =
      length (scoped_symbols db sf)"
    unfolding sum_list_sort_key by (rule listed_symbols_total [OF assms(1,2)])
  then show ?thesis
    unfolding r by (simp add: overview_spec_def count_map_sum overview_entry_def o_def)
qed

theorem overview_full_consistent_witness:
  "\<exists>r. overview_run (Some demo_db) None Full = Inr r \<and> length (ov_files r) = ov_total_files r \<and>
     sum_list (map of_symbol_count (ov_files r)) = ov_total_symbols r"
proof -
  have k: "db_keys_ok demo_db" "symbols_have_files demo_db" by code_simp+
  obtain r where r: "overview_run (Some demo_db) None Full = Inr r"
    unfolding overview_run_spec_aux [OF k(1)] by (simp add: scope_filter_from_selector_def)
  from overview_full_consistent [OF k r] r show ?thesis by blast
qed

section \<open>What the other listings show\<close>

lemma trim_end_slashes_no_slash: "trim_end_slashes s = [] \<or> last (trim_end_slashes s) \<noteq> CHR ''/''"
  using hd_dropWhile [of "\<lambda>c. c = CHR ''/''" "rev s"] by (auto simp: trim_end_slashes_def last_rev)


lemma implements_trait_kind:
  "implements_trait name r \<Longrightarrow> \<exists>k. ref_kind_from_db (rl_kind r) = Inr k \<and> (k = Impl \<or> k = Implements)"
  by (auto simp: implements_trait_def ref_kind_from_db_def)

definition reports_impl :: "relation_row \<Rightarrow> implementor \<Rightarrow> bool" where
  "reports_impl r i \<longleftrightarrow>
     ip_type_qualified i = rl_from_qualified r \<and> ip_trait_matched i = rl_to_qualified r \<and>
     ref_kind_as_str (ip_kind i) = rl_kind r \<and> ip_file i = rl_def_file r"

lemma query_implementors_total:
  "\<exists>ims. query_implementors db name = Inr ims \<and>
     list_all2 reports_impl (sort_key (\<lambda>r. (rl_def_file r, rl_from_qualified r, rl_id r))
       (filter (implements_trait name) (db_relations db))) ims"
proof -
  let ?rows = "sort_key (\<lambda>r. (rl_def_file r, rl_from_qualified r, rl_id r))
    (filter (implements_trait name) (db_relations db))"
  let ?f = "\<lambda>r. res_bind (ref_kind_from_db (rl_kind r)) (\<lambda>kind.
    Inr \<lparr>ip_type_qualified = rl_from_qualified r, ip_trait_matched = rl_to_qualified r,
          ip_kind = kind, ip_file = rl_def_file r\<rparr>) :: implementor graph_result"
  have "\<exists>i. ?f r = Inr i \<and> reports_impl r i" if r: "r \<in> set ?rows" for r
  proof -
    obtain k where "ref_kind_from_db (rl_kind r) = Inr k"
      using r implements_trait_kind [of name r] by auto
    then show ?thesis using ref_kind_from_db_Inr_iff [of "rl_kind r" k] by (simp add: reports_impl_def)
  qed
  from res_mapM_ex [OF this] show ?thesis unfolding query_implementors_def .
qed

text \<open>
  C32. An implementor query never fails on an open graph. It reports, in file, type and id order,
  exactly the \<open>impl\<close> and \<open>implements\<close> relations whose written trait is the selector's trailing
  name or ends in \<open>::\<close> and that name; the rows it decodes always carry a decodable kind.
\<close>

theorem implementors_run_total:
  "\<exists>res. implementors_run (Some db) sel = Inr res \<and>
     list_all2 reports_impl
       (case trait_name_from_selector sel of None \<Rightarrow> []
        | Some name \<Rightarrow> sort_key (\<lambda>r. (rl_def_file r, rl_from_qualified r, rl_id r))
            (filter (implements_trait name) (db_relations db)))
       (ipr_implementors res)"
proof (cases "trait_name_from_selector sel")
  case (Some name)
  obtain ims where "query_implementors db name = Inr ims"
    "list_all2 reports_impl (sort_key (\<lambda>r. (rl_def_file r, rl_from_qualified r, rl_id r))
       (filter (implements_trait name) (db_relations db))) ims"
    using query_implementors_total by blast
  with Some show ?thesis by (simp add: implementors_run_def with_read_connection_def)
qed (simp add: implementors_run_def with_read_connection_def)

definition pure_invocation :: "worktree \<Rightarrow> invocation_row \<Rightarrow> runtime_invocation graph_result" where
  "pure_invocation wt row =
     res_bind (pure_line_for wt (ir_file row) (ir_span_start row)) (\<lambda>line.
       Inr \<lparr>ri_file = ir_file row, ri_line = line, ri_program = ir_program row, ri_symbol = ir_symbol row\<rparr>)"

interpretation invocation_loop: cached_step "invocation_step wt" "lines_good wt" "pure_invocation wt" for wt
  by unfold_locales
     (simp add: invocation_step_def pure_invocation_def agrees_map cache_line_for_agrees)

text \<open>
  C33. The runtime-invocation listing is, in file, offset and id order, one entry for every stored
  \<open>runtime_invocation\<close> reference, each with the line read from its own file and its innermost
  enclosing symbol; sharing one line cache between the rows changes neither the entries nor which
  error is reported.
\<close>

theorem invocations_cache_free:
  "invocations wt (Some db) = res_mapM (pure_invocation wt \<circ> invocation_row_of db)
     (sort_key (\<lambda>r. (rf_from_file r, rf_from_span_start r, rf_id r))
       (filter (\<lambda>r. rf_kind r = ''runtime_invocation'') (db_refs db)))"
proof -
  have m: "res_mapM f (map g xs) = res_mapM (f \<circ> g) xs"
    for f :: "invocation_row \<Rightarrow> runtime_invocation graph_result" and g :: "ref_row \<Rightarrow> invocation_row" and xs
    by (induction xs) auto
  show ?thesis
    unfolding invocations_def with_read_connection_def option.case
    unfolding invocation_loop.scan_result [OF memo_good_empty] invocation_rows_def m ..
qed

end
