(* ===== verification/Query_Callees.thy ===== *)
theory Query_Callees
  imports Query_Refs
begin

text \<open>
  The outbound call-edge query (\<open>query/callees.rs\<close>) with the selector resolution it shares with
  other span queries (\<open>resolve_symbol_span\<close> of \<open>query/types.rs\<close>).
\<close>

section \<open>Model\<close>

record symbol_span =
  sp_file_path :: string
  sp_span_start :: int
  sp_span_end :: int

text \<open>The statement of \<open>resolve_symbol_span\<close>; a blank kind leaves the kind unconstrained.\<close>

definition span_row :: "graph_db \<Rightarrow> string \<Rightarrow> string \<Rightarrow> string \<Rightarrow> symbol_row option" where
  "span_row db path symbol kind =
     first_row (sort_key (\<lambda>s. (if sy_qualified s = symbol then 0 else 1 :: nat, sy_id s))
       (filter (\<lambda>s. sy_file_path s = path \<and> (sy_name s = symbol \<or> sy_qualified s = symbol) \<and>
                   (trim_str kind = [] \<or> sy_kind s = trim_str kind)) (db_symbols db)))"

definition resolve_symbol_span :: "graph_db \<Rightarrow> selector \<Rightarrow> symbol_span option" where
  "resolve_symbol_span db sel =
     (case sel of
        Symbol path symbol kind \<Rightarrow>
          map_option (\<lambda>s. \<lparr>sp_file_path = sy_file_path s, sp_span_start = sy_span_start s,
                           sp_span_end = sy_span_end s\<rparr>)
            (span_row db path symbol kind)
      | _ \<Rightarrow> None)"

record callee_opts =
  co_confidence :: ref_confidence
  co_kind :: "ref_kind option"
  co_hide_unresolved :: bool

definition callee_opts_all :: callee_opts where
  "callee_opts_all = \<lparr>co_confidence = FuzzyName, co_kind = None, co_hide_unresolved = False\<rparr>"

record callee_edge =
  ce_target_name :: string
  ce_target_qualified :: "string option"
  ce_confidence :: ref_confidence
  ce_line :: nat

record callee_report =
  cr_callees :: "callee_edge list"
  cr_hidden_unresolved :: nat

definition callee_report_default :: callee_report where
  "callee_report_default = \<lparr>cr_callees = [], cr_hidden_unresolved = 0\<rparr>"

definition edges_for_symbol :: "graph_db \<Rightarrow> symbol_span \<Rightarrow> ref_row list" where
  "edges_for_symbol db symbol =
     sort_key (\<lambda>r. (rf_from_span_start r, rf_id r))
       (filter (\<lambda>r. rf_from_file r = sp_file_path symbol \<and>
                   rf_from_span_start r \<ge> sp_span_start symbol \<and>
                   rf_from_span_end r \<le> sp_span_end symbol \<and> rf_kind r = ''call'') (db_refs db))"

definition callable_kinds :: "string list" where
  "callable_kinds = [''function'', ''method'', ''class'', ''struct'']"

definition defined_in :: "graph_db \<Rightarrow> string \<Rightarrow> bool" where
  "defined_in db name \<longleftrightarrow>
     list_ex (\<lambda>s. sy_name s = name \<and> sy_kind s \<in> set callable_kinds) (db_symbols db)"

definition has_indexed_definition ::
  "graph_db \<Rightarrow> (string \<rightharpoonup> bool) \<Rightarrow> string \<Rightarrow> (bool \<times> (string \<rightharpoonup> bool)) graph_result" where
  "has_indexed_definition db = memo_get (\<lambda>name. Inr (defined_in db name))"

text \<open>What the edge loop does with one stored edge.\<close>

datatype edge_outcome = BelowFloor | Hidden | Shown ref_row ref_confidence

definition edge_step ::
  "graph_db \<Rightarrow> callee_opts \<Rightarrow> (string \<rightharpoonup> bool) \<Rightarrow> ref_row \<Rightarrow>
     (edge_outcome \<times> (string \<rightharpoonup> bool)) graph_result" where
  "edge_step db opts memo edge =
     res_bind (confidence_from_db (rf_confidence edge)) (\<lambda>confidence.
       if \<not> visible_at_floor confidence (co_confidence opts) then Inr (BelowFloor, memo)
       else if co_hide_unresolved opts \<and> rf_target_qualified edge = None
       then res_bind (has_indexed_definition db memo (rf_target_name edge)) (\<lambda>(defined, memo').
              Inr (if defined then Shown edge confidence else Hidden, memo'))
       else Inr (Shown edge confidence, memo))"

fun shown_edges :: "edge_outcome list \<Rightarrow> (ref_row \<times> ref_confidence) list" where
  "shown_edges [] = []"
| "shown_edges (Shown edge confidence # xs) = (edge, confidence) # shown_edges xs"
| "shown_edges (_ # xs) = shown_edges xs"

definition hidden_count :: "edge_outcome list \<Rightarrow> nat" where
  "hidden_count xs = length (filter (\<lambda>x. x = Hidden) xs)"

text \<open>The line index of \<open>callees.rs\<close>, which keeps only the length of the source.\<close>

record callee_line_index =
  ci_byte_len :: nat
  ci_line_starts :: "nat list"

definition callee_line_index_new :: "string \<Rightarrow> callee_line_index" where
  "callee_line_index_new bytes =
     \<lparr>ci_byte_len = length bytes, ci_line_starts = 0 # newline_starts bytes\<rparr>"

definition ci_line_for :: "callee_line_index \<Rightarrow> nat \<Rightarrow> nat" where
  "ci_line_for ci byte_offset =
     (let capped = min byte_offset (ci_byte_len ci) in
      partition_point (\<lambda>line_start. line_start \<le> capped) (ci_line_starts ci))"

definition materialize_edges ::
  "worktree \<Rightarrow> string \<Rightarrow> (ref_row \<times> ref_confidence) list \<Rightarrow> callee_edge list graph_result" where
  "materialize_edges wt file_path edges =
     (if edges = [] then Inr []
      else res_bind (contained_worktree_source wt file_path) (\<lambda>source_path.
           res_bind (read_indexed_source wt source_path ''read source file for graph callee line'')
             (\<lambda>bytes.
               let lines = callee_line_index_new bytes in
               res_mapM (\<lambda>(edge, confidence).
                 res_bind (i64_to_usize ''compute graph callee line'' (rf_from_span_start edge))
                   (\<lambda>from_span.
                     Inr \<lparr>ce_target_name = rf_target_name edge,
                           ce_target_qualified = rf_target_qualified edge,
                           ce_confidence = confidence,
                           ce_line = ci_line_for lines from_span\<rparr>)) edges)))"

definition callees_run ::
  "worktree \<Rightarrow> graph_db option \<Rightarrow> selector \<Rightarrow> callee_opts \<Rightarrow> callee_report graph_result" where
  "callees_run wt conn sel opts =
     (if (case co_kind opts of None \<Rightarrow> False | Some kind \<Rightarrow> kind \<noteq> Call)
      then Inr callee_report_default
      else res_bind
        (with_read_connection conn (\<lambda>db.
           case resolve_symbol_span db sel of
             None \<Rightarrow> Inr None
           | Some symbol \<Rightarrow>
               res_bind (res_scan (edge_step db opts) Map.empty (edges_for_symbol db symbol))
                 (\<lambda>(outcomes, _). Inr (Some (symbol, shown_edges outcomes, hidden_count outcomes)))))
        (\<lambda>resolved.
          case resolved of
            None \<Rightarrow> Inr callee_report_default
          | Some (symbol, edges, hidden_unresolved) \<Rightarrow>
              res_bind (materialize_edges wt (sp_file_path symbol) edges) (\<lambda>callees.
                Inr \<lparr>cr_callees = callees, cr_hidden_unresolved = hidden_unresolved\<rparr>)))"

section \<open>Resolution\<close>

text \<open>With a trimmed, non-blank kind the statement is the shared lookup.\<close>

definition span_row_trimmed :: "graph_db \<Rightarrow> string \<Rightarrow> string \<Rightarrow> string \<Rightarrow> symbol_row option" where
  "span_row_trimmed db path symbol kind =
     first_row (sort_key (preferred symbol) (filter (selected path symbol kind) (db_symbols db)))"

interpretation span_lookup: symbol_lookup span_row_trimmed
  by (rule symbol_lookup_first_row [where key = preferred and P = selected])
     (simp_all add: span_row_trimmed_def)

lemma span_row_trimmed:
  "trim_str kind = kind \<Longrightarrow> kind \<noteq> [] \<Longrightarrow> span_row db path symbol kind = span_row_trimmed db path symbol kind"
  by (simp add: span_row_def span_row_trimmed_def preferred_def [abs_def] selected_def [abs_def] conj_ac)

section \<open>What a callee query returns\<close>

definition pure_edge :: "graph_db \<Rightarrow> callee_opts \<Rightarrow> ref_row \<Rightarrow> edge_outcome graph_result" where
  "pure_edge db opts edge =
     res_bind (confidence_from_db (rf_confidence edge)) (\<lambda>confidence.
       if \<not> visible_at_floor confidence (co_confidence opts) then Inr BelowFloor
       else if co_hide_unresolved opts \<and> rf_target_qualified edge = None \<and>
               \<not> defined_in db (rf_target_name edge) then Inr Hidden
       else Inr (Shown edge confidence))"

abbreviation defined_good :: "graph_db \<Rightarrow> (string \<rightharpoonup> bool) \<Rightarrow> bool" where
  "defined_good db \<equiv> memo_good (\<lambda>name. Inr (defined_in db name) :: bool graph_result)"

lemma edge_step_agrees:
  assumes "defined_good db memo"
  shows "agrees (defined_good db) (edge_step db opts memo edge) (pure_edge db opts edge)"
proof -
  obtain memo' where m: "defined_good db memo'"
    "has_indexed_definition db memo (rf_target_name edge) = Inr (defined_in db (rf_target_name edge), memo')"
    using agrees_Inr_D [OF memo_get_agrees [OF assms, of "rf_target_name edge"]]
    by (auto simp: has_indexed_definition_def)
  show ?thesis
    unfolding edge_step_def pure_edge_def using assms m(1) by (intro agrees_lift) (simp add: m(2))
qed

interpretation edges_loop: cached_step "edge_step db opts" "defined_good db" "pure_edge db opts" for db opts
  by unfold_locales (rule edge_step_agrees)

definition edge_visible :: "callee_opts \<Rightarrow> ref_row \<Rightarrow> bool" where
  "edge_visible opts e \<longleftrightarrow> stored_visible (co_confidence opts) (rf_confidence e)"

definition edge_hidden :: "graph_db \<Rightarrow> callee_opts \<Rightarrow> ref_row \<Rightarrow> bool" where
  "edge_hidden db opts e \<longleftrightarrow> co_hide_unresolved opts \<and> rf_target_qualified e = None \<and>
     \<not> defined_in db (rf_target_name e)"

definition edge_reports :: "worktree \<Rightarrow> ref_row \<Rightarrow> callee_edge \<Rightarrow> bool" where
  "edge_reports wt r e \<longleftrightarrow>
     ce_target_name e = rf_target_name r \<and> ce_target_qualified e = rf_target_qualified r \<and>
     confidence_label (ce_confidence e) = rf_confidence r \<and>
     (\<exists>path bytes. contained_worktree_source wt (rf_from_file r) = Inr path \<and>
        read_indexed_source wt path ''read source file for graph callee line'' = Inr bytes \<and>
        0 \<le> rf_from_span_start r \<and> ce_line e = newlines (take (nat (rf_from_span_start r)) bytes) + 1)"

lemma ci_line_for_new: "ci_line_for (callee_line_index_new bytes) off = newlines (take off bytes) + 1"
proof -
  have "ci_line_for (callee_line_index_new bytes) off = li_line_for (line_index_new bytes) off"
    by (simp add: ci_line_for_def callee_line_index_new_def li_line_for_def line_index_new_def)
  then show ?thesis by (simp add: li_line_for_new)
qed

lemma pure_edge_cases:
  assumes "pure_edge db opts e = Inr oc"
  shows "case oc of BelowFloor \<Rightarrow> \<not> edge_visible opts e
    | Hidden \<Rightarrow> edge_visible opts e \<and> edge_hidden db opts e
    | Shown r c \<Rightarrow> edge_visible opts e \<and> \<not> edge_hidden db opts e \<and> r = e \<and>
        confidence_label c = rf_confidence e"
  using assms
  by (auto simp: pure_edge_def res_simps edge_visible_def edge_hidden_def stored_visible_def
      split: if_splits edge_outcome.splits)
     (auto simp: confidence_from_db_Inr_iff)

lemma pure_edges_outcomes:
  assumes "res_mapM (pure_edge db opts) es = Inr ocs"
  shows "list_all2 (\<lambda>e (r, c). r = e \<and> confidence_label c = rf_confidence e)
      (filter (\<lambda>e. edge_visible opts e \<and> \<not> edge_hidden db opts e) es) (shown_edges ocs) \<and>
    hidden_count ocs = length (filter (\<lambda>e. edge_visible opts e \<and> edge_hidden db opts e) es)"
  using assms
proof (induction es arbitrary: ocs)
  case (Cons e es)
  then obtain oc ocs' where o: "ocs = oc # ocs'" "pure_edge db opts e = Inr oc"
    "res_mapM (pure_edge db opts) es = Inr ocs'" by (auto simp: res_simps)
  from pure_edge_cases [OF o(2)] Cons.IH [OF o(3)] show ?case
    by (cases oc) (auto simp: o(1) hidden_count_def)
qed (simp add: hidden_count_def)

lemma res_mapM_list_all2: "res_mapM f xs = Inr ys \<Longrightarrow> list_all2 (\<lambda>x y. f x = Inr y) xs ys"
  by (induction xs arbitrary: ys) (auto simp: res_simps)

lemma materialize_edges_reports:
  assumes "materialize_edges wt file edges = Inr ces"
    and "list_all2 (\<lambda>e (r, c). r = e \<and> confidence_label c = rf_confidence e) es edges"
    and "\<And>e. e \<in> set es \<Longrightarrow> rf_from_file e = file"
  shows "list_all2 (edge_reports wt) es ces"
proof (cases "edges = []")
  case False
  then obtain path bytes where src: "contained_worktree_source wt file = Inr path"
    "read_indexed_source wt path ''read source file for graph callee line'' = Inr bytes"
    and m: "res_mapM (\<lambda>(edge, confidence).
        res_bind (i64_to_usize ''compute graph callee line'' (rf_from_span_start edge)) (\<lambda>from_span.
          Inr \<lparr>ce_target_name = rf_target_name edge, ce_target_qualified = rf_target_qualified edge,
                ce_confidence = confidence,
                ce_line = ci_line_for (callee_line_index_new bytes) from_span\<rparr>)) edges = Inr ces"
    using assms(1) unfolding materialize_edges_def Let_def by (auto simp: res_simps)
  have "list_all2 (\<lambda>e ce. e \<in> set es \<and> edge_reports wt e ce) es ces"
    using list_all2_trans [OF _ assms(2) res_mapM_list_all2 [OF m],
        of "\<lambda>e ce. rf_from_file e = file \<longrightarrow> edge_reports wt e ce"] src assms(3)
    by (fastforce simp: list_all2_conv_all_nth edge_reports_def i64_to_usize_def res_simps
        ci_line_for_new split: if_splits)
  then show ?thesis by (rule list_all2_mono) simp
qed (use assms in \<open>auto simp: materialize_edges_def\<close>)

text \<open>
  C21. A callee query that succeeds lists exactly the visible call edges inside the symbol's span
  that are not hidden, in call-site order, with the stored target and confidence and the line of
  the call; the hidden count is the number of visible unresolved edges without an indexed
  callable definition when hiding was asked for.
\<close>

theorem callees_run_exact:
  assumes "callees_run wt (Some db) sel opts = Inr rep"
    and "resolve_symbol_span db sel = Some span" "co_kind opts = None \<or> co_kind opts = Some Call"
  shows "list_all2 (edge_reports wt)
      (filter (\<lambda>e. edge_visible opts e \<and> \<not> edge_hidden db opts e) (edges_for_symbol db span))
      (cr_callees rep) \<and>
    cr_hidden_unresolved rep =
      length (filter (\<lambda>e. edge_visible opts e \<and> edge_hidden db opts e) (edges_for_symbol db span))"
proof -
  let ?es = "edges_for_symbol db span"
  have k: "\<not> (case co_kind opts of None \<Rightarrow> False | Some kind \<Rightarrow> kind \<noteq> Call)" using assms(3) by auto
  obtain ocs memo where s: "res_scan (edge_step db opts) Map.empty ?es = Inr (ocs, memo)"
    and m: "materialize_edges wt (sp_file_path span) (shown_edges ocs) = Inr (cr_callees rep)"
    and h: "cr_hidden_unresolved rep = hidden_count ocs"
    using assms(1) unfolding callees_run_def if_not_P [OF k] with_read_connection_def
    by (auto simp: assms(2) res_simps)
  have "res_map fst (res_scan (edge_step db opts) Map.empty ?es) = res_mapM (pure_edge db opts) ?es"
    by (rule edges_loop.scan_result) (simp add: memo_good_empty)
  with s have "res_mapM (pure_edge db opts) ?es = Inr ocs" by simp
  note o = pure_edges_outcomes [OF this]
  have "rf_from_file e = sp_file_path span" if "e \<in> set ?es" for e
    using that by (simp add: edges_for_symbol_def)
  then show ?thesis
    using o h materialize_edges_reports [OF m conjunct1 [OF o]] by simp
qed

theorem callees_run_exact_witness:
  "\<exists>rep. callees_run demo_repo (Some demo_db) (Symbol ''src/a.rs'' ''main'' ''function'') callee_opts_all =
       Inr rep \<and> length (cr_callees rep) = 1 \<and> cr_hidden_unresolved rep = 0"
proof -
  let ?sel = "Symbol ''src/a.rs'' ''main'' ''function''"
  let ?span = "\<lparr>sp_file_path = ''src/a.rs'', sp_span_start = 15, sp_span_end = 37\<rparr>"
  let ?run = "callees_run demo_repo (Some demo_db) ?sel callee_opts_all"
  have s: "resolve_symbol_span demo_db ?sel = Some ?span" by code_simp
  have "res_ok ?run \<noteq> None" by code_simp
  then obtain rep where r: "?run = Inr rep" by (auto simp: res_ok_Some_iff)
  have k: "co_kind callee_opts_all = None \<or> co_kind callee_opts_all = Some Call"
    by (simp add: callee_opts_all_def)
  have n: "length (filter (\<lambda>e. edge_visible callee_opts_all e \<and> \<not> edge_hidden demo_db callee_opts_all e)
      (edges_for_symbol demo_db ?span)) = 1"
    "length (filter (\<lambda>e. edge_visible callee_opts_all e \<and> edge_hidden demo_db callee_opts_all e)
      (edges_for_symbol demo_db ?span)) = 0"
    by code_simp+
  note c = callees_run_exact [OF r s k]
  have "length (cr_callees rep) = 1" using list_all2_lengthD [OF conjunct1 [OF c]] n(1) by (rule trans [OF sym])
  moreover have "cr_hidden_unresolved rep = 0" using conjunct2 [OF c] n(2) by (rule trans)
  ultimately show ?thesis using r by blast
qed

end
