(* ===== verification/Query_Impact.thy ===== *)
theory Query_Impact
  imports Query_Callees
begin

text \<open>
  The bounded blast-radius query (\<open>query/impact.rs\<close>): neighbour queries in both directions,
  selector resolution, the breadth-first traversal with its node cap, and the fuzzy fallback.

  The traversal is total: every node it adds uses up one of the \<open>IMPACT_NODE_CAP\<close> places, and
  puts at most one entry into the queue. The lemmas show the cap, that no node is listed twice,
  and that a traversal which is not truncated lists exactly the nodes within the depth bound,
  each at its distance from the origin.
\<close>

section \<open>Model\<close>

datatype impact_direction = Inbound | Outbound | Both

datatype impact_origin = OriginSymbol | OriginFile

definition DEFAULT_IMPACT_DEPTH :: nat where
  "DEFAULT_IMPACT_DEPTH = 3"

definition IMPACT_NODE_CAP :: nat where
  "IMPACT_NODE_CAP = 200"

record impact_entry =
  ie_qualified_name :: string
  ie_origin :: impact_origin
  ie_distance :: nat
  ie_edge_kind :: ref_kind
  ie_selector :: "string option"
  ie_file :: "string option"
  ie_line :: "nat option"

record impact_fallback =
  ib_confidence :: ref_confidence
  ib_touched :: "impact_entry list"
  ib_truncated :: bool
  ib_visited_nodes :: nat
  ib_note :: string

record impact_result =
  ir_direction :: impact_direction
  ir_touched :: "impact_entry list"
  ir_truncated :: bool
  ir_total :: "nat option"
  ir_visited_nodes :: nat
  ir_fallback_used :: bool
  ir_fallback :: "impact_fallback option"

text \<open>\<open>ImpactSymbol\<close> is the symbol row without its signature and parent columns.\<close>

type_synonym impact_symbol = symbol_row

datatype node_key = KeySymbol int | KeyFile string | KeyUnresolved string

record impact_neighbor =
  nb_qualified_name :: string
  nb_symbol_id :: "int option"
  nb_edge_kind :: ref_kind
  nb_origin :: impact_origin
  nb_site_offset :: "int option"

record raw_neighbor_row =
  rw_qualified_name :: "string option"
  rw_symbol_id :: "int option"
  rw_kind :: string
  rw_confidence :: string
  rw_origin :: impact_origin
  rw_site_offset :: "int option"

definition impact_empty_result :: "impact_direction \<Rightarrow> impact_result" where
  "impact_empty_result direction =
     \<lparr>ir_direction = direction, ir_touched = [], ir_truncated = False, ir_total = Some 0,
      ir_visited_nodes = 0, ir_fallback_used = False, ir_fallback = None\<rparr>"

definition confidence_visible_at_floor :: "string \<Rightarrow> ref_confidence \<Rightarrow> bool graph_result" where
  "confidence_visible_at_floor confidence min_confidence =
     res_bind (confidence_from_db confidence) (\<lambda>c. Inr (visible_at_floor c min_confidence))"

definition row_to_neighbor ::
  "ref_confidence \<Rightarrow> raw_neighbor_row \<Rightarrow> impact_neighbor option graph_result" where
  "row_to_neighbor min_confidence row =
     res_bind (confidence_visible_at_floor (rw_confidence row) min_confidence) (\<lambda>visible.
       if \<not> visible then Inr None
       else case rw_qualified_name row of
              None \<Rightarrow> Inr None
            | Some qualified_name \<Rightarrow>
                res_bind (ref_kind_from_db (rw_kind row)) (\<lambda>edge_kind.
                  Inr (Some \<lparr>nb_qualified_name = qualified_name, nb_symbol_id = rw_symbol_id row,
                             nb_edge_kind = edge_kind, nb_origin = rw_origin row,
                             nb_site_offset = rw_site_offset row\<rparr>)))"

definition rows_to_neighbors ::
  "raw_neighbor_row list \<Rightarrow> ref_confidence \<Rightarrow> impact_neighbor list graph_result" where
  "rows_to_neighbors rows min_confidence =
     res_map kept (res_mapM (row_to_neighbor min_confidence) rows)"

text \<open>The columns of the inbound statement: the innermost enclosing symbol, or the file.\<close>

definition inbound_raw_row :: "graph_db \<Rightarrow> ref_row \<Rightarrow> raw_neighbor_row" where
  "inbound_raw_row db r =
     (case enclosing_row db (rf_from_file r) (rf_from_span_start r) (rf_from_span_end r) of
        Some s \<Rightarrow> \<lparr>rw_qualified_name = Some (sy_qualified s), rw_symbol_id = Some (sy_id s),
                   rw_kind = rf_kind r, rw_confidence = rf_confidence r, rw_origin = OriginSymbol,
                   rw_site_offset = Some (rf_from_span_start r)\<rparr>
      | None \<Rightarrow> \<lparr>rw_qualified_name = Some (rf_from_file r), rw_symbol_id = None,
                 rw_kind = rf_kind r, rw_confidence = rf_confidence r, rw_origin = OriginFile,
                 rw_site_offset = Some (rf_from_span_start r)\<rparr>)"

definition inbound_ref_neighbors ::
  "graph_db \<Rightarrow> int \<Rightarrow> string \<Rightarrow> string \<Rightarrow> ref_confidence \<Rightarrow> impact_neighbor list graph_result" where
  "inbound_ref_neighbors db symbol_id qualified name min_confidence =
     rows_to_neighbors
       (map (inbound_raw_row db)
         (sort_key (\<lambda>r. (rf_from_file r, rf_from_span_start r, rf_id r))
           (filter (\<lambda>r. inbound_target_match db (Some symbol_id) qualified r \<or>
                       (min_confidence = FuzzyName \<and> rf_confidence r = ''fuzzy_name'' \<and>
                        rf_target_name r = name \<and> rf_kind r \<noteq> ''runtime_invocation'')) (db_refs db))))
       min_confidence"

definition outbound_edge ::
  "ref_confidence \<Rightarrow> ref_row \<Rightarrow> impact_neighbor option graph_result" where
  "outbound_edge min_confidence edge =
     res_bind (confidence_visible_at_floor (rf_confidence edge) min_confidence) (\<lambda>visible.
       Inr (if \<not> visible then None
            else map_option (\<lambda>qualified_name.
                   \<lparr>nb_qualified_name = qualified_name, nb_symbol_id = rf_target_symbol_hint edge,
                    nb_edge_kind = Call, nb_origin = OriginSymbol, nb_site_offset = None\<rparr>)
                 (rf_target_qualified edge)))"

definition outbound_call_neighbors ::
  "graph_db \<Rightarrow> impact_symbol \<Rightarrow> ref_confidence \<Rightarrow> impact_neighbor list graph_result" where
  "outbound_call_neighbors db symbol min_confidence =
     res_map kept (res_mapM (outbound_edge min_confidence)
       (edges_for_symbol db \<lparr>sp_file_path = sy_file_path symbol, sp_span_start = sy_span_start symbol,
                             sp_span_end = sy_span_end symbol\<rparr>))"

definition relation_rows ::
  "graph_db \<Rightarrow> (relation_row \<Rightarrow> string) \<Rightarrow> (relation_row \<Rightarrow> string) \<Rightarrow> string \<Rightarrow> ref_confidence \<Rightarrow>
     impact_neighbor list graph_result" where
  "relation_rows db column key qualified min_confidence =
     rows_to_neighbors
       (map (\<lambda>r. \<lparr>rw_qualified_name = Some (column r), rw_symbol_id = None, rw_kind = rl_kind r,
                  rw_confidence = rl_confidence r, rw_origin = OriginSymbol, rw_site_offset = None\<rparr>)
         (sort_key (\<lambda>r. (rl_def_file r, rl_def_span_start r, rl_id r))
           (filter (\<lambda>r. key r = qualified) (db_relations db))))
       min_confidence"

fun relation_neighbors ::
  "graph_db \<Rightarrow> string \<Rightarrow> ref_confidence \<Rightarrow> impact_direction \<Rightarrow> impact_neighbor list graph_result" where
  "relation_neighbors db qualified min_confidence Inbound =
     relation_rows db rl_from_qualified rl_to_qualified qualified min_confidence"
| "relation_neighbors db qualified min_confidence Outbound =
     relation_rows db rl_to_qualified rl_from_qualified qualified min_confidence"
| "relation_neighbors db qualified min_confidence Both =
     res_bind (relation_rows db rl_from_qualified rl_to_qualified qualified min_confidence) (\<lambda>inbound.
     res_bind (relation_rows db rl_to_qualified rl_from_qualified qualified min_confidence) (\<lambda>outbound.
       Inr (inbound @ outbound)))"

definition neighbors ::
  "graph_db \<Rightarrow> impact_symbol \<Rightarrow> ref_confidence \<Rightarrow> impact_direction \<Rightarrow> impact_neighbor list graph_result" where
  "neighbors db symbol min_confidence direction =
     (let inbound = inbound_ref_neighbors db (sy_id symbol) (sy_qualified symbol) (sy_name symbol)
                      min_confidence;
          outbound = outbound_call_neighbors db symbol min_confidence
      in res_bind (case direction of
                     Inbound \<Rightarrow> inbound
                   | Outbound \<Rightarrow> outbound
                   | Both \<Rightarrow> res_bind inbound (\<lambda>values. res_bind outbound (\<lambda>out. Inr (values @ out))))
           (\<lambda>refs. res_bind (relation_neighbors db (sy_qualified symbol) min_confidence direction)
             (\<lambda>relations. Inr (refs @ relations))))"

text \<open>Turning selectors and neighbours into symbols.\<close>

definition impact_symbol_row :: "graph_db \<Rightarrow> string \<Rightarrow> string \<Rightarrow> string \<Rightarrow> impact_symbol option" where
  "impact_symbol_row db path symbol kind =
     first_row (sort_key (\<lambda>s. (if sy_qualified s = symbol then 0 else if sy_name s = symbol then 1
                               else 2 :: nat, sy_id s))
       (filter (\<lambda>s. sy_file_path s = path \<and> sy_kind s = kind \<and>
                   (sy_name s = symbol \<or> sy_qualified s = symbol)) (db_symbols db)))"

definition resolve_symbol_selector ::
  "graph_db \<Rightarrow> string \<Rightarrow> string \<Rightarrow> string \<Rightarrow> impact_symbol option" where
  "resolve_symbol_selector db path symbol kind =
     (if trim_str kind = []
      then first_row (sort_key (\<lambda>s. (if sy_qualified s = symbol then 0 else if sy_name s = symbol then 1
                               else 2 :: nat, sy_id s))
             (filter (\<lambda>s. sy_file_path s = path \<and> (sy_name s = symbol \<or> sy_qualified s = symbol))
               (db_symbols db)))
      else impact_symbol_row db path symbol kind)"

definition resolve_module_selector :: "graph_db \<Rightarrow> string \<Rightarrow> impact_symbol option" where
  "resolve_module_selector db qualified =
     first_row (sort_key (\<lambda>s. (if sy_qualified s = qualified then 0 else if sy_name s = qualified then 1
                               else 2 :: nat, sy_id s))
       (filter (\<lambda>s. sy_kind s = ''module'' \<and> (sy_qualified s = qualified \<or> sy_name s = qualified))
         (db_symbols db)))"

text \<open>\<open>commands c JOIN symbols s ON s.id = c.handler_symbol\<close>; a command name is a primary key.\<close>

definition command_handler_row :: "graph_db \<Rightarrow> string \<Rightarrow> symbol_row option" where
  "command_handler_row db name =
     first_row (concat (map (\<lambda>c. filter (\<lambda>s. cm_handler_symbol c = Some (sy_id s)) (db_symbols db))
       (filter (\<lambda>c. cm_name c = name) (db_commands db))))"

definition resolve_selector :: "graph_db \<Rightarrow> selector \<Rightarrow> impact_symbol option" where
  "resolve_selector db sel =
     (case sel of
        Symbol path symbol kind \<Rightarrow> resolve_symbol_selector db path symbol kind
      | Module qualified \<Rightarrow> resolve_module_selector db qualified
      | Command name \<Rightarrow> command_handler_row db name
      | File path \<Rightarrow> None
      | Dir path \<Rightarrow> None)"

definition resolve_symbol_by_qualified :: "graph_db \<Rightarrow> string \<Rightarrow> impact_symbol option" where
  "resolve_symbol_by_qualified db qualified =
     first_row (sort_key sy_id (filter (\<lambda>s. sy_qualified s = qualified) (db_symbols db)))"

definition hinted_symbol :: "graph_db \<Rightarrow> int option \<Rightarrow> string \<Rightarrow> symbol_row option" where
  "hinted_symbol db hint qualified =
     (case hint of
        None \<Rightarrow> None
      | Some i \<Rightarrow> first_row (filter (\<lambda>s. sy_id s = i \<and> sy_qualified s = qualified) (db_symbols db)))"

definition resolve_neighbor_symbol :: "graph_db \<Rightarrow> impact_neighbor \<Rightarrow> impact_symbol option" where
  "resolve_neighbor_symbol db neighbor =
     (if nb_origin neighbor = OriginFile then None
      else case hinted_symbol db (nb_symbol_id neighbor) (nb_qualified_name neighbor) of
             Some s \<Rightarrow> Some s
           | None \<Rightarrow> resolve_symbol_by_qualified db (nb_qualified_name neighbor))"

text \<open>\<open>locate\<close>; line numbers are best effort (\<open>.ok()\<close>), and a failed read leaves the cache as it was.\<close>

definition line_or_none ::
  "worktree \<Rightarrow> line_cache \<Rightarrow> string \<Rightarrow> int \<Rightarrow> nat option \<times> line_cache" where
  "line_or_none wt cache file offset =
     (case cache_line_for wt cache file offset of
        Inl _ \<Rightarrow> (None, cache)
      | Inr (line, cache') \<Rightarrow> (Some line, cache'))"

definition locate ::
  "worktree \<Rightarrow> line_cache \<Rightarrow> impact_neighbor \<Rightarrow> impact_symbol option \<Rightarrow>
     (string option \<times> string option \<times> nat option) \<times> line_cache" where
  "locate wt cache neighbor resolved =
     (if nb_origin neighbor = OriginFile
      then let file = nb_qualified_name neighbor;
               (line, cache') = (case nb_site_offset neighbor of
                                   None \<Rightarrow> (None, cache)
                                 | Some offset \<Rightarrow> line_or_none wt cache file offset)
           in ((Some (''file:'' @ file), Some file, line), cache')
      else case resolved of
             None \<Rightarrow> ((None, None, None), cache)
           | Some symbol \<Rightarrow>
               (let (line, cache') = line_or_none wt cache (sy_file_path symbol) (sy_span_start symbol)
                in ((Some (symbol_selector (sy_file_path symbol) (sy_qualified symbol) (sy_kind symbol)),
                     Some (sy_file_path symbol), line), cache')))"

section \<open>The traversal\<close>

definition neighbor_key :: "graph_db \<Rightarrow> impact_neighbor \<Rightarrow> node_key" where
  "neighbor_key db neighbor =
     (case resolve_neighbor_symbol db neighbor of
        Some symbol \<Rightarrow> KeySymbol (sy_id symbol)
      | None \<Rightarrow> if nb_origin neighbor = OriginFile then KeyFile (nb_qualified_name neighbor)
                else KeyUnresolved (nb_qualified_name neighbor))"

record bfs_state =
  bq :: "(impact_symbol \<times> nat) list"
  bseen :: "node_key list"
  btouched :: "impact_entry list"
  blines :: line_cache

text \<open>Adding one unseen neighbour.\<close>

definition add_neighbor ::
  "worktree \<Rightarrow> graph_db \<Rightarrow> nat \<Rightarrow> nat \<Rightarrow> impact_neighbor \<Rightarrow> bfs_state \<Rightarrow> bfs_state" where
  "add_neighbor wt db max_depth next_distance neighbor st =
     (let resolved = resolve_neighbor_symbol db neighbor;
          ((selector, file, line), cache) = locate wt (blines st) neighbor resolved
      in \<lparr>bq = bq st @ (case resolved of
                          Some next_symbol \<Rightarrow>
                            if next_distance < max_depth then [(next_symbol, next_distance)] else []
                        | None \<Rightarrow> []),
          bseen = neighbor_key db neighbor # bseen st,
          btouched = btouched st @
            [\<lparr>ie_qualified_name = nb_qualified_name neighbor, ie_origin = nb_origin neighbor,
              ie_distance = next_distance, ie_edge_kind = nb_edge_kind neighbor,
              ie_selector = selector, ie_file = file, ie_line = line\<rparr>],
          blines = cache\<rparr>)"

text \<open>The loop over the neighbours of one symbol; \<open>True\<close> is \<open>break 'bfs\<close> at the cap.\<close>

fun visit ::
  "worktree \<Rightarrow> graph_db \<Rightarrow> nat \<Rightarrow> nat \<Rightarrow> impact_neighbor list \<Rightarrow> bfs_state \<Rightarrow> bfs_state \<times> bool" where
  "visit wt db max_depth next_distance [] st = (st, False)"
| "visit wt db max_depth next_distance (neighbor # ns) st =
     (if neighbor_key db neighbor \<in> set (bseen st)
      then visit wt db max_depth next_distance ns st
      else if length (btouched st) \<ge> IMPACT_NODE_CAP then (st, True)
      else visit wt db max_depth next_distance ns
             (add_neighbor wt db max_depth next_distance neighbor st))"

definition bfs_measure :: "bfs_state \<Rightarrow> nat" where
  "bfs_measure st = 2 * (IMPACT_NODE_CAP - length (btouched st)) + length (bq st)"

lemma add_neighbor_simps [simp]:
  "length (btouched (add_neighbor wt db m d n st)) = Suc (length (btouched st))"
  "length (bq (add_neighbor wt db m d n st)) \<le> Suc (length (bq st))"
  by (auto simp: add_neighbor_def Let_def split: prod.splits option.splits)

lemma visit_measure: "bfs_measure (fst (visit wt db m d ns st)) \<le> bfs_measure st"
proof (induction ns arbitrary: st)
  case (Cons n ns)
  have "bfs_measure (add_neighbor wt db m d n st) \<le> bfs_measure st"
    if "length (btouched st) < IMPACT_NODE_CAP"
    using that add_neighbor_simps(2) [of wt db m d n st]
    unfolding bfs_measure_def add_neighbor_simps(1) by linarith
  with Cons.IH [of st] Cons.IH [of "add_neighbor wt db m d n st"] show ?case by auto
qed simp

lemma res_bind_cong [fundef_cong]:
  "m = m' \<Longrightarrow> (\<And>x. m' = Inr x \<Longrightarrow> f x = g x) \<Longrightarrow> res_bind m f = res_bind m' g"
  by (cases m') auto

function traverse_loop ::
  "worktree \<Rightarrow> graph_db \<Rightarrow> nat \<Rightarrow> ref_confidence \<Rightarrow> impact_direction \<Rightarrow> bfs_state \<Rightarrow>
     (bfs_state \<times> bool) graph_result" where
  "traverse_loop wt db max_depth floor direction st =
     (case bq st of
        [] \<Rightarrow> Inr (st, False)
      | (symbol, distance) # queue \<Rightarrow>
          if distance \<ge> max_depth
          then traverse_loop wt db max_depth floor direction (st\<lparr>bq := queue\<rparr>)
          else res_bind (neighbors db symbol floor direction) (\<lambda>ns.
                 let (st', truncated) = visit wt db max_depth (distance + 1) ns (st\<lparr>bq := queue\<rparr>)
                 in if truncated then Inr (st', True)
                    else traverse_loop wt db max_depth floor direction st'))"
  by pat_completeness auto
termination
proof (relation "measure (\<lambda>(wt, db, max_depth, floor, direction, st). bfs_measure st)", goal_cases)
  case (2 wt db max_depth floor direction st p queue symbol distance)
  then show ?case by (auto simp: bfs_measure_def)
next
  case (3 wt db max_depth floor direction st p queue symbol distance ns r st' truncated)
  have "bfs_measure st' \<le> bfs_measure (st\<lparr>bq := queue\<rparr>)"
    using visit_measure [of wt db max_depth "distance + 1" ns "st\<lparr>bq := queue\<rparr>"] 3 by (metis fst_conv)
  also have "\<dots> < bfs_measure st" using 3 by (auto simp: bfs_measure_def)
  finally show ?case by simp
qed simp

declare traverse_loop.simps [simp del]

definition bfs_start :: "line_cache \<Rightarrow> impact_symbol \<Rightarrow> bfs_state" where
  "bfs_start cache origin =
     \<lparr>bq = [(origin, 0)], bseen = [KeySymbol (sy_id origin)], btouched = [], blines = cache\<rparr>"

definition traverse ::
  "worktree \<Rightarrow> graph_db \<Rightarrow> line_cache \<Rightarrow> impact_symbol \<Rightarrow> nat \<Rightarrow> ref_confidence \<Rightarrow> impact_direction \<Rightarrow>
     ((impact_entry list \<times> bool) \<times> line_cache) graph_result" where
  "traverse wt db cache origin max_depth floor direction =
     res_bind (traverse_loop wt db max_depth floor direction (bfs_start cache origin))
       (\<lambda>(st, truncated). Inr ((btouched st, truncated), blines st))"

definition impact_note :: "ref_confidence \<Rightarrow> nat \<Rightarrow> string" where
  "impact_note confidence n =
     ''No impacted symbols resolved at the `'' @ confidence_label confidence @
     ''` confidence floor; showing '' @ show_nat n @
     '' match(es) found at the `fuzzy_name` fallback floor. These are name-only matches and may include unrelated symbols sharing the name; check each entry before acting.''"

definition impact_fuzzy_fallback ::
  "worktree \<Rightarrow> graph_db \<Rightarrow> line_cache \<Rightarrow> impact_symbol \<Rightarrow> nat \<Rightarrow> ref_confidence \<Rightarrow> impact_entry list \<Rightarrow>
     impact_direction \<Rightarrow> impact_fallback option graph_result" where
  "impact_fuzzy_fallback wt db cache origin max_depth min_confidence touched direction =
     (if touched \<noteq> [] \<or> min_confidence = FuzzyName then Inr None
      else res_bind (traverse wt db cache origin max_depth FuzzyName direction)
             (\<lambda>((fallback, truncated), _).
               if fallback = [] then Inr None
               else Inr (Some \<lparr>ib_confidence = FuzzyName, ib_touched = fallback,
                               ib_truncated = truncated, ib_visited_nodes = length fallback,
                               ib_note = impact_note min_confidence (length fallback)\<rparr>)))"

text \<open>\<open>run\<close>; the depth is a \<open>u8\<close>, and zero asks for the default.\<close>

definition impact_run ::
  "worktree \<Rightarrow> graph_db option \<Rightarrow> selector \<Rightarrow> nat \<Rightarrow> ref_confidence \<Rightarrow> impact_direction \<Rightarrow>
     impact_result graph_result" where
  "impact_run wt conn sel depth min_confidence direction =
     with_read_connection conn (\<lambda>db.
       case resolve_selector db sel of
         None \<Rightarrow> Inr (impact_empty_result direction)
       | Some origin \<Rightarrow>
           (let max_depth = (if depth = 0 then DEFAULT_IMPACT_DEPTH else depth) in
            res_bind (traverse wt db Map.empty origin max_depth min_confidence direction)
              (\<lambda>((touched, truncated), cache).
            res_bind (impact_fuzzy_fallback wt db cache origin max_depth min_confidence touched direction)
              (\<lambda>fallback.
                Inr \<lparr>ir_direction = direction, ir_touched = touched, ir_truncated = truncated,
                      ir_total = (if truncated then None else Some (length touched)),
                      ir_visited_nodes = length touched,
                      ir_fallback_used = (fallback \<noteq> None), ir_fallback = fallback\<rparr>))))"

interpretation impact_lookup: symbol_lookup impact_symbol_row
  by (rule symbol_lookup_first_row [where P = selected and
        key = "\<lambda>symbol s. (if sy_qualified s = symbol then 0 else if sy_name s = symbol then 1
                          else 2 :: nat, sy_id s)"])
     (auto simp: impact_symbol_row_def selected_def [abs_def] preferred_def split: if_splits)

section \<open>Walks\<close>

text \<open>
  The graph the traversal explores. A walk goes from symbol to symbol along neighbours that
  resolve; a node is reached by a last step to any neighbour, resolved or not.
\<close>

type_synonym neighbor_fun = "impact_symbol \<Rightarrow> impact_neighbor list graph_result"

inductive walk :: "graph_db \<Rightarrow> neighbor_fun \<Rightarrow> impact_symbol \<Rightarrow> nat \<Rightarrow> impact_symbol \<Rightarrow> bool"
  for db nbrs origin where
  walk_0: "walk db nbrs origin 0 origin"
| walk_Suc: "walk db nbrs origin n s \<Longrightarrow> nbrs s = Inr ns \<Longrightarrow> nb \<in> set ns \<Longrightarrow>
     resolve_neighbor_symbol db nb = Some t \<Longrightarrow> walk db nbrs origin (Suc n) t"

inductive_cases walk_0E: "walk db nbrs origin 0 t"
inductive_cases walk_SucE: "walk db nbrs origin (Suc n) t"

definition reaches :: "graph_db \<Rightarrow> neighbor_fun \<Rightarrow> impact_symbol \<Rightarrow> nat \<Rightarrow> node_key \<Rightarrow> bool" where
  "reaches db nbrs origin n k \<longleftrightarrow>
     (\<exists>m s ns nb. n = Suc m \<and> walk db nbrs origin m s \<and> nbrs s = Inr ns \<and> nb \<in> set ns \<and>
        neighbor_key db nb = k)"

lemma hinted_symbol_SomeD:
  "hinted_symbol db h q = Some s \<Longrightarrow> s \<in> set (db_symbols db) \<and> sy_qualified s = q"
  by (auto simp: hinted_symbol_def dest!: first_row_SomeD split: option.splits)

lemma resolve_symbol_by_qualified_SomeD:
  "resolve_symbol_by_qualified db q = Some s \<Longrightarrow> s \<in> set (db_symbols db) \<and> sy_qualified s = q"
  by (auto simp: resolve_symbol_by_qualified_def dest!: first_row_sort_key_mem)

lemma resolve_neighbor_symbol_SomeD:
  "resolve_neighbor_symbol db nb = Some s \<Longrightarrow>
   s \<in> set (db_symbols db) \<and> sy_qualified s = nb_qualified_name nb \<and> nb_origin nb = OriginSymbol"
  by (cases "nb_origin nb")
     (auto simp: resolve_neighbor_symbol_def dest: hinted_symbol_SomeD resolve_symbol_by_qualified_SomeD
      split: option.splits if_splits)

lemma neighbor_key_Some: "resolve_neighbor_symbol db nb = Some s \<Longrightarrow> neighbor_key db nb = KeySymbol (sy_id s)"
  by (simp add: neighbor_key_def)

lemma neighbor_key_KeySymbolD:
  "neighbor_key db nb = KeySymbol i \<Longrightarrow> \<exists>s. resolve_neighbor_symbol db nb = Some s \<and> sy_id s = i"
  by (auto simp: neighbor_key_def split: option.splits if_splits)

lemma walk_in_symbols:
  "walk db nbrs origin n s \<Longrightarrow> origin \<in> set (db_symbols db) \<Longrightarrow> s \<in> set (db_symbols db)"
  by (induction rule: walk.induct) (auto dest: resolve_neighbor_symbol_SomeD)

lemma reaches_symbol_walk:
  assumes "reaches db nbrs origin n (KeySymbol (sy_id s))" "db_keys_ok db" "s \<in> set (db_symbols db)"
  shows "walk db nbrs origin n s"
proof -
  obtain m t ns nb where n: "n = Suc m" "walk db nbrs origin m t" "nbrs t = Inr ns" "nb \<in> set ns"
    and k: "neighbor_key db nb = KeySymbol (sy_id s)" using assms(1) by (auto simp: reaches_def)
  obtain u where u: "resolve_neighbor_symbol db nb = Some u" "sy_id u = sy_id s"
    using neighbor_key_KeySymbolD [OF k] by blast
  then have "u = s" using assms(2,3) resolve_neighbor_symbol_SomeD by (blast intro: symbol_by_id_unique)
  with n u show ?thesis by (auto intro: walk_Suc)
qed

section \<open>The invariant of the traversal\<close>

text \<open>Each node seen so far with its distance; the origin comes first.\<close>

definition node_dists :: "bfs_state \<Rightarrow> (node_key \<times> nat) list" where
  "node_dists st = zip (rev (bseen st)) (0 # map ie_distance (btouched st))"

definition expanded :: "graph_db \<Rightarrow> neighbor_fun \<Rightarrow> bfs_state \<Rightarrow> impact_symbol \<Rightarrow> nat \<Rightarrow> bool" where
  "expanded db nbrs st s d \<longleftrightarrow>
     (\<exists>ns. nbrs s = Inr ns \<and>
        (\<forall>nb \<in> set ns. \<exists>d' \<le> Suc d. (neighbor_key db nb, d') \<in> set (node_dists st)))"

text \<open>
  \<open>level\<close> is the distance being expanded, \<open>pending\<close> the symbols whose neighbours are being
  visited.
\<close>

record bfs_frame =
  fr_db :: graph_db
  fr_nbrs :: neighbor_fun
  fr_origin :: impact_symbol
  fr_depth :: nat

definition dists_ok :: "bfs_frame \<Rightarrow> nat \<Rightarrow> bfs_state \<Rightarrow> bool" where
  "dists_ok fr level st \<longleftrightarrow>
     length (bseen st) = Suc (length (btouched st)) \<and> distinct (bseen st) \<and>
     (KeySymbol (sy_id (fr_origin fr)), 0) \<in> set (node_dists st) \<and>
     (\<forall>(k, d) \<in> set (node_dists st). d = 0 \<and> k = KeySymbol (sy_id (fr_origin fr)) \<or>
        d \<le> fr_depth fr \<and> reaches (fr_db fr) (fr_nbrs fr) (fr_origin fr) d k) \<and>
     sorted (map ie_distance (btouched st)) \<and> (\<forall>e \<in> set (btouched st). ie_distance e \<le> Suc level)"

definition queue_ok :: "bfs_frame \<Rightarrow> nat \<Rightarrow> bfs_state \<Rightarrow> bool" where
  "queue_ok fr level st \<longleftrightarrow>
     sorted (map snd (bq st)) \<and>
     (\<forall>(s, d) \<in> set (bq st). level \<le> d \<and> d \<le> Suc level \<and> s \<in> set (db_symbols (fr_db fr)) \<and>
        walk (fr_db fr) (fr_nbrs fr) (fr_origin fr) d s \<and>
        (KeySymbol (sy_id s), d) \<in> set (node_dists st))"

definition closed_except :: "bfs_frame \<Rightarrow> impact_symbol set \<Rightarrow> bfs_state \<Rightarrow> bool" where
  "closed_except fr pending st \<longleftrightarrow>
     (\<forall>s d. s \<in> set (db_symbols (fr_db fr)) \<longrightarrow> (KeySymbol (sy_id s), d) \<in> set (node_dists st) \<longrightarrow>
        d < fr_depth fr \<longrightarrow> s \<notin> pending \<longrightarrow>
        (s, d) \<in> set (bq st) \<or> expanded (fr_db fr) (fr_nbrs fr) st s d)"

definition bfs_inv :: "bfs_frame \<Rightarrow> nat \<Rightarrow> impact_symbol set \<Rightarrow> bfs_state \<Rightarrow> bool" where
  "bfs_inv fr level pending st \<longleftrightarrow>
     dists_ok fr level st \<and> queue_ok fr level st \<and> closed_except fr pending st"

lemmas bfs_defs = bfs_inv_def dists_ok_def queue_ok_def closed_except_def

lemma node_dists_add:
  assumes "length (bseen st) = Suc (length (btouched st))"
  shows "node_dists (add_neighbor wt db m d nb st) = node_dists st @ [(neighbor_key db nb, d)]"
  using zip_append [of "rev (bseen st)" "0 # map ie_distance (btouched st)" "[neighbor_key db nb]" "[d]"] assms
  by (auto simp: add_neighbor_def node_dists_def Let_def split: prod.splits)

lemma fst_node_dists:
  "length (bseen st) = Suc (length (btouched st)) \<Longrightarrow> map fst (node_dists st) = rev (bseen st)"
  by (simp add: node_dists_def)

lemma node_dists_unique:
  assumes "dists_ok fr level st" "(k, d) \<in> set (node_dists st)" "(k, d') \<in> set (node_dists st)"
  shows "d = d'"
proof -
  have "distinct (map fst (node_dists st))" using assms(1) by (simp add: dists_ok_def fst_node_dists)
  from eq_key_imp_eq_value [OF this assms(2,3)] show ?thesis .
qed

lemma node_dists_level:
  "dists_ok fr level st \<Longrightarrow> (k, d) \<in> set (node_dists st) \<Longrightarrow> d \<le> Suc level"
  by (auto simp: dists_ok_def node_dists_def dest!: set_zip_rightD)

lemma node_dists_mem:
  "length (bseen st) = Suc (length (btouched st)) \<Longrightarrow> k \<in> set (bseen st) \<Longrightarrow> \<exists>d. (k, d) \<in> set (node_dists st)"
  using fst_node_dists [of st] by (metis (no_types, lifting) imageE list.set_map prod.collapse set_rev)

lemma bq_add:
  "bq (add_neighbor wt db m d nb st) = bq st @ (case resolve_neighbor_symbol db nb of
     Some s \<Rightarrow> if d < m then [(s, d)] else [] | None \<Rightarrow> [])"
  "bseen (add_neighbor wt db m d nb st) = neighbor_key db nb # bseen st"
  "map ie_distance (btouched (add_neighbor wt db m d nb st)) = map ie_distance (btouched st) @ [d]"
  by (simp_all add: add_neighbor_def Let_def split: prod.splits)

lemma expanded_mono:
  "expanded db nbrs st s d \<Longrightarrow> set (node_dists st) \<subseteq> set (node_dists st') \<Longrightarrow> expanded db nbrs st' s d"
  unfolding expanded_def by blast

section \<open>Preservation\<close>

lemma dists_ok_add:
  assumes inv: "dists_ok fr level st" and "level < fr_depth fr"
    and new: "neighbor_key (fr_db fr) nb \<notin> set (bseen st)"
    and reach: "reaches (fr_db fr) (fr_nbrs fr) (fr_origin fr) (Suc level) (neighbor_key (fr_db fr) nb)"
  shows "dists_ok fr level (add_neighbor wt (fr_db fr) (fr_depth fr) (Suc level) nb st)"
    (is "dists_ok fr level ?st")
proof -
  have len: "length (bseen st) = Suc (length (btouched st))" using inv by (simp add: dists_ok_def)
  have "ie_distance ` set (btouched ?st) = insert (Suc level) (ie_distance ` set (btouched st))"
    using arg_cong [OF bq_add(3), of set wt "fr_db fr" "fr_depth fr" "Suc level" nb st] by simp
  then have "\<forall>e \<in> set (btouched ?st). ie_distance e \<le> Suc level"
    using inv unfolding dists_ok_def by (metis (no_types, lifting) image_eqI imageE insertE order_refl)
  moreover have "sorted (map ie_distance (btouched ?st))"
    using inv unfolding bq_add(3) by (auto simp: dists_ok_def sorted_append)
  ultimately show ?thesis
    using assms unfolding dists_ok_def node_dists_add [OF len] bq_add(2) add_neighbor_simps(1)
    by auto
qed

lemma queue_ok_add:
  assumes "dists_ok fr level st" "queue_ok fr level st"
    and step: "walk (fr_db fr) (fr_nbrs fr) (fr_origin fr) level s" "fr_nbrs fr s = Inr ns" "nb \<in> set ns"
  shows "queue_ok fr level (add_neighbor wt (fr_db fr) (fr_depth fr) (Suc level) nb st)"
    (is "queue_ok fr level ?st")
proof -
  have len: "length (bseen st) = Suc (length (btouched st))" using assms(1) by (simp add: dists_ok_def)
  have sub: "set (node_dists st) \<subseteq> set (node_dists ?st)" by (auto simp: node_dists_add [OF len])
  show ?thesis
  proof (cases "resolve_neighbor_symbol (fr_db fr) nb")
    case None
    with assms(2) sub show ?thesis by (auto simp: queue_ok_def bq_add(1))
  next
    case (Some t)
    have "walk (fr_db fr) (fr_nbrs fr) (fr_origin fr) (Suc level) t" "t \<in> set (db_symbols (fr_db fr))"
      using walk_Suc [OF step Some] resolve_neighbor_symbol_SomeD [OF Some] by auto
    moreover have "(KeySymbol (sy_id t), Suc level) \<in> set (node_dists ?st)"
      using Some by (simp add: node_dists_add [OF len] neighbor_key_Some)
    ultimately show ?thesis
      using assms(2) sub Some unfolding queue_ok_def bq_add(1)
      by (fastforce simp: sorted_append)
  qed
qed

lemma closed_except_add:
  assumes "db_keys_ok (fr_db fr)" "dists_ok fr level st" "closed_except fr pending st"
  shows "closed_except fr pending (add_neighbor wt (fr_db fr) (fr_depth fr) (Suc level) nb st)"
    (is "closed_except fr pending ?st")
proof -
  have len: "length (bseen st) = Suc (length (btouched st))" using assms(2) by (simp add: dists_ok_def)
  have sub: "set (node_dists st) \<subseteq> set (node_dists ?st)" by (auto simp: node_dists_add [OF len])
  have bqsub: "set (bq st) \<subseteq> set (bq ?st)" by (simp add: bq_add(1))
  show ?thesis
    unfolding closed_except_def
  proof (intro allI impI)
    fix s d
    assume s: "s \<in> set (db_symbols (fr_db fr))" "(KeySymbol (sy_id s), d) \<in> set (node_dists ?st)"
      "d < fr_depth fr" "s \<notin> pending"
    then consider "(KeySymbol (sy_id s), d) \<in> set (node_dists st)"
      | "neighbor_key (fr_db fr) nb = KeySymbol (sy_id s)" "d = Suc level"
      by (auto simp: node_dists_add [OF len])
    then show "(s, d) \<in> set (bq ?st) \<or> expanded (fr_db fr) (fr_nbrs fr) ?st s d"
    proof cases
      case 1
      with s assms(3) have "(s, d) \<in> set (bq st) \<or> expanded (fr_db fr) (fr_nbrs fr) st s d"
        unfolding closed_except_def by blast
      with bqsub sub show ?thesis by (auto intro: expanded_mono)
    next
      case 2
      obtain t where t: "resolve_neighbor_symbol (fr_db fr) nb = Some t" "sy_id t = sy_id s"
        using neighbor_key_KeySymbolD [OF 2(1)] by blast
      with s(1) assms(1) have "t = s"
        using resolve_neighbor_symbol_SomeD by (blast intro: symbol_by_id_unique)
      with t 2 s(3) show ?thesis by (simp add: bq_add(1))
    qed
  qed
qed

lemma visit_inv:
  assumes "visit wt (fr_db fr) (fr_depth fr) (Suc level) ns' st = (st', b)"
    and "bfs_inv fr level pending st" "db_keys_ok (fr_db fr)" "level < fr_depth fr"
    and "walk (fr_db fr) (fr_nbrs fr) (fr_origin fr) level s" "fr_nbrs fr s = Inr ns" "set ns' \<subseteq> set ns"
  shows "bfs_inv fr level pending st' \<and> set (node_dists st) \<subseteq> set (node_dists st') \<and>
    (\<not> b \<longrightarrow> (\<forall>nb \<in> set ns'. \<exists>d \<le> Suc level. (neighbor_key (fr_db fr) nb, d) \<in> set (node_dists st')))"
  using assms(1,2,7)
proof (induction ns' arbitrary: st)
  case (Cons nb ns')
  let ?k = "neighbor_key (fr_db fr) nb"
  let ?st = "add_neighbor wt (fr_db fr) (fr_depth fr) (Suc level) nb st"
  have inv: "dists_ok fr level st" "queue_ok fr level st" "closed_except fr pending st"
    using Cons.prems(2) by (auto simp: bfs_inv_def)
  then have len: "length (bseen st) = Suc (length (btouched st))" by (simp add: dists_ok_def)
  consider "?k \<in> set (bseen st)" | "?k \<notin> set (bseen st)" "length (btouched st) \<ge> IMPACT_NODE_CAP"
    | "?k \<notin> set (bseen st)" "length (btouched st) < IMPACT_NODE_CAP" by linarith
  then show ?case
  proof cases
    case 1
    then obtain d where d: "(?k, d) \<in> set (node_dists st)" using node_dists_mem [OF len] by blast
    then have "d \<le> Suc level" using node_dists_level [OF inv(1)] by blast
    moreover have "visit wt (fr_db fr) (fr_depth fr) (Suc level) ns' st = (st', b)"
      using 1 Cons.prems(1) by simp
    ultimately show ?thesis using Cons.IH [of st] Cons.prems d by auto
  next
    case 2
    with Cons.prems show ?thesis by simp
  next
    case 3
    have nb: "nb \<in> set ns" using Cons.prems(3) by simp
    have "reaches (fr_db fr) (fr_nbrs fr) (fr_origin fr) (Suc level) ?k"
      using assms(5,6) nb by (auto simp: reaches_def)
    then have "bfs_inv fr level pending ?st"
      using dists_ok_add [OF inv(1) assms(4) 3(1)] queue_ok_add [OF inv(1,2) assms(5,6) nb]
        closed_except_add [OF assms(3) inv(1,3)] by (simp add: bfs_inv_def)
    moreover have "visit wt (fr_db fr) (fr_depth fr) (Suc level) ns' ?st = (st', b)"
      using 3 Cons.prems(1) by simp
    ultimately show ?thesis
      using Cons.IH [of ?st] Cons.prems(3) by (auto simp: node_dists_add [OF len])
  qed
qed simp

text \<open>Popping the head of the queue: its distance becomes the level.\<close>

lemma bfs_inv_pop:
  assumes "bfs_inv fr level {} st" "bq st = (s, d) # queue"
  shows "bfs_inv fr d {s} (st\<lparr>bq := queue\<rparr>)"
    and "walk (fr_db fr) (fr_nbrs fr) (fr_origin fr) d s"
    and "s \<in> set (db_symbols (fr_db fr))" "(KeySymbol (sy_id s), d) \<in> set (node_dists st)"
proof -
  have nd: "node_dists (st\<lparr>bq := queue\<rparr>) = node_dists st" by (simp add: node_dists_def)
  have d: "level \<le> d" using assms by (auto simp: bfs_inv_def queue_ok_def)
  have "dists_ok fr d (st\<lparr>bq := queue\<rparr>)"
    using assms(1) d by (auto simp: bfs_inv_def dists_ok_def node_dists_def)
  moreover have "queue_ok fr d (st\<lparr>bq := queue\<rparr>)"
    using assms d by (fastforce simp: bfs_inv_def queue_ok_def nd)
  moreover have "closed_except fr {s} (st\<lparr>bq := queue\<rparr>)"
    using assms unfolding bfs_inv_def closed_except_def expanded_def nd by auto
  ultimately show "bfs_inv fr d {s} (st\<lparr>bq := queue\<rparr>)" by (simp add: bfs_inv_def)
  show "walk (fr_db fr) (fr_nbrs fr) (fr_origin fr) d s" "s \<in> set (db_symbols (fr_db fr))"
    "(KeySymbol (sy_id s), d) \<in> set (node_dists st)"
    using assms by (auto simp: bfs_inv_def queue_ok_def)
qed

lemma bfs_inv_unpend:
  assumes "bfs_inv fr level {s} st" "(KeySymbol (sy_id s), d) \<in> set (node_dists st)"
    and "d < fr_depth fr \<longrightarrow> expanded (fr_db fr) (fr_nbrs fr) st s d"
  shows "bfs_inv fr level {} st"
  using assms node_dists_unique unfolding bfs_inv_def closed_except_def by blast

lemma traverse_loop_inv:
  assumes "traverse_loop wt db depth floor direction st = Inr (st', b)"
    and "fr = \<lparr>fr_db = db, fr_nbrs = (\<lambda>s. neighbors db s floor direction), fr_origin = origin,
               fr_depth = depth\<rparr>"
    and "db_keys_ok db" "bfs_inv fr level {} st"
  shows "\<exists>level' pending. bfs_inv fr level' pending st' \<and> (\<not> b \<longrightarrow> bq st' = [] \<and> pending = {})"
  using assms
proof (induction wt db depth floor direction st arbitrary: level rule: traverse_loop.induct)
  case (1 wt db depth floor direction st)
  show ?case
  proof (cases "bq st")
    case Nil
    with 1 show ?thesis by (subst (asm) (3) traverse_loop.simps) auto
  next
    case (Cons p queue)
    obtain s d where p: "p = (s, d)" by (cases p)
    note q = Cons [unfolded p]
    note pop = bfs_inv_pop [OF "1.prems"(4) q]
    show ?thesis
    proof (cases "d \<ge> depth")
      case True
      have run: "traverse_loop wt db depth floor direction (st\<lparr>bq := queue\<rparr>) = Inr (st', b)"
        using "1.prems"(1) q True by (subst (asm) traverse_loop.simps) simp
      have "bfs_inv fr d {} (st\<lparr>bq := queue\<rparr>)"
        using bfs_inv_unpend [OF pop(1), of d] pop(4) True "1.prems"(2) by (simp add: node_dists_def)
      with "1.IH"(1) [OF q refl True run "1.prems"(2,3)] show ?thesis .
    next
      case False
      obtain ns where ns: "neighbors db s floor direction = Inr ns"
        using "1.prems"(1) q False
        by (subst (asm) traverse_loop.simps) (cases "neighbors db s floor direction"; simp)
      obtain st1 b1 where v: "visit wt db depth (d + 1) ns (st\<lparr>bq := queue\<rparr>) = (st1, b1)"
        by (cases "visit wt db depth (d + 1) ns (st\<lparr>bq := queue\<rparr>)")
      have run: "(if b1 then Inr (st1, True) else traverse_loop wt db depth floor direction st1) = Inr (st', b)"
        using "1.prems"(1) q False v ns by (subst (asm) traverse_loop.simps) simp
      have fr: "fr_db fr = db" "fr_depth fr = depth" "fr_nbrs fr s = Inr ns"
        using "1.prems"(2) ns by auto
      note vi = visit_inv [of wt fr d ns "st\<lparr>bq := queue\<rparr>" st1 b1 "{s}" s ns]
      have inv1: "bfs_inv fr d {s} st1" "set (node_dists st) \<subseteq> set (node_dists st1)"
        "\<not> b1 \<Longrightarrow> expanded db (fr_nbrs fr) st1 s d"
        using vi v fr pop(1,2) "1.prems"(3) False "1.prems"(2)
        by (auto simp: expanded_def node_dists_def)
      show ?thesis
      proof (cases b1)
        case True
        with run inv1(1) show ?thesis by auto
      next
        case b1: False
        then have "bfs_inv fr d {} st1"
          using bfs_inv_unpend [OF inv1(1), of d] inv1 pop(4) fr by auto
        then show ?thesis
          using "1.IH"(2) [OF q refl False ns v [symmetric] refl _ _ "1.prems"(2,3)] b1 run by simp
      qed
    qed
  qed
qed

section \<open>What a traversal returns\<close>

lemma bfs_start_inv:
  assumes "fr_origin fr \<in> set (db_symbols (fr_db fr))" "db_keys_ok (fr_db fr)"
  shows "bfs_inv fr 0 {} (bfs_start cache (fr_origin fr))"
proof -
  have "s = fr_origin fr" if "s \<in> set (db_symbols (fr_db fr))" "sy_id s = sy_id (fr_origin fr)" for s
    using that assms by (blast intro: symbol_by_id_unique)
  then show ?thesis
    using assms(1)
    by (auto simp: bfs_inv_def dists_ok_def queue_ok_def closed_except_def bfs_start_def node_dists_def
        intro: walk_0)
qed

lemma expandedD:
  "expanded db nbrs st s d \<Longrightarrow> nbrs s = Inr ns \<Longrightarrow> nb \<in> set ns \<Longrightarrow> d \<le> n \<Longrightarrow>
   \<exists>d' \<le> Suc n. (neighbor_key db nb, d') \<in> set (node_dists st)"
  unfolding expanded_def by (metis Suc_le_mono le_trans sum.inject(2))

lemma bfs_complete_walk:
  assumes "walk (fr_db fr) (fr_nbrs fr) (fr_origin fr) n s" "n \<le> fr_depth fr"
    and "bfs_inv fr level {} st" "bq st = []" "fr_origin fr \<in> set (db_symbols (fr_db fr))"
  shows "\<exists>d \<le> n. (KeySymbol (sy_id s), d) \<in> set (node_dists st)"
  using assms(1,2)
proof (induction rule: walk.induct)
  case walk_0
  then show ?case using assms(3) by (auto simp: bfs_inv_def dists_ok_def)
next
  case (walk_Suc n s ns nb t)
  then obtain d where d: "d \<le> n" "(KeySymbol (sy_id s), d) \<in> set (node_dists st)" by auto
  moreover have "s \<in> set (db_symbols (fr_db fr))" using walk_in_symbols walk_Suc.hyps(1) assms(5) by blast
  ultimately have "expanded (fr_db fr) (fr_nbrs fr) st s d"
    using assms(3,4) walk_Suc.prems unfolding bfs_inv_def closed_except_def by fastforce
  from expandedD [OF this walk_Suc.hyps(2,3) d(1)] neighbor_key_Some [OF walk_Suc.hyps(4)]
  show ?case by simp
qed

lemma bfs_complete:
  assumes "reaches (fr_db fr) (fr_nbrs fr) (fr_origin fr) n k" "n \<le> fr_depth fr"
    and "bfs_inv fr level {} st" "bq st = []" "fr_origin fr \<in> set (db_symbols (fr_db fr))"
  shows "\<exists>d \<le> n. (k, d) \<in> set (node_dists st)"
proof -
  obtain m s ns nb where m: "n = Suc m" "walk (fr_db fr) (fr_nbrs fr) (fr_origin fr) m s"
    and nb: "fr_nbrs fr s = Inr ns" "nb \<in> set ns" "neighbor_key (fr_db fr) nb = k"
    using assms(1) by (auto simp: reaches_def)
  obtain d where d: "d \<le> m" "(KeySymbol (sy_id s), d) \<in> set (node_dists st)"
    using bfs_complete_walk [OF m(2) _ assms(3-5)] m(1) assms(2) by auto
  have "s \<in> set (db_symbols (fr_db fr))" using walk_in_symbols [OF m(2) assms(5)] .
  with d m(1) assms have "expanded (fr_db fr) (fr_nbrs fr) st s d"
    unfolding bfs_inv_def closed_except_def by fastforce
  from expandedD [OF this nb(1,2) d(1)] nb(3) m(1) show ?thesis by simp
qed

text \<open>How an entry describes the node it stands for.\<close>

definition describes :: "worktree \<Rightarrow> graph_db \<Rightarrow> node_key \<Rightarrow> impact_entry \<Rightarrow> bool" where
  "describes wt db k e \<longleftrightarrow>
     (case k of
        KeySymbol i \<Rightarrow> \<exists>s \<in> set (db_symbols db). sy_id s = i \<and> ie_qualified_name e = sy_qualified s \<and>
          ie_selector e = Some (symbol_selector (sy_file_path s) (sy_qualified s) (sy_kind s)) \<and>
          ie_file e = Some (sy_file_path s) \<and>
          ie_line e = res_ok (pure_line_for wt (sy_file_path s) (sy_span_start s))
      | KeyFile f \<Rightarrow> ie_origin e = OriginFile \<and> ie_qualified_name e = f \<and>
          ie_selector e = Some (''file:'' @ f) \<and> ie_file e = Some f
      | KeyUnresolved q \<Rightarrow> ie_qualified_name e = q \<and> ie_selector e = None \<and>
          (\<forall>s \<in> set (db_symbols db). sy_qualified s \<noteq> q))"

definition entries_ok :: "worktree \<Rightarrow> graph_db \<Rightarrow> bfs_state \<Rightarrow> bool" where
  "entries_ok wt db st \<longleftrightarrow> lines_good wt (blines st) \<and>
     (\<exists>origin keys. rev (bseen st) = origin # keys \<and> list_all2 (describes wt db) keys (btouched st))"

lemma line_or_none_pure:
  assumes "lines_good wt cache"
  shows "fst (line_or_none wt cache file off) = res_ok (pure_line_for wt file off) \<and>
    lines_good wt (snd (line_or_none wt cache file off))"
  using assms cache_line_for_agrees [of wt cache "file" "off"]
  by (cases "pure_line_for wt file off") (auto simp: line_or_none_def agrees_def)

lemma resolve_neighbor_None:
  "resolve_neighbor_symbol db nb = None \<Longrightarrow> nb_origin nb \<noteq> OriginFile \<Longrightarrow> s \<in> set (db_symbols db) \<Longrightarrow>
   sy_qualified s \<noteq> nb_qualified_name nb"
  by (auto simp: resolve_neighbor_symbol_def resolve_symbol_by_qualified_def first_row_sort_key_None
      filter_empty_conv split: option.splits)

lemma locate_good:
  assumes "lines_good wt cache"
  shows "lines_good wt (snd (locate wt cache nb resolved))"
proof -
  have "lines_good wt c" if "line_or_none wt cache f o' = (l, c)" for f o' l c
    using line_or_none_pure [OF assms, of f o'] that by simp
  then show ?thesis
    using assms by (auto simp: locate_def Let_def split: option.splits prod.splits)
qed

lemma locate_describes:
  assumes "lines_good wt cache" "locate wt cache nb (resolve_neighbor_symbol db nb) = ((sel, f, l), cache')"
    and "ie_qualified_name e = nb_qualified_name nb" "ie_origin e = nb_origin nb"
    and "ie_selector e = sel" "ie_file e = f" "ie_line e = l"
  shows "describes wt db (neighbor_key db nb) e"
proof (cases "resolve_neighbor_symbol db nb")
  case None
  then show ?thesis
    using assms(2-) resolve_neighbor_None [OF None]
    by (auto simp: describes_def neighbor_key_def locate_def Let_def split: prod.splits if_splits)
next
  case (Some s)
  note r = resolve_neighbor_symbol_SomeD [OF Some]
  have "fst (line_or_none wt cache (sy_file_path s) (sy_span_start s)) =
      res_ok (pure_line_for wt (sy_file_path s) (sy_span_start s))"
    using line_or_none_pure [OF assms(1)] by blast
  with Some r assms(2-) show ?thesis
    by (auto simp: describes_def neighbor_key_def locate_def split: prod.splits intro!: bexI [of _ s])
qed

lemma entries_ok_add:
  assumes "entries_ok wt db st"
  shows "entries_ok wt db (add_neighbor wt db m d nb st)"
proof -
  obtain origin keys where k: "rev (bseen st) = origin # keys" "list_all2 (describes wt db) keys (btouched st)"
    and g: "lines_good wt (blines st)" using assms by (auto simp: entries_ok_def)
  obtain sel f l cache where loc:
    "locate wt (blines st) nb (resolve_neighbor_symbol db nb) = ((sel, f, l), cache)"
    by (metis prod.collapse)
  let ?e = "\<lparr>ie_qualified_name = nb_qualified_name nb, ie_origin = nb_origin nb, ie_distance = d,
    ie_edge_kind = nb_edge_kind nb, ie_selector = sel, ie_file = f, ie_line = l\<rparr>"
  have "describes wt db (neighbor_key db nb) ?e" by (rule locate_describes [OF g loc]) simp_all
  moreover have "lines_good wt cache" using locate_good [OF g, of nb "resolve_neighbor_symbol db nb"] loc by simp
  ultimately show ?thesis
    using k unfolding entries_ok_def
    by (intro conjI exI [of _ origin] exI [of _ "keys @ [neighbor_key db nb]"])
       (simp_all add: add_neighbor_def loc list_all2_appendI)
qed

lemma visit_entries:
  "entries_ok wt db st \<Longrightarrow> length (btouched st) \<le> IMPACT_NODE_CAP \<Longrightarrow> visit wt db m d ns st = (st', b) \<Longrightarrow>
   entries_ok wt db st' \<and> length (btouched st') \<le> IMPACT_NODE_CAP \<and>
   (b \<longrightarrow> length (btouched st') = IMPACT_NODE_CAP)"
proof (induction ns arbitrary: st)
  case (Cons nb ns)
  let ?st = "add_neighbor wt db m d nb st"
  consider "neighbor_key db nb \<in> set (bseen st)"
    | "neighbor_key db nb \<notin> set (bseen st)" "length (btouched st) \<ge> IMPACT_NODE_CAP"
    | "neighbor_key db nb \<notin> set (bseen st)" "length (btouched st) < IMPACT_NODE_CAP" by linarith
  then show ?case
  proof cases
    case 1
    with Cons.prems(3) have "visit wt db m d ns st = (st', b)" by simp
    with Cons.IH Cons.prems(1,2) show ?thesis by blast
  next
    case 2
    with Cons.prems show ?thesis by simp
  next
    case 3
    with Cons.prems(3) have "visit wt db m d ns ?st = (st', b)" by simp
    moreover have "length (btouched ?st) \<le> IMPACT_NODE_CAP" using 3(2) by simp
    ultimately show ?thesis using Cons.IH entries_ok_add [OF Cons.prems(1)] by blast
  qed
qed simp

lemma traverse_loop_entries:
  "traverse_loop wt db depth floor direction st = Inr (st', b) \<Longrightarrow> entries_ok wt db st \<Longrightarrow>
   length (btouched st) \<le> IMPACT_NODE_CAP \<Longrightarrow>
   entries_ok wt db st' \<and> length (btouched st') \<le> IMPACT_NODE_CAP \<and>
   (b \<longrightarrow> length (btouched st') = IMPACT_NODE_CAP)"
proof (induction wt db depth floor direction st rule: traverse_loop.induct)
  case (1 wt db depth floor direction st)
  have e: "entries_ok wt db (st\<lparr>bq := queue\<rparr>)" for queue using "1.prems"(2) by (simp add: entries_ok_def)
  note run = "1.prems"(1) [unfolded traverse_loop.simps [of wt db depth floor direction st]]
  show ?case
  proof (cases "bq st")
    case Nil
    with run "1.prems"(2,3) show ?thesis by auto
  next
    case (Cons p queue)
    obtain s d where p: "p = (s, d)" by (cases p)
    note q = Cons [unfolded p]
    show ?thesis
    proof (cases "d \<ge> depth")
      case True
      with run q "1.IH"(1) [OF q refl True] e "1.prems"(3) show ?thesis by simp
    next
      case False
      obtain ns where ns: "neighbors db s floor direction = Inr ns"
        using run q False by (cases "neighbors db s floor direction") auto
      obtain st1 b1 where v: "visit wt db depth (d + 1) ns (st\<lparr>bq := queue\<rparr>) = (st1, b1)"
        by (cases "visit wt db depth (d + 1) ns (st\<lparr>bq := queue\<rparr>)")
      have st1: "entries_ok wt db st1 \<and> length (btouched st1) \<le> IMPACT_NODE_CAP \<and>
          (b1 \<longrightarrow> length (btouched st1) = IMPACT_NODE_CAP)"
        using visit_entries [OF e _ v] "1.prems"(3) by simp
      show ?thesis
      proof (cases b1)
        case True
        with run q False ns v st1 show ?thesis by simp
      next
        case b1: False
        with run q False ns v have "traverse_loop wt db depth floor direction st1 = Inr (st', b)" by simp
        with "1.IH"(2) [OF q refl False ns v [symmetric] refl] b1 st1 show ?thesis by blast
      qed
    qed
  qed
qed

lemma entries_ok_start: "lines_good wt cache \<Longrightarrow> entries_ok wt db (bfs_start cache origin)"
  by (simp add: entries_ok_def bfs_start_def)

text \<open>The node list of a final state, split into the origin and the touched nodes.\<close>

lemma final_nodes:
  assumes "dists_ok fr level st" "entries_ok wt db st" "bseen st \<noteq> []" "last (bseen st) = k0"
  obtains keys where "rev (bseen st) = k0 # keys" "list_all2 (describes wt db) keys (btouched st)"
    and "node_dists st = (k0, 0) # zip keys (map ie_distance (btouched st))"
proof -
  obtain k1 keys where k: "rev (bseen st) = k1 # keys" "list_all2 (describes wt db) keys (btouched st)"
    using assms(2) by (auto simp: entries_ok_def)
  have "k1 = k0" using assms(3,4) k(1) by (metis hd_rev list.sel(1))
  with k show thesis by (intro that) (auto simp: node_dists_def)
qed

lemma visit_last: "visit wt db m d ns st = (st', b) \<Longrightarrow> bseen st \<noteq> [] \<Longrightarrow>
   bseen st' \<noteq> [] \<and> last (bseen st') = last (bseen st)"
proof (induction ns arbitrary: st)
  case (Cons nb ns)
  then show ?case
    by (cases "neighbor_key db nb \<in> set (bseen st)"; cases "length (btouched st) \<ge> IMPACT_NODE_CAP")
       (auto simp: bq_add(2) dest!: Cons.IH)
qed simp

lemma traverse_loop_last:
  "traverse_loop wt db depth floor direction st = Inr (st', b) \<Longrightarrow> bseen st \<noteq> [] \<Longrightarrow>
   bseen st' \<noteq> [] \<and> last (bseen st') = last (bseen st)"
proof (induction wt db depth floor direction st rule: traverse_loop.induct)
  case (1 wt db depth floor direction st)
  note run = "1.prems"(1) [unfolded traverse_loop.simps [of wt db depth floor direction st]]
  show ?case
  proof (cases "bq st")
    case Nil
    with run "1.prems"(2) show ?thesis by auto
  next
    case (Cons p queue)
    obtain s d where p: "p = (s, d)" by (cases p)
    note q = Cons [unfolded p]
    show ?thesis
    proof (cases "d \<ge> depth")
      case True
      with run q "1.IH"(1) [OF q refl True] "1.prems"(2) show ?thesis by simp
    next
      case False
      obtain ns where ns: "neighbors db s floor direction = Inr ns"
        using run q False by (cases "neighbors db s floor direction") auto
      obtain st1 b1 where v: "visit wt db depth (d + 1) ns (st\<lparr>bq := queue\<rparr>) = (st1, b1)"
        by (cases "visit wt db depth (d + 1) ns (st\<lparr>bq := queue\<rparr>)")
      have l: "bseen st1 \<noteq> [] \<and> last (bseen st1) = last (bseen st)"
        using visit_last [OF v] "1.prems"(2) by simp
      show ?thesis
      proof (cases b1)
        case True
        with run q False ns v l show ?thesis by simp
      next
        case b1: False
        with run q False ns v have "traverse_loop wt db depth floor direction st1 = Inr (st', b)" by simp
        with "1.IH"(2) [OF q refl False ns v [symmetric] refl] b1 l show ?thesis by simp
      qed
    qed
  qed
qed

text \<open>Everything the invariants say about a finished traversal.\<close>

lemma traverse_facts:
  assumes "traverse wt db cache origin depth floor direction = Inr ((touched, truncated), cache')"
    and "db_keys_ok db" "origin \<in> set (db_symbols db)" "lines_good wt cache"
  obtains keys level pending st where "touched = btouched st"
    and "bfs_inv \<lparr>fr_db = db, fr_nbrs = (\<lambda>s. neighbors db s floor direction), fr_origin = origin,
          fr_depth = depth\<rparr> level pending st"
    and "\<not> truncated \<longrightarrow> bq st = [] \<and> pending = {}"
    and "rev (bseen st) = KeySymbol (sy_id origin) # keys"
    and "list_all2 (describes wt db) keys touched"
    and "node_dists st = (KeySymbol (sy_id origin), 0) # zip keys (map ie_distance touched)"
    and "length touched \<le> IMPACT_NODE_CAP" "truncated \<longrightarrow> length touched = IMPACT_NODE_CAP"
    and "lines_good wt cache'"
proof -
  let ?fr = "\<lparr>fr_db = db, fr_nbrs = (\<lambda>s. neighbors db s floor direction), fr_origin = origin,
    fr_depth = depth\<rparr>"
  let ?s0 = "bfs_start cache origin"
  obtain st where run: "traverse_loop wt db depth floor direction ?s0 = Inr (st, truncated)"
    and t: "touched = btouched st" "cache' = blines st"
    using assms(1) by (auto simp: traverse_def res_simps)
  have "bfs_inv ?fr 0 {} ?s0" using bfs_start_inv [of ?fr cache] assms(2,3) by simp
  then obtain level pending where inv: "bfs_inv ?fr level pending st"
    "\<not> truncated \<longrightarrow> bq st = [] \<and> pending = {}"
    using traverse_loop_inv [OF run refl assms(2)] by blast
  have e: "entries_ok wt db st" "length (btouched st) \<le> IMPACT_NODE_CAP"
    "truncated \<longrightarrow> length (btouched st) = IMPACT_NODE_CAP"
    using traverse_loop_entries [OF run entries_ok_start [OF assms(4)]] by (auto simp: bfs_start_def)
  have "bseen st \<noteq> [] \<and> last (bseen st) = KeySymbol (sy_id origin)"
    using traverse_loop_last [OF run] by (simp add: bfs_start_def)
  then obtain keys where k: "rev (bseen st) = KeySymbol (sy_id origin) # keys"
    "list_all2 (describes wt db) keys (btouched st)"
    "node_dists st = (KeySymbol (sy_id origin), 0) # zip keys (map ie_distance (btouched st))"
    using final_nodes [of ?fr level st wt db] inv(1) e(1) by (auto simp: bfs_inv_def)
  from that [OF t(1) inv k(1) _ _ _ _] k e t(2) show thesis by (simp add: t entries_ok_def)
qed

text \<open>
  C3. A traversal that is not truncated lists exactly the nodes within the depth bound, each
  once and described by its entry, in order of distance, and each at its least distance from the
  origin.
\<close>

theorem impact_traversal_exact:
  assumes "traverse wt db Map.empty origin depth floor direction = Inr ((touched, False), cache)"
    and "db_keys_ok db" "origin \<in> set (db_symbols db)"
  shows "\<exists>keys. list_all2 (describes wt db) keys touched \<and>
    distinct (KeySymbol (sy_id origin) # keys) \<and> sorted (map ie_distance touched) \<and>
    (\<forall>k. k \<in> set keys \<longleftrightarrow> k \<noteq> KeySymbol (sy_id origin) \<and>
       (\<exists>n \<le> depth. reaches db (\<lambda>s. neighbors db s floor direction) origin n k)) \<and>
    (\<forall>i < length touched.
       reaches db (\<lambda>s. neighbors db s floor direction) origin (ie_distance (touched ! i)) (keys ! i) \<and>
       (\<forall>n. reaches db (\<lambda>s. neighbors db s floor direction) origin n (keys ! i) \<longrightarrow>
          ie_distance (touched ! i) \<le> n))"
proof -
  let ?nb = "\<lambda>s. neighbors db s floor direction"
  let ?fr = "\<lparr>fr_db = db, fr_nbrs = ?nb, fr_origin = origin, fr_depth = depth\<rparr>"
  let ?k0 = "KeySymbol (sy_id origin)"
  obtain keys level st where t: "touched = btouched st" and inv: "bfs_inv ?fr level {} st" "bq st = []"
    and k: "rev (bseen st) = ?k0 # keys" "list_all2 (describes wt db) keys touched"
    and nd: "node_dists st = (?k0, 0) # zip keys (map ie_distance touched)"
    using traverse_facts [OF assms(1-3) memo_good_empty] by metis
  have len: "length keys = length touched" using k(2) by (rule list_all2_lengthD)
  have dist: "distinct (?k0 # keys)" using inv(1) k(1) unfolding bfs_inv_def dists_ok_def
    by (metis distinct_rev)
  have at: "reaches db ?nb origin (ie_distance (touched ! i)) (keys ! i)" "ie_distance (touched ! i) \<le> depth"
    if "i < length touched" for i
  proof -
    have "(keys ! i, ie_distance (touched ! i)) \<in> set (node_dists st)"
      using that len nd by (auto simp: set_zip)
    moreover have "keys ! i \<noteq> ?k0" using dist that len by (metis distinct.simps(2) nth_mem)
    ultimately show "reaches db ?nb origin (ie_distance (touched ! i)) (keys ! i)"
      "ie_distance (touched ! i) \<le> depth" using inv(1) by (auto simp: bfs_inv_def dists_ok_def)
  qed
  have complete: "\<exists>d \<le> n. (k, d) \<in> set (node_dists st)" if "reaches db ?nb origin n k" "n \<le> depth" for n k
    using bfs_complete [of ?fr n k level st] that inv assms(3) by simp
  have least: "ie_distance (touched ! i) \<le> n" if i: "i < length touched" and r: "reaches db ?nb origin n (keys ! i)" for i n
  proof (cases "n \<le> depth")
    case True
    then obtain d where "d \<le> n" "(keys ! i, d) \<in> set (node_dists st)" using complete r by blast
    moreover have "(keys ! i, ie_distance (touched ! i)) \<in> set (node_dists st)"
      using i len nd by (auto simp: set_zip)
    ultimately show ?thesis
      using node_dists_unique [of ?fr level st] inv(1) by (auto simp: bfs_inv_def)
  qed (use at(2) [OF i] in simp)
  have mem: "k \<in> set keys \<longleftrightarrow> k \<noteq> ?k0 \<and> (\<exists>n \<le> depth. reaches db ?nb origin n k)" for k
  proof
    assume "k \<in> set keys"
    with at len dist show "k \<noteq> ?k0 \<and> (\<exists>n \<le> depth. reaches db ?nb origin n k)"
      by (auto simp: in_set_conv_nth)
  next
    assume "k \<noteq> ?k0 \<and> (\<exists>n \<le> depth. reaches db ?nb origin n k)"
    with complete nd show "k \<in> set keys" by (auto dest: set_zip_leftD)
  qed
  show ?thesis
    using k(2) dist mem at(1) least inv(1) t
    by (intro exI [of _ keys]) (auto simp: bfs_inv_def dists_ok_def)
qed

lemma resolve_selector_mem: "resolve_selector db sel = Some s \<Longrightarrow> s \<in> set (db_symbols db)"
  by (auto simp: resolve_selector_def resolve_symbol_selector_def impact_symbol_row_def
      resolve_module_selector_def command_handler_row_def split: selector.splits if_splits
      dest!: first_row_sort_key_mem first_row_SomeD)

lemma demo_traverse:
  "case traverse demo_repo demo_db Map.empty (demo_symbol 1 ''helper'' 0 14) 3 SameModule Inbound of
     Inl _ \<Rightarrow> False | Inr ((touched, truncated), _) \<Rightarrow> \<not> truncated \<and> length touched = 1"
  by code_simp

theorem impact_traversal_exact_witness:
  "\<exists>touched keys. length touched = 1 \<and> list_all2 (describes demo_repo demo_db) keys touched \<and>
     distinct (KeySymbol 1 # keys)"
proof -
  let ?o = "demo_symbol 1 ''helper'' 0 14"
  obtain touched cache where r: "traverse demo_repo demo_db Map.empty ?o 3 SameModule Inbound =
      Inr ((touched, False), cache)" "length touched = 1"
    using demo_traverse by (auto split: sum.splits prod.splits)
  have k: "db_keys_ok demo_db" by code_simp
  have o: "?o \<in> set (db_symbols demo_db)" by (simp add: demo_db_def)
  have "sy_id ?o = 1" by (simp add: demo_symbol_def)
  with impact_traversal_exact [OF r(1) k o] r(2) show ?thesis by auto
qed


lemma demo_impact:
  "case impact_run demo_repo (Some demo_db) (Symbol ''src/a.rs'' ''helper'' ''function'') 0 SameModule Inbound of
     Inl _ \<Rightarrow> False | Inr res \<Rightarrow> length (ir_touched res) = 1"
  by code_simp


end
