(* ===== verification/Query_Trace.thy ===== *)
theory Query_Trace
  imports Query_Impact
begin

text \<open>
  The command trace (\<open>query/trace.rs\<close>): from a command's handler, the tree of call edges, built
  breadth first in an arena of at most \<open>TRACE_NODE_CAP\<close> nodes and then turned into a tree.

  The lemmas relate the arena to the call tree defined by recursion on the depth: a trace that is
  not truncated is that tree, node for node. The recursion of \<open>build_tree\<close> follows arena indices;
  the model gives it fuel, and the arena's length is shown to be enough.
\<close>

section \<open>Model\<close>

definition DEFAULT_TRACE_DEPTH :: nat where
  "DEFAULT_TRACE_DEPTH = 5"

definition TRACE_NODE_CAP :: nat where
  "TRACE_NODE_CAP = 200"

datatype trace_node =
  TraceNode (tn_name: string) (tn_qualified_name: "string option") (tn_confidence: "string option")
    (tn_children: "trace_node list")

record trace_result =
  tr_root :: "trace_node option"
  tr_truncated :: bool
  tr_visited_nodes :: nat
  tr_total :: "nat option"

definition trace_empty :: trace_result where
  "trace_empty = \<lparr>tr_root = None, tr_truncated = False, tr_visited_nodes = 0, tr_total = Some 0\<rparr>"

text \<open>\<open>TraceNodeBuilder\<close>: an arena node with the indices of its children.\<close>

record trace_builder =
  tb_name :: string
  tb_qualified_name :: "string option"
  tb_confidence :: "string option"
  tb_children :: "nat list"

definition builder_root :: "symbol_row \<Rightarrow> trace_builder" where
  "builder_root symbol =
     \<lparr>tb_name = sy_name symbol, tb_qualified_name = Some (sy_qualified symbol), tb_confidence = None,
      tb_children = []\<rparr>"

definition builder_callee :: "ref_row \<Rightarrow> trace_builder" where
  "builder_callee edge =
     \<lparr>tb_name = rf_target_name edge, tb_qualified_name = rf_target_qualified edge,
      tb_confidence = Some (rf_confidence edge), tb_children = []\<rparr>"

definition normalize_command_selector :: "string \<Rightarrow> string" where
  "normalize_command_selector command =
     (case strip_prefix ''command:'' (trim_str command) of
        Some rest \<Rightarrow> trim_str rest
      | None \<Rightarrow> trim_str command)"

text \<open>\<open>resolve_symbol\<close>: a valid hint, else the first row with the qualified name.\<close>

definition trace_resolve_symbol :: "graph_db \<Rightarrow> string \<Rightarrow> int option \<Rightarrow> symbol_row option" where
  "trace_resolve_symbol db qualified hint =
     (case hinted_symbol db hint qualified of
        Some s \<Rightarrow> Some s
      | None \<Rightarrow> resolve_symbol_by_qualified db qualified)"

definition trace_span :: "symbol_row \<Rightarrow> symbol_span" where
  "trace_span s = \<lparr>sp_file_path = sy_file_path s, sp_span_start = sy_span_start s, sp_span_end = sy_span_end s\<rparr>"

definition edge_symbol :: "graph_db \<Rightarrow> ref_row \<Rightarrow> symbol_row option" where
  "edge_symbol db edge =
     (case rf_target_qualified edge of
        Some qualified \<Rightarrow> trace_resolve_symbol db qualified (rf_target_symbol_hint edge)
      | None \<Rightarrow> None)"

type_synonym trace_arena = "trace_builder list"
type_synonym trace_queue = "(nat \<times> symbol_row \<times> nat) list"

text \<open>The loop over the edges of one symbol; \<open>True\<close> is \<open>break 'bfs\<close> at the cap.\<close>

fun trace_edges ::
  "graph_db \<Rightarrow> ref_confidence \<Rightarrow> nat \<Rightarrow> nat \<Rightarrow> nat \<Rightarrow> ref_row list \<Rightarrow> trace_arena \<times> trace_queue \<Rightarrow>
     ((trace_arena \<times> trace_queue) \<times> bool) graph_result" where
  "trace_edges db floor max_depth next_distance node_index [] st = Inr (st, False)"
| "trace_edges db floor max_depth next_distance node_index (edge # edges) (arena, queue) =
     res_bind (confidence_visible_at_floor (rf_confidence edge) floor) (\<lambda>visible.
       if \<not> visible then trace_edges db floor max_depth next_distance node_index edges (arena, queue)
       else if length arena \<ge> TRACE_NODE_CAP then Inr ((arena, queue), True)
       else let child_index = length arena;
                arena1 = arena @ [builder_callee edge];
                arena2 = arena1[node_index := (arena1 ! node_index)
                           \<lparr>tb_children := tb_children (arena1 ! node_index) @ [child_index]\<rparr>];
                queue2 = queue @ (case edge_symbol db edge of
                                    Some symbol \<Rightarrow>
                                      if next_distance < max_depth
                                      then [(child_index, symbol, next_distance)] else []
                                  | None \<Rightarrow> [])
            in trace_edges db floor max_depth next_distance node_index edges (arena2, queue2))"

definition trace_measure :: "trace_arena \<times> trace_queue \<Rightarrow> nat" where
  "trace_measure st = 2 * (TRACE_NODE_CAP - length (fst st)) + length (snd st)"

lemma trace_edges_measure:
  "trace_edges db floor m d i es st = Inr (st', b) \<Longrightarrow> trace_measure st' \<le> trace_measure st"
proof (induction db floor m d i es st rule: trace_edges.induct)
  case (2 db floor m d i e es arena queue)
  obtain v where v: "confidence_visible_at_floor (rf_confidence e) floor = Inr v"
    using "2.prems" by (auto simp: res_simps)
  show ?case
  proof (cases "v \<and> length arena < TRACE_NODE_CAP")
    case False
    with 2 v show ?thesis by (cases v) auto
  next
    case True
    let ?a1 = "arena @ [builder_callee e]"
    let ?a2 = "?a1[i := (?a1 ! i)\<lparr>tb_children := tb_children (?a1 ! i) @ [length arena]\<rparr>]"
    let ?q2 = "queue @ (case edge_symbol db e of Some s \<Rightarrow> if d < m then [(length arena, s, d)] else []
      | None \<Rightarrow> [])"
    have "trace_edges db floor m d i es (?a2, ?q2) = Inr (st', b)" using "2.prems" v True by (simp add: Let_def)
    with "2.IH"(2) [OF v] True have "trace_measure st' \<le> trace_measure (?a2, ?q2)" by (simp add: Let_def)
    also have "\<dots> \<le> trace_measure (arena, queue)"
      using True by (auto simp: trace_measure_def split: option.splits)
    finally show ?thesis .
  qed
qed simp

function trace_loop ::
  "graph_db \<Rightarrow> ref_confidence \<Rightarrow> nat \<Rightarrow> trace_arena \<times> trace_queue \<Rightarrow>
     (trace_arena \<times> bool) graph_result" where
  "trace_loop db floor max_depth (arena, queue) =
     (case queue of
        [] \<Rightarrow> Inr (arena, False)
      | (node_index, symbol, distance) # rest \<Rightarrow>
          if distance \<ge> max_depth then trace_loop db floor max_depth (arena, rest)
          else res_bind (trace_edges db floor max_depth (distance + 1) node_index
                  (edges_for_symbol db (trace_span symbol)) (arena, rest)) (\<lambda>r.
                 if snd r then Inr (fst (fst r), True)
                 else trace_loop db floor max_depth (fst r)))"
  by pat_completeness auto
termination
proof (relation "measure (\<lambda>(db, floor, max_depth, st). trace_measure st)", goal_cases)
  case (3 db floor max_depth arena queue p rest node_index q symbol distance r)
  then have "trace_measure (fst r) \<le> trace_measure (arena, rest)"
    by (cases r) (auto dest: trace_edges_measure)
  with 3 show ?case by (auto simp: trace_measure_def)
qed (auto simp: trace_measure_def)

declare trace_loop.simps [simp del]

text \<open>\<open>build_tree\<close>, with fuel for the depth of its recursion.\<close>

fun build_tree :: "nat \<Rightarrow> trace_arena \<Rightarrow> nat \<Rightarrow> trace_node option" where
  "build_tree 0 arena index = None"
| "build_tree (Suc fuel) arena index =
     (let node = arena ! index;
          children = map (build_tree fuel arena) (tb_children node)
      in if None \<in> set children then None
         else Some (TraceNode (tb_name node) (tb_qualified_name node) (tb_confidence node) (map the children)))"

definition trace_run ::
  "graph_db option \<Rightarrow> string \<Rightarrow> nat \<Rightarrow> ref_confidence \<Rightarrow> trace_result graph_result" where
  "trace_run conn command depth min_confidence =
     with_read_connection conn (\<lambda>db.
       case command_handler_row db (normalize_command_selector command) of
         None \<Rightarrow> Inr trace_empty
       | Some origin \<Rightarrow>
           (let max_depth = (if depth = 0 then DEFAULT_TRACE_DEPTH else depth) in
            res_bind (trace_loop db min_confidence max_depth ([builder_root origin], [(0, origin, 0)]))
              (\<lambda>(arena, truncated).
                Inr \<lparr>tr_root = build_tree (length arena) arena 0, tr_truncated = truncated,
                      tr_visited_nodes = length arena,
                      tr_total = (if truncated then None else Some (length arena))\<rparr>)))"

section \<open>The call tree\<close>

definition visible_edges :: "graph_db \<Rightarrow> ref_confidence \<Rightarrow> symbol_row \<Rightarrow> ref_row list" where
  "visible_edges db floor s =
     filter (\<lambda>e. stored_visible floor (rf_confidence e)) (edges_for_symbol db (trace_span s))"

text \<open>The children of a symbol to a given depth, by recursion.\<close>

fun call_children :: "graph_db \<Rightarrow> ref_confidence \<Rightarrow> nat \<Rightarrow> symbol_row \<Rightarrow> trace_node list" where
  "call_children db floor 0 s = []"
| "call_children db floor (Suc n) s =
     map (\<lambda>e. TraceNode (rf_target_name e) (rf_target_qualified e) (Some (rf_confidence e))
            (case edge_symbol db e of Some t \<Rightarrow> call_children db floor n t | None \<Rightarrow> []))
       (visible_edges db floor s)"

definition call_tree :: "graph_db \<Rightarrow> ref_confidence \<Rightarrow> nat \<Rightarrow> symbol_row \<Rightarrow> trace_node" where
  "call_tree db floor n s =
     TraceNode (sy_name s) (Some (sy_qualified s)) None (call_children db floor n s)"

fun tree_size :: "trace_node \<Rightarrow> nat" where
  "tree_size (TraceNode _ _ _ cs) = Suc (sum_list (map tree_size cs))"

section \<open>Arenas\<close>

definition wf_arena :: "trace_arena \<Rightarrow> bool" where
  "wf_arena a \<longleftrightarrow> (\<forall>i < length a. \<forall>c \<in> set (tb_children (a ! i)). i < c \<and> c < length a)"

text \<open>The tree an arena stands for, where some nodes still wait for their children.\<close>

function ctree :: "trace_arena \<Rightarrow> (nat \<rightharpoonup> trace_node list) \<Rightarrow> nat \<Rightarrow> trace_node" where
  "ctree a pend i =
     TraceNode (tb_name (a ! i)) (tb_qualified_name (a ! i)) (tb_confidence (a ! i))
       (case pend i of
          Some ts \<Rightarrow> ts
        | None \<Rightarrow> map (ctree a pend) (filter (\<lambda>c. i < c \<and> c < length a) (tb_children (a ! i))))"
  by pat_completeness auto
termination
  by (relation "measure (\<lambda>(a, pend, i). length a - i)") auto

declare ctree.simps [simp del]

lemma wf_children: "wf_arena a \<Longrightarrow> i < length a \<Longrightarrow>
   filter (\<lambda>c. i < c \<and> c < length a) (tb_children (a ! i)) = tb_children (a ! i)"
  unfolding wf_arena_def filter_id_conv by blast

lemma wf_arenaD: "wf_arena a \<Longrightarrow> i < length a \<Longrightarrow> c \<in> set (tb_children (a ! i)) \<Longrightarrow> i < c \<and> c < length a"
  unfolding wf_arena_def by blast

lemma build_tree_ctree:
  "wf_arena a \<Longrightarrow> i < length a \<Longrightarrow> length a - i \<le> fuel \<Longrightarrow>
   build_tree fuel a i = Some (ctree a Map.empty i)"
proof (induction fuel arbitrary: i)
  case (Suc fuel)
  have c: "build_tree fuel a c = Some (ctree a Map.empty c)" if "c \<in> set (tb_children (a ! i))" for c
  proof (rule Suc.IH [OF Suc.prems(1)])
    show "c < length a" "length a - c \<le> fuel"
      using wf_arenaD [OF Suc.prems(1,2) that] Suc.prems(2,3) by linarith+
  qed
  then have "map (build_tree fuel a) (tb_children (a ! i)) = map (\<lambda>c. Some (ctree a Map.empty c)) (tb_children (a ! i))"
    by simp
  then show ?case
    using Suc.prems ctree.simps [of a Map.empty i] by (auto simp: Let_def wf_children comp_def)
qed simp

text \<open>Filling in the children of one waiting node.\<close>

definition grown :: "trace_arena \<Rightarrow> nat \<Rightarrow> trace_builder list \<Rightarrow> trace_arena" where
  "grown a i leaves =
     a[i := (a ! i)\<lparr>tb_children := tb_children (a ! i) @ [length a..<length a + length leaves]\<rparr>] @ leaves"

lemma grown_nth:
  "i < length a \<Longrightarrow> j < length a \<Longrightarrow> grown a i leaves ! j =
     (if j = i then (a ! i)\<lparr>tb_children := tb_children (a ! i) @ [length a..<length a + length leaves]\<rparr>
      else a ! j)"
  by (simp add: grown_def nth_append)

lemma grown_leaf: "length a \<le> j \<Longrightarrow> grown a i leaves ! j = leaves ! (j - length a)"
  by (simp add: grown_def nth_append)

lemma length_grown [simp]: "length (grown a i leaves) = length a + length leaves"
  by (simp add: grown_def)

lemma wf_grown:
  assumes "wf_arena a" "i < length a" "\<forall>b \<in> set leaves. tb_children b = []"
  shows "wf_arena (grown a i leaves)"
  unfolding wf_arena_def
proof (intro allI impI ballI)
  fix j c assume j: "j < length (grown a i leaves)" and c: "c \<in> set (tb_children (grown a i leaves ! j))"
  show "j < c \<and> c < length (grown a i leaves)"
  proof (cases "j < length a")
    case True
    show ?thesis
    proof (cases "c \<in> set (tb_children (a ! j))")
      case old: True
      from wf_arenaD [OF assms(1) True old] show ?thesis by simp
    next
      case new: False
      with c True assms(2) have "j = i" "c \<in> set [length a..<length a + length leaves]"
        by (simp_all add: grown_nth split: if_splits)
      with True show ?thesis by simp
    qed
  next
    case False
    with j c assms(3) show ?thesis by (auto simp: grown_leaf dest: nth_mem)
  qed
qed

lemma ctree_grown:
  assumes "wf_arena a" "i < length a" "tb_children (a ! i) = []"
    and pend: "pend i = Some ts" "\<And>j. j < length a \<Longrightarrow> pend' j = (if j = i then None else pend j)"
    and ts: "ts = map (ctree (grown a i leaves) pend') [length a..<length a + length leaves]"
    and j: "j < length a"
  shows "ctree (grown a i leaves) pend' j = ctree a pend j"
  using j
proof (induction "length a - j" arbitrary: j rule: less_induct)
  case less
  let ?a = "grown a i leaves"
  show ?case
  proof (cases "j = i")
    case True
    have "filter (\<lambda>c. i < c \<and> c < length ?a) [length a..<length a + length leaves] = [length a..<length a + length leaves]"
      using assms(2) by (auto simp: filter_id_conv)
    with True assms(2,3) pend ts show ?thesis
      unfolding ctree.simps [of ?a pend' j] ctree.simps [of a pend j] by (simp add: grown_nth)
  next
    case False
    show ?thesis
    proof (cases "pend j")
      case None
      have c: "c \<in> set (tb_children (a ! j)) \<Longrightarrow> ctree ?a pend' c = ctree a pend c" for c
        using wf_arenaD [OF assms(1) less.prems] less.prems by (intro less.hyps) (meson diff_less_mono2 less_trans)+
      have "filter (\<lambda>c. j < c \<and> c < length ?a) (tb_children (a ! j)) = tb_children (a ! j)"
        using wf_arenaD [OF assms(1) less.prems] by (auto simp: filter_id_conv trans_less_add1)
      with None False less.prems assms(2) pend(2) c wf_children [OF assms(1) less.prems] show ?thesis
        unfolding ctree.simps [of ?a pend' j] ctree.simps [of a pend j] by (simp add: grown_nth)
    next
      case (Some us)
      with False less.prems assms(2) pend(2) show ?thesis
        unfolding ctree.simps [of ?a pend' j] ctree.simps [of a pend j] by (simp add: grown_nth)
    qed
  qed
qed

section \<open>One expansion\<close>

definition enqueued :: "graph_db \<Rightarrow> nat \<Rightarrow> nat \<Rightarrow> nat \<Rightarrow> ref_row list \<Rightarrow> trace_queue" where
  "enqueued db m d n es = concat (map (\<lambda>(j, e).
     case edge_symbol db e of Some t \<Rightarrow> if d < m then [(j, t, d)] else [] | None \<Rightarrow> [])
     (List.enumerate n es))"

lemma grown_snoc:
  assumes "i < length a" "tb_children b = []"
  shows "grown ((a @ [b])[i := ((a @ [b]) ! i)\<lparr>tb_children := tb_children ((a @ [b]) ! i) @ [length a]\<rparr>]) i leaves =
    grown a i (b # leaves)"
proof -
  have "(a @ [b]) ! i = a ! i" using assms(1) by (simp add: nth_append)
  moreover have "[length a] @ [Suc (length a)..<Suc (length a) + length leaves] = [length a..<length a + length (b # leaves)]"
    by (simp add: upt_conv_Cons del: upt_Suc)
  ultimately show ?thesis
    using assms(1) by (simp add: grown_def list_update_append1 nth_append)
qed

lemma trace_edges_False:
  "trace_edges db floor m d i es (a, q) = Inr ((a', q'), False) \<Longrightarrow> i < length a \<Longrightarrow>
   (let ves = filter (\<lambda>e. stored_visible floor (rf_confidence e)) es in
    a' = grown a i (map builder_callee ves) \<and> q' = q @ enqueued db m d (length a) ves)"
proof (induction es arbitrary: a q)
  case Nil
  then show ?case by (simp add: grown_def enqueued_def Let_def)
next
  case (Cons e es)
  obtain c where c: "confidence_from_db (rf_confidence e) = Inr c"
    using Cons.prems(1) by (auto simp: res_simps confidence_visible_at_floor_def)
  have v: "confidence_visible_at_floor (rf_confidence e) floor = Inr (stored_visible floor (rf_confidence e))"
    by (simp add: confidence_visible_at_floor_def stored_visible_def c)
  show ?case
  proof (cases "stored_visible floor (rf_confidence e)")
    case False
    with Cons v show ?thesis by simp
  next
    case True
    let ?a1 = "a @ [builder_callee e]"
    let ?a2 = "?a1[i := (?a1 ! i)\<lparr>tb_children := tb_children (?a1 ! i) @ [length a]\<rparr>]"
    let ?q2 = "q @ (case edge_symbol db e of Some s \<Rightarrow> if d < m then [(length a, s, d)] else []
      | None \<Rightarrow> [])"
    have "length a < TRACE_NODE_CAP" using Cons.prems(1) v True by (auto split: if_splits)
    with Cons.prems(1) v True have "trace_edges db floor m d i es (?a2, ?q2) = Inr ((a', q'), False)"
      by (simp add: Let_def)
    from Cons.IH [OF this] Cons.prems(2) True show ?thesis
      by (simp add: Let_def grown_snoc builder_callee_def [of e] enqueued_def del: list_update_append)
  qed
qed

section \<open>The traversal builds the call tree\<close>

definition forest_size :: "trace_node list \<Rightarrow> nat" where
  "forest_size ts = sum_list (map tree_size ts)"

text \<open>The children the queue entries are still to receive.\<close>

definition owed :: "graph_db \<Rightarrow> ref_confidence \<Rightarrow> nat \<Rightarrow> nat \<times> symbol_row \<times> nat \<Rightarrow> trace_node list" where
  "owed db floor m x = call_children db floor (m - snd (snd x)) (fst (snd x))"

definition pend_of :: "graph_db \<Rightarrow> ref_confidence \<Rightarrow> nat \<Rightarrow> trace_queue \<Rightarrow> nat \<rightharpoonup> trace_node list" where
  "pend_of db floor m q = map_of (map (\<lambda>x. (fst x, owed db floor m x)) q)"

definition trace_inv :: "graph_db \<Rightarrow> ref_confidence \<Rightarrow> nat \<Rightarrow> trace_node \<Rightarrow> trace_arena \<Rightarrow> trace_queue \<Rightarrow> bool" where
  "trace_inv db floor m root a q \<longleftrightarrow>
     wf_arena a \<and> a \<noteq> [] \<and> distinct (map fst q) \<and>
     (\<forall>x \<in> set q. fst x < length a \<and> tb_children (a ! fst x) = []) \<and>
     ctree a (pend_of db floor m q) 0 = root \<and>
     length a + sum_list (map (\<lambda>x. forest_size (owed db floor m x)) q) = tree_size root"

definition edge_children :: "graph_db \<Rightarrow> ref_confidence \<Rightarrow> nat \<Rightarrow> ref_row \<Rightarrow> trace_node list" where
  "edge_children db floor n e =
     (case edge_symbol db e of Some t \<Rightarrow> call_children db floor n t | None \<Rightarrow> [])"

lemma enqueued_Nil [simp]: "enqueued db m d n [] = []"
  by (simp add: enqueued_def)

lemma enqueued_Cons [simp]: "enqueued db m d n (e # es) =
   (case edge_symbol db e of Some t \<Rightarrow> if d < m then [(n, t, d)] else [] | None \<Rightarrow> []) @
   enqueued db m d (Suc n) es"
  by (simp add: enqueued_def)

lemma enqueued_keys: "x \<in> set (enqueued db m d n es) \<Longrightarrow> n \<le> fst x \<and> fst x < n + length es"
proof (induction es arbitrary: n)
  case (Cons e es)
  show ?case using Cons.IH [of "Suc n"] Cons.prems by (auto split: option.splits if_splits)
qed simp

lemma enqueued_distinct: "distinct (map fst (enqueued db m d n es))"
proof (induction es arbitrary: n)
  case (Cons e es)
  have "n \<notin> fst ` set (enqueued db m d (Suc n) es)" by (auto dest: enqueued_keys)
  with Cons [of "Suc n"] show ?case by (auto split: option.splits)
qed simp

lemma enqueued_size:
  "sum_list (map (\<lambda>x. forest_size (owed db floor m x)) (enqueued db m d n es)) =
   sum_list (map (\<lambda>e. forest_size (edge_children db floor (m - d) e)) es)"
proof (induction es arbitrary: n)
  case (Cons e es)
  then show ?case
    by (auto simp: edge_children_def owed_def forest_size_def split: option.splits)
qed simp

lemma pend_enqueued:
  "j < length es \<Longrightarrow> (case pend_of db floor m (enqueued db m d n es) (n + j) of Some ts \<Rightarrow> ts | None \<Rightarrow> []) =
   edge_children db floor (m - d) (es ! j)"
proof (induction es arbitrary: n j)
  case (Cons e es)
  have none: "pend_of db floor m (enqueued db m d (Suc n) es) n = None"
    by (auto simp: pend_of_def map_of_eq_None_iff dest: enqueued_keys)
  show ?case
  proof (cases j)
    case 0
    with none show ?thesis
      by (auto simp: pend_of_def owed_def edge_children_def split: option.splits)
  next
    case (Suc i)
    with Cons.IH [of i "Suc n"] Cons.prems show ?thesis
      by (auto simp: pend_of_def split: option.splits)
  qed
qed simp

lemma call_children_step:
  assumes "d < m"
  shows "call_children db floor (m - d) s =
    map (\<lambda>e. TraceNode (rf_target_name e) (rf_target_qualified e) (Some (rf_confidence e))
       (edge_children db floor (m - Suc d) e)) (visible_edges db floor s)"
proof -
  have "m - d = Suc (m - Suc d)" using assms by simp
  then show ?thesis by (simp add: edge_children_def)
qed

lemma trace_inv_expand:
  assumes inv: "trace_inv db floor m root a ((i, s, d) # rest)" and "d < m"
  shows "trace_inv db floor m root (grown a i (map builder_callee (visible_edges db floor s)))
    (rest @ enqueued db m (Suc d) (length a) (visible_edges db floor s))"
proof -
  let ?es = "visible_edges db floor s"
  let ?ls = "map builder_callee ?es"
  let ?a = "grown a i ?ls" and ?new = "enqueued db m (Suc d) (length a) ?es"
  let ?p = "pend_of db floor m ((i, s, d) # rest)" and ?p' = "pend_of db floor m (rest @ ?new)"
  have wf: "wf_arena a" "a \<noteq> []" "i < length a" "tb_children (a ! i) = []"
    and rest: "\<And>x. x \<in> set rest \<Longrightarrow> fst x < length a \<and> tb_children (a ! fst x) = [] \<and> fst x \<noteq> i"
    and dist: "distinct (map fst rest)"
    using inv by (auto simp: trace_inv_def)
  have leaves: "\<forall>b \<in> set ?ls. tb_children b = []" by (auto simp: builder_callee_def)
  have new: "\<And>x. x \<in> set ?new \<Longrightarrow> length a \<le> fst x \<and> fst x < length a + length ?es"
    by (rule enqueued_keys)
  have p': "?p' j = (if j = i then None else ?p j)" if "j < length a" for j
  proof -
    have "pend_of db floor m ?new j = None"
      using that by (auto simp: pend_of_def map_of_eq_None_iff dest: new)
    moreover have "pend_of db floor m rest i = None"
      by (auto simp: pend_of_def map_of_eq_None_iff dest: rest)
    ultimately show ?thesis by (auto simp: pend_of_def map_add_def split: option.splits)
  qed
  have leaf: "ctree ?a ?p' (length a + j) = TraceNode (rf_target_name (?es ! j)) (rf_target_qualified (?es ! j))
      (Some (rf_confidence (?es ! j))) (edge_children db floor (m - Suc d) (?es ! j))"
    if j: "j < length ?es" for j
  proof -
    have "pend_of db floor m rest (length a + j) = None"
      by (auto simp: pend_of_def map_of_eq_None_iff dest: rest)
    then have "?p' (length a + j) = pend_of db floor m ?new (length a + j)"
      by (auto simp: pend_of_def map_add_def split: option.splits)
    with pend_enqueued [OF j, of db floor m "Suc d" "length a"] j show ?thesis
      by (subst ctree.simps) (auto simp: grown_leaf builder_callee_def split: option.splits)
  qed
  have "[length a..<length a + length ?ls] = map (\<lambda>j. length a + j) [0..<length ?es]"
    by (simp add: map_add_upt add.commute)
  then have ts: "owed db floor m (i, s, d) = map (ctree ?a ?p') [length a..<length a + length ?ls]"
    using leaf by (auto simp: owed_def call_children_step [OF assms(2)] intro!: nth_equalityI)
  have root: "ctree ?a ?p' 0 = ctree a ?p 0"
    using ctree_grown [OF wf(1,3,4), of ?p "owed db floor m (i, s, d)" ?p' ?ls 0] p' ts wf(2)
    by (simp add: pend_of_def)
  have "forest_size (owed db floor m (i, s, d)) =
      length ?es + sum_list (map (\<lambda>e. forest_size (edge_children db floor (m - Suc d) e)) ?es)"
    by (simp add: owed_def call_children_step [OF assms(2)] forest_size_def comp_def sum_list_Suc)
  then have size: "length ?a + sum_list (map (\<lambda>x. forest_size (owed db floor m x)) (rest @ ?new)) = tree_size root"
    using inv by (simp add: trace_inv_def enqueued_size)
  have "\<forall>x \<in> set (rest @ ?new). fst x < length ?a \<and> tb_children (?a ! fst x) = []"
  proof
    fix x assume "x \<in> set (rest @ ?new)"
    then consider "x \<in> set rest" | "x \<in> set ?new" by auto
    then show "fst x < length ?a \<and> tb_children (?a ! fst x) = []"
    proof cases
      case 1
      with rest wf(3) show ?thesis by (simp add: grown_nth trans_less_add1)
    next
      case 2
      from new [OF 2] show ?thesis by (auto simp: grown_leaf builder_callee_def)
    qed
  qed
  moreover have "distinct (map fst (rest @ ?new))"
    using dist enqueued_distinct rest new by (fastforce simp: distinct_append)
  moreover have "wf_arena ?a" using wf(1,3) leaves by (rule wf_grown)
  moreover have "?a \<noteq> []" using wf(2) by (metis add_is_0 length_0_conv length_grown)
  ultimately show ?thesis
    using inv root size by (simp add: trace_inv_def)
qed

lemma trace_inv_skip:
  assumes "trace_inv db floor m root a ((i, s, d) # rest)" "m \<le> d"
  shows "trace_inv db floor m root a rest"
proof -
  let ?p = "pend_of db floor m ((i, s, d) # rest)" and ?p' = "pend_of db floor m rest"
  have i: "i < length a" "tb_children (a ! i) = []" and wf: "wf_arena a" "a \<noteq> []"
    and rest: "i \<notin> fst ` set rest" using assms(1) by (auto simp: trace_inv_def)
  have o: "owed db floor m (i, s, d) = []" using assms(2) by (simp add: owed_def)
  have "?p' j = (if j = i then None else ?p j)" for j
    using rest by (force simp: pend_of_def map_of_eq_None_iff)
  then have "ctree (grown a i []) ?p' 0 = ctree a ?p 0"
    using ctree_grown [OF wf(1) i, of ?p "[]" ?p' "[]" 0] wf(2) o by (simp add: pend_of_def)
  moreover have "grown a i [] = a" by (simp add: grown_def)
  ultimately show ?thesis
    using assms(1) o by (auto simp: trace_inv_def forest_size_def)
qed

lemma trace_loop_tree:
  "trace_loop db floor m (a, q) = Inr (a', False) \<Longrightarrow> trace_inv db floor m root a q \<Longrightarrow>
   trace_inv db floor m root a' []"
proof (induction db floor m "(a, q)" arbitrary: a q rule: trace_loop.induct)
  case (1 db floor m a q)
  note run = "1.prems"(1) [unfolded trace_loop.simps [of db floor m a q]]
  show ?case
  proof (cases q)
    case Nil
    with run "1.prems"(2) show ?thesis by simp
  next
    case (Cons x rest)
    obtain i s d where x: "x = (i, s, d)" by (cases x)
    note q = Cons [unfolded x]
    show ?thesis
    proof (cases "m \<le> d")
      case True
      with run q have "trace_loop db floor m (a, rest) = Inr (a', False)" by simp
      with "1.hyps"(1) [OF q refl refl True] trace_inv_skip [OF "1.prems"(2) [unfolded q] True]
      show ?thesis by blast
    next
      case False
      let ?e = "trace_edges db floor m (d + 1) i (edges_for_symbol db (trace_span s)) (a, rest)"
      obtain r where r: "?e = Inr r" "\<not> snd r" "trace_loop db floor m (fst r) = Inr (a', False)"
        using run q False by (auto simp: res_simps split: if_splits)
      obtain a1 q1 where r1: "r = ((a1, q1), False)" using r(2) by (cases r) (metis fst_conv prod.collapse)
      have "i < length a" using "1.prems"(2) q by (auto simp: trace_inv_def)
      then have "a1 = grown a i (map builder_callee (visible_edges db floor s)) \<and>
          q1 = rest @ enqueued db m (Suc d) (length a) (visible_edges db floor s)"
        using trace_edges_False [of db floor m "d + 1" i _ a rest a1 q1] r(1) r1
        by (simp add: Let_def visible_edges_def)
      with trace_inv_expand [OF "1.prems"(2) [unfolded q]] False
      have "trace_inv db floor m root a1 q1" by simp
      with "1.hyps"(2) [OF q refl refl False r(1,2)] r(3) r1 show ?thesis by simp
    qed
  qed
qed

text \<open>The arena is well formed and within the cap on every path, the truncated one included.\<close>

lemma trace_edges_wf:
  "trace_edges db floor m d i es (a, q) = Inr ((a', q'), b) \<Longrightarrow> wf_arena a \<Longrightarrow> i < length a \<Longrightarrow>
   length a \<le> TRACE_NODE_CAP \<Longrightarrow> \<forall>x \<in> set q. fst x < length a \<Longrightarrow>
   wf_arena a' \<and> length a \<le> length a' \<and> length a' \<le> TRACE_NODE_CAP \<and> (\<forall>x \<in> set q'. fst x < length a') \<and>
   (b \<longrightarrow> length a' = TRACE_NODE_CAP)"
proof (induction es arbitrary: a q)
  case (Cons e es)
  obtain v where v: "confidence_visible_at_floor (rf_confidence e) floor = Inr v"
    using Cons.prems(1) by (auto simp: res_simps)
  consider "\<not> v" | "v" "length a \<ge> TRACE_NODE_CAP" | "v" "length a < TRACE_NODE_CAP" by linarith
  then show ?case
  proof cases
    case 1
    with Cons.prems(1) v have "trace_edges db floor m d i es (a, q) = Inr ((a', q'), b)" by simp
    from Cons.IH [OF this Cons.prems(2-5)] show ?thesis .
  next
    case 2
    with Cons.prems v show ?thesis by auto
  next
    case 3
    let ?a1 = "a @ [builder_callee e]"
    let ?a2 = "?a1[i := (?a1 ! i)\<lparr>tb_children := tb_children (?a1 ! i) @ [length a]\<rparr>]"
    let ?q2 = "q @ (case edge_symbol db e of Some s \<Rightarrow> if d < m then [(length a, s, d)] else []
      | None \<Rightarrow> [])"
    have run: "trace_edges db floor m d i es (?a2, ?q2) = Inr ((a', q'), b)"
      using Cons.prems(1) v 3 by (simp add: Let_def)
    have "?a2 = grown a i [builder_callee e]"
      using Cons.prems(3) by (simp add: grown_def list_update_append1 nth_append)
    then have wf: "wf_arena ?a2"
      using wf_grown [OF Cons.prems(2,3), of "[builder_callee e]"] by (simp add: builder_callee_def)
    have q: "\<forall>x \<in> set ?q2. fst x < length ?a2"
      using Cons.prems(5) by (auto split: option.splits simp: less_Suc_eq)
    have "length ?a2 = Suc (length a)" by simp
    with Cons.IH [OF run wf _ _ q] Cons.prems(3) 3 show ?thesis by simp
  qed
qed simp

lemma trace_loop_wf:
  "trace_loop db floor m (a, q) = Inr (a', b) \<Longrightarrow> wf_arena a \<Longrightarrow> a \<noteq> [] \<Longrightarrow>
   length a \<le> TRACE_NODE_CAP \<Longrightarrow> \<forall>x \<in> set q. fst x < length a \<Longrightarrow>
   wf_arena a' \<and> a' \<noteq> [] \<and> length a' \<le> TRACE_NODE_CAP \<and> (b \<longrightarrow> length a' = TRACE_NODE_CAP)"
proof (induction db floor m "(a, q)" arbitrary: a q rule: trace_loop.induct)
  case (1 db floor m a q)
  note run = "1.prems"(1) [unfolded trace_loop.simps [of db floor m a q]]
  show ?case
  proof (cases q)
    case Nil
    with run "1.prems" show ?thesis by simp
  next
    case (Cons x rest)
    obtain i s d where x: "x = (i, s, d)" by (cases x)
    note q = Cons [unfolded x]
    have i: "i < length a" "\<forall>x \<in> set rest. fst x < length a" using "1.prems"(5) q by auto
    show ?thesis
    proof (cases "m \<le> d")
      case True
      with run q have "trace_loop db floor m (a, rest) = Inr (a', b)" by simp
      from "1.hyps"(1) [OF q refl refl True this "1.prems"(2-4) i(2)] show ?thesis .
    next
      case False
      let ?e = "trace_edges db floor m (d + 1) i (edges_for_symbol db (trace_span s)) (a, rest)"
      obtain a1 q1 b1 where r: "?e = Inr ((a1, q1), b1)"
        using run q False by (cases ?e) auto
      note wf = trace_edges_wf [OF r "1.prems"(2) i(1) "1.prems"(4) i(2)]
      show ?thesis
      proof (cases b1)
        case True
        with run q False r wf "1.prems"(3) show ?thesis by auto
      next
        case b1: False
        with run q False r have "trace_loop db floor m (a1, q1) = Inr (a', b)" by simp
        moreover have "a1 \<noteq> []" using wf "1.prems"(3) by auto
        ultimately show ?thesis using "1.hyps"(2) [OF q refl refl False r] b1 wf by simp
      qed
    qed
  qed
qed

text \<open>
  C10. A command trace returns a tree for every known command. When it is not truncated, the tree
  is the call tree of the handler to the requested depth (five when none is given), with one node
  per visible call edge, and the reported node count and total are its size. When it is
  truncated, exactly 200 nodes are reported and no total.
\<close>

theorem trace_run_call_tree:
  assumes "trace_run (Some db) command depth floor = Inr res"
    and "command_handler_row db (normalize_command_selector command) = Some handler"
  shows "tr_root res \<noteq> None \<and> tr_visited_nodes res \<le> 200 \<and>
    (tr_truncated res \<longrightarrow> tr_visited_nodes res = 200 \<and> tr_total res = None) \<and>
    (\<not> tr_truncated res \<longrightarrow>
       tr_root res = Some (call_tree db floor (if depth = 0 then 5 else depth) handler) \<and>
       tr_visited_nodes res = tree_size (call_tree db floor (if depth = 0 then 5 else depth) handler) \<and>
       tr_total res = Some (tr_visited_nodes res))"
proof -
  let ?m = "if depth = 0 then DEFAULT_TRACE_DEPTH else depth"
  let ?root = "call_tree db floor ?m handler"
  obtain a b where run: "trace_loop db floor ?m ([builder_root handler], [(0, handler, 0)]) = Inr (a, b)"
    and res: "res = \<lparr>tr_root = build_tree (length a) a 0, tr_truncated = b, tr_visited_nodes = length a,
      tr_total = (if b then None else Some (length a))\<rparr>"
    using assms by (auto simp: trace_run_def with_read_connection_def Let_def res_bind_Inr_iff)
  have wf0: "wf_arena [builder_root handler]" by (simp add: wf_arena_def builder_root_def)
  have wf: "wf_arena a" "a \<noteq> []" "length a \<le> TRACE_NODE_CAP" "b \<longrightarrow> length a = TRACE_NODE_CAP"
    using trace_loop_wf [OF run wf0] by (auto simp: TRACE_NODE_CAP_def)
  have build: "build_tree (length a) a 0 = Some (ctree a Map.empty 0)"
    using build_tree_ctree [OF wf(1), of 0 "length a"] wf(2) by simp
  have "ctree [builder_root handler] (pend_of db floor ?m [(0, handler, 0)]) 0 = ?root"
    by (subst ctree.simps) (simp add: pend_of_def owed_def builder_root_def call_tree_def)
  then have "trace_inv db floor ?m ?root [builder_root handler] [(0, handler, 0)]"
    using wf0 by (simp add: trace_inv_def builder_root_def owed_def forest_size_def call_tree_def)
  then have "\<not> b \<Longrightarrow> trace_inv db floor ?m ?root a []"
    using trace_loop_tree [of db floor ?m _ _ a ?root] run by simp
  then have "\<not> b \<Longrightarrow> ctree a Map.empty 0 = ?root \<and> length a = tree_size ?root"
    by (simp add: trace_inv_def pend_of_def)
  with wf build show ?thesis by (auto simp: res TRACE_NODE_CAP_def DEFAULT_TRACE_DEPTH_def)
qed

theorem trace_run_call_tree_witness:
  "\<exists>res. trace_run (Some demo_db) ''command: go'' 0 SameModule = Inr res \<and>
     tr_root res = Some (call_tree demo_db SameModule 5 (demo_symbol 2 ''main'' 15 37)) \<and>
     tr_visited_nodes res = 2"
proof -
  let ?run = "trace_run (Some demo_db) ''command: go'' 0 SameModule"
  have "case ?run of Inl _ \<Rightarrow> False | Inr res \<Rightarrow> \<not> tr_truncated res \<and> tr_visited_nodes res = 2" by code_simp
  then obtain res where r: "?run = Inr res" "\<not> tr_truncated res" "tr_visited_nodes res = 2"
    by (cases ?run) auto
  have h: "command_handler_row demo_db (normalize_command_selector ''command: go'') =
      Some (demo_symbol 2 ''main'' 15 37)" by code_simp
  have "tr_root res = Some (call_tree demo_db SameModule (if (0::nat) = 0 then 5 else 0) (demo_symbol 2 ''main'' 15 37))"
    using trace_run_call_tree [OF r(1) h] r(2) by blast
  with r show ?thesis by (intro exI [of _ res]) simp
qed

end
