(* ===== verification/Query_Lookup.thy ===== *)
theory Query_Lookup
  imports Query_Trace
begin

text \<open>
  Reading one node (\<open>query/show.rs\<close>) and full-text search (\<open>query/search.rs\<close>).

  SQLite's FTS5 engine is a parameter of the search: \<open>fts kind query rowid\<close> is the \<open>bm25\<close> rank
  of a row of the kind's index when the row matches the query, \<open>None\<close> when it does not. Rows of
  equal rank keep the order of the arms and of their tables.
\<close>

section \<open>Model: show\<close>

definition DEFAULT_SHOW_MAX_BYTES :: nat where
  "DEFAULT_SHOW_MAX_BYTES = 64 * 1024"

record source_span =
  ss_start :: nat
  ss_end :: nat

record node_metadata =
  nm_file :: string
  nm_span :: source_span
  nm_kind :: string
  nm_name :: "string option"
  nm_qualified :: "string option"
  nm_truncated :: bool

record node_view =
  nv_bytes :: string
  nv_metadata :: node_metadata

text \<open>The four fields \<open>NodeView::serialize\<close> writes.\<close>

record node_view_json =
  nj_source :: "string option"
  nj_source_bytes :: "string option"
  nj_source_encoding :: string
  nj_metadata :: node_metadata

definition serialize_node_view :: "node_view \<Rightarrow> node_view_json" where
  "serialize_node_view v =
     (if utf8_check (nv_bytes v) = None
      then \<lparr>nj_source = Some (nv_bytes v), nj_source_bytes = None, nj_source_encoding = ''utf-8'',
            nj_metadata = nv_metadata v\<rparr>
      else \<lparr>nj_source = None, nj_source_bytes = Some (nv_bytes v), nj_source_encoding = ''bytes'',
            nj_metadata = nv_metadata v\<rparr>)"

record resolved_view =
  rv_file :: string
  rv_span_start :: int
  rv_span_end :: int
  rv_kind :: string
  rv_name :: "string option"
  rv_qualified :: "string option"

definition resolved_symbol :: "symbol_row \<Rightarrow> resolved_view" where
  "resolved_symbol s =
     \<lparr>rv_file = sy_file_path s, rv_span_start = sy_span_start s, rv_span_end = sy_span_end s,
      rv_kind = sy_kind s, rv_name = Some (sy_name s), rv_qualified = Some (sy_qualified s)\<rparr>"

definition name_rank :: "string \<Rightarrow> symbol_row \<Rightarrow> nat \<times> int" where
  "name_rank symbol s =
     (if sy_qualified s = symbol then 0 else if sy_name s = symbol then 1 else 2, sy_id s)"

definition show_symbol_row :: "graph_db \<Rightarrow> string \<Rightarrow> string \<Rightarrow> string \<Rightarrow> symbol_row option" where
  "show_symbol_row db path symbol kind =
     first_row (sort_key (name_rank symbol)
       (filter (\<lambda>s. sy_file_path s = path \<and> sy_kind s = kind \<and>
                   (sy_name s = symbol \<or> sy_qualified s = symbol)) (db_symbols db)))"

definition show_resolve_file :: "graph_db \<Rightarrow> string \<Rightarrow> resolved_view option" where
  "show_resolve_file db path =
     map_option (\<lambda>f. \<lparr>rv_file = fl_path f, rv_span_start = 0, rv_span_end = fl_byte_len f,
                      rv_kind = ''file'', rv_name = Some (fl_path f), rv_qualified = None\<rparr>)
       (first_row (filter (\<lambda>f. fl_path f = path) (db_files db)))"

definition show_resolve_module :: "graph_db \<Rightarrow> string \<Rightarrow> resolved_view option" where
  "show_resolve_module db qualified =
     map_option resolved_symbol
       (first_row (sort_key (name_rank qualified)
         (filter (\<lambda>s. sy_kind s = ''module'' \<and> (sy_qualified s = qualified \<or> sy_name s = qualified))
           (db_symbols db))))"

text \<open>The joined row of a command: its handler symbol when that exists, else the rest of its file.\<close>

definition command_view :: "graph_db \<Rightarrow> command_row \<Rightarrow> file_row \<Rightarrow> resolved_view" where
  "command_view db c f =
     (let handler = first_row (filter (\<lambda>s. cm_handler_symbol c = Some (sy_id s)) (db_symbols db)) in
      \<lparr>rv_file = (case handler of Some s \<Rightarrow> sy_file_path s | None \<Rightarrow> cm_file_path c),
       rv_span_start = (case handler of Some s \<Rightarrow> sy_span_start s | None \<Rightarrow> cm_span_start c),
       rv_span_end = (case handler of Some s \<Rightarrow> sy_span_end s | None \<Rightarrow> fl_byte_len f),
       rv_kind = ''command'', rv_name = Some (cm_name c),
       rv_qualified = map_option sy_qualified handler\<rparr>)"

definition show_resolve_command :: "graph_db \<Rightarrow> string \<Rightarrow> resolved_view option" where
  "show_resolve_command db name =
     first_row (concat (map (\<lambda>c. map (command_view db c)
           (filter (\<lambda>f. fl_path f = cm_file_path c) (db_files db)))
         (filter (\<lambda>c. cm_name c = name) (db_commands db))))"

definition show_resolve_selector :: "graph_db \<Rightarrow> selector \<Rightarrow> resolved_view option" where
  "show_resolve_selector db sel =
     (case sel of
        Symbol path symbol kind \<Rightarrow> map_option resolved_symbol (show_symbol_row db path symbol kind)
      | File path \<Rightarrow> show_resolve_file db path
      | Module qualified \<Rightarrow> show_resolve_module db qualified
      | Command name \<Rightarrow> show_resolve_command db name
      | Dir path \<Rightarrow> None)"

definition materialize_view :: "worktree \<Rightarrow> resolved_view \<Rightarrow> nat \<Rightarrow> node_view graph_result" where
  "materialize_view wt rv max_bytes =
     res_bind (contained_worktree_source wt (rv_file rv)) (\<lambda>source_path.
     res_bind (read_show_window wt source_path ''read source file for graph show''
                 ''read source span for graph show'' (rv_span_start rv) (rv_span_end rv) max_bytes
                 (rv_file rv)) (\<lambda>window.
       Inr \<lparr>nv_bytes = sw_bytes window,
             nv_metadata = \<lparr>nm_file = rv_file rv,
                nm_span = \<lparr>ss_start = sw_start window, ss_end = sw_end window\<rparr>,
                nm_kind = rv_kind rv, nm_name = rv_name rv, nm_qualified = rv_qualified rv,
                nm_truncated = sw_truncated window\<rparr>\<rparr>))"

definition show_run ::
  "worktree \<Rightarrow> graph_db option \<Rightarrow> selector \<Rightarrow> nat \<Rightarrow> node_view option graph_result" where
  "show_run wt conn sel max_bytes =
     res_bind (with_read_connection conn (\<lambda>db. Inr (show_resolve_selector db sel))) (\<lambda>resolved.
       case resolved of
         None \<Rightarrow> Inr None
       | Some rv \<Rightarrow> res_map Some (materialize_view wt rv max_bytes))"

section \<open>Model: search\<close>

definition DEFAULT_SEARCH_LIMIT :: nat where
  "DEFAULT_SEARCH_LIMIT = 20"

datatype search_kind = SearchSymbol | SearchString | SearchConfig

record search_query =
  sq_query :: string
  sq_kind :: "search_kind option"
  sq_lang :: "string option"
  sq_limit :: "nat option"

definition search_query_new :: "string \<Rightarrow> search_query" where
  "search_query_new query = \<lparr>sq_query = query, sq_kind = None, sq_lang = None, sq_limit = None\<rparr>"

definition search_limit :: "search_query \<Rightarrow> nat" where
  "search_limit q = (case sq_limit q of None \<Rightarrow> DEFAULT_SEARCH_LIMIT | Some n \<Rightarrow> n)"

definition search_kind_parse :: "string \<Rightarrow> search_kind option" where
  "search_kind_parse value =
     (if value = ''symbol'' then Some SearchSymbol
      else if value = ''string'' then Some SearchString
      else if value = ''config'' then Some SearchConfig
      else None)"

datatype search_match =
    SymbolMatch (ma_label: string) (ma_path: string) (ma_line: nat)
  | StringLiteral (ma_label: string) (ma_path: string) (ma_line: nat)
  | ConfigMatch (ma_label: string) (ma_path: string) (ma_line: nat)

record search_result =
  sr_matches :: "search_match list"
  sr_total :: "nat option"
  sr_truncated :: bool

record raw_match =
  rm_kind :: search_kind
  rm_label :: string
  rm_path :: string
  rm_span_start :: "int option"
  rm_line :: "int option"

lemma strip_one_shorter: "strip_one ps s = Some r \<Longrightarrow> length r < length s"
  by (drule strip_one_SomeD) auto

text \<open>\<open>str::split_whitespace\<close>: the maximal runs without white space.\<close>

function split_ws :: "string \<Rightarrow> string \<Rightarrow> string list" where
  "split_ws acc [] = (if acc = [] then [] else [acc])"
| "split_ws acc (c # cs) =
     (case strip_one ws_codes (c # cs) of
        Some rest \<Rightarrow> if acc = [] then split_ws [] rest else acc # split_ws [] rest
      | None \<Rightarrow> split_ws (acc @ [c]) cs)"
  by pat_completeness auto
termination
  by (relation "measure (\<lambda>(acc, s). length s)") (auto dest!: strip_one_shorter)

declare split_ws.simps [simp del]

definition split_whitespace :: "string \<Rightarrow> string list" where
  "split_whitespace s = split_ws [] s"

definition quote_term :: "string \<Rightarrow> string" where
  "quote_term t = CHR 0x22 # replace_char CHR 0x22 [CHR 0x22, CHR 0x22] t @ [CHR 0x22]"

definition fts_query :: "string \<Rightarrow> string" where
  "fts_query query = join_str '' '' (map quote_term (split_whitespace query))"

text \<open>A row of the union of the three arms: kind, label, path, offset, line, rank.\<close>

type_synonym 'r arm_row = "string \<times> string \<times> string \<times> int option \<times> int option \<times> 'r"

definition lang_ok :: "graph_db \<Rightarrow> string option \<Rightarrow> string \<Rightarrow> bool" where
  "lang_ok db lang path \<longleftrightarrow>
     list_ex (\<lambda>f. fl_path f = path \<and> (case lang of None \<Rightarrow> True | Some l \<Rightarrow> fl_lang f = l)) (db_files db)"

definition sql_arm ::
  "(search_kind \<Rightarrow> string \<Rightarrow> int \<Rightarrow> 'r option) \<Rightarrow> graph_db \<Rightarrow> string \<Rightarrow> string option \<Rightarrow> search_kind \<Rightarrow>
     'r arm_row list" where
  "sql_arm fts db query lang kind =
     (case kind of
        SearchSymbol \<Rightarrow>
          kept (map (\<lambda>s. if lang_ok db lang (sy_file_path s)
             then map_option (\<lambda>rank. (''symbol'', sy_name s, sy_file_path s, Some (sy_span_start s), None, rank))
                    (fts SearchSymbol query (sy_id s))
             else None) (db_symbols db))
      | SearchString \<Rightarrow>
          kept (map (\<lambda>s. if lang_ok db lang (st_file_path s)
             then map_option (\<lambda>rank. (''string'', st_value s, st_file_path s, None, Some (st_line s), rank))
                    (fts SearchString query (st_id s))
             else None) (db_strings db))
      | SearchConfig \<Rightarrow>
          kept (map (\<lambda>c. if lang_ok db lang (cf_file_path c)
             then map_option (\<lambda>rank. (''config'', cf_key c, cf_file_path c, None, Some (cf_line c), rank))
                    (fts SearchConfig query (cf_id c))
             else None) (db_configs db)))"

definition search_arms :: "search_query \<Rightarrow> search_kind list" where
  "search_arms q =
     filter (\<lambda>kind. case sq_kind q of None \<Rightarrow> True | Some f \<Rightarrow> f = kind)
       [SearchSymbol, SearchString, SearchConfig]"

definition raw_match_from_row :: "'r arm_row \<Rightarrow> raw_match graph_result" where
  "raw_match_from_row = (\<lambda>(kind, label, path, span_start, line, rank).
     case search_kind_parse kind of
       None \<Rightarrow> Inl (Sqlite ''collect graph search matches'')
     | Some k \<Rightarrow> Inr \<lparr>rm_kind = k, rm_label = label, rm_path = path, rm_span_start = span_start,
                      rm_line = line\<rparr>)"

definition query_matches ::
  "(search_kind \<Rightarrow> string \<Rightarrow> int \<Rightarrow> 'r::linorder option) \<Rightarrow> graph_db \<Rightarrow> search_query \<Rightarrow> string \<Rightarrow> nat \<Rightarrow>
     raw_match list graph_result" where
  "query_matches fts db q query limit =
     (if search_arms q = [] then Inr []
      else res_bind (usize_to_i64 ''convert search result limit'' limit) (\<lambda>lim.
        res_mapM raw_match_from_row
          (take (nat lim) (sort_key (\<lambda>(kind, label, path, span_start, line, rank). rank)
            (concat (map (sql_arm fts db (fts_query query) (sq_lang q)) (search_arms q)))))))"

definition symbol_line :: "worktree \<Rightarrow> string \<Rightarrow> int \<Rightarrow> nat graph_result" where
  "symbol_line wt path span_start =
     res_bind (i64_to_usize ''convert graph search symbol span'' span_start) (\<lambda>start.
     res_bind (contained_worktree_source wt path) (\<lambda>source_path.
     res_bind (read_indexed_source wt source_path ''read source file for graph search'') (\<lambda>bytes.
       if start > length bytes
       then Inl (InvalidData ''read source line for graph search''
              (''span_start '' @ show_nat start @ '' is beyond source length ''
                @ show_nat (length bytes) @ '' for '' @ path))
       else Inr (length (filter (\<lambda>b. b = CHR 0x0A) (take start bytes)) + 1))))"

definition materialize_match :: "worktree \<Rightarrow> raw_match \<Rightarrow> search_match graph_result" where
  "materialize_match wt raw =
     res_bind
       (case (rm_line raw, rm_span_start raw) of
          (Some line, _) \<Rightarrow> i64_to_usize ''convert graph search line'' line
        | (None, Some span_start) \<Rightarrow> symbol_line wt (rm_path raw) span_start
        | (None, None) \<Rightarrow> Inl (InvalidData ''materialize graph search match''
                                ''match row has neither line nor span_start''))
       (\<lambda>line. Inr (case rm_kind raw of
           SearchSymbol \<Rightarrow> SymbolMatch (rm_label raw) (rm_path raw) line
         | SearchString \<Rightarrow> StringLiteral (rm_label raw) (rm_path raw) line
         | SearchConfig \<Rightarrow> ConfigMatch (rm_label raw) (rm_path raw) line))"

definition search_run ::
  "(search_kind \<Rightarrow> string \<Rightarrow> int \<Rightarrow> 'r::linorder option) \<Rightarrow> worktree \<Rightarrow> graph_db option \<Rightarrow> search_query \<Rightarrow>
     search_result graph_result" where
  "search_run fts wt conn q =
     (let query = trim_str (sq_query q); limit = search_limit q in
      if query = []
      then Inl (InvalidInput ''validate graph search'' ''query'' ''the search query must not be empty'')
      else if limit = 0
      then Inl (InvalidInput ''validate graph search'' ''limit'' ''the search limit must be at least 1'')
      else res_bind
        (with_read_connection conn (\<lambda>db. query_matches fts db q query (saturating_add limit 1)))
        (\<lambda>raw_matches.
          let truncated = length raw_matches > limit in
          res_bind (res_mapM (materialize_match wt) (take limit raw_matches)) (\<lambda>matches.
            Inr \<lparr>sr_matches = matches,
                  sr_total = (if truncated then None else Some (length matches)),
                  sr_truncated = truncated\<rparr>)))"

section \<open>Showing a node\<close>

interpretation show_lookup: symbol_lookup show_symbol_row
  by (rule symbol_lookup_first_row [where key = name_rank and P = selected])
     (auto simp: show_symbol_row_def selected_def [abs_def] name_rank_def preferred_def
       less_eq_prod_def split: if_splits)


lemma show_run_SomeD:
  assumes "show_run wt (Some db) sel max_bytes = Inr (Some v)"
  shows "\<exists>rv path w. show_resolve_selector db sel = Some rv \<and>
    contained_worktree_source wt (rv_file rv) = Inr path \<and>
    read_show_window wt path ''read source file for graph show'' ''read source span for graph show''
      (rv_span_start rv) (rv_span_end rv) max_bytes (rv_file rv) = Inr w \<and>
    nv_bytes v = sw_bytes w \<and> nm_truncated (nv_metadata v) = sw_truncated w \<and>
    nm_file (nv_metadata v) = rv_file rv"
  using assms
  by (auto simp: show_run_def with_read_connection_def materialize_view_def res_simps
      split: option.splits)

text \<open>
  C27. Showing a node of a file whose resolved span is UTF-8 text returns text: whatever the byte
  budget, the view is a prefix of the span within the budget, it serializes as \<open>utf-8\<close>, and
  \<open>truncated\<close> says whether it stops before the end of the span.
\<close>

theorem show_run_text:
  assumes "show_run wt (Some db) sel max_bytes = Inr (Some v)"
    and "show_resolve_selector db sel = Some rv"
    and "contained_worktree_source wt (rv_file rv) = Inr path"
    and "wt_open wt path = Some (Regular len body)"
    and "rv_span_end rv \<le> I64_MAX" "nat (rv_span_end rv) \<le> length body"
    and "utf8_ok (take (nat (rv_span_end rv) - nat (rv_span_start rv)) (drop (nat (rv_span_start rv)) body))"
      (is "utf8_ok ?span")
  shows "nj_source (serialize_node_view v) = Some (nv_bytes v) \<and>
    nj_source_encoding (serialize_node_view v) = ''utf-8'' \<and>
    prefix (nv_bytes v) ?span \<and> length (nv_bytes v) \<le> max_bytes \<and>
    (nm_truncated (nv_metadata v) \<longleftrightarrow> nv_bytes v \<noteq> ?span)"
proof -
  obtain w where w: "read_show_window wt path ''read source file for graph show''
      ''read source span for graph show'' (rv_span_start rv) (rv_span_end rv) max_bytes (rv_file rv) = Inr w"
    and v: "nv_bytes v = sw_bytes w" "nm_truncated (nv_metadata v) = sw_truncated w"
    using show_run_SomeD [OF assms(1)] assms(2,3) by auto
  note b = show_window_budget_aux [OF w assms(4,5)]
  have pre: "prefix (sw_bytes w) ?span" and ok: "utf8_ok (sw_bytes w)" and le: "length (sw_bytes w) \<le> max_bytes"
    and tr: "sw_truncated w \<longleftrightarrow> length (sw_bytes w) < nat (rv_span_end rv) - nat (rv_span_start rv)"
    using b assms(6,7) by blast+
  have "length ?span = nat (rv_span_end rv) - nat (rv_span_start rv)" using assms(6) by simp
  then have "sw_truncated w \<longleftrightarrow> length (sw_bytes w) < length ?span" unfolding tr by simp
  moreover have "length (sw_bytes w) < length ?span \<longleftrightarrow> sw_bytes w \<noteq> ?span"
    using pre by (metis less_irrefl prefix_length_less strict_prefix_def)
  ultimately have "sw_truncated w \<longleftrightarrow> sw_bytes w \<noteq> ?span" by simp
  with pre ok le show ?thesis by (simp add: v serialize_node_view_def)
qed

theorem show_run_text_witness:
  "\<exists>v. show_run demo_repo (Some demo_db) (Symbol ''src/a.rs'' ''main'' ''function'') 10 = Inr (Some v) \<and>
     nj_source (serialize_node_view v) = Some (nv_bytes v) \<and> length (nv_bytes v) \<le> 10"
proof -
  let ?sel = "Symbol ''src/a.rs'' ''main'' ''function''"
  let ?run = "show_run demo_repo (Some demo_db) ?sel 10"
  let ?rv = "resolved_symbol (demo_symbol 2 ''main'' 15 37)"
  have "case ?run of Inr (Some v) \<Rightarrow> True | _ \<Rightarrow> False" by code_simp
  then obtain v where v: "?run = Inr (Some v)" by (auto split: sum.splits option.splits)
  have r: "show_resolve_selector demo_db ?sel = Some ?rv" by code_simp
  have p: "contained_worktree_source demo_repo (rv_file ?rv) = Inr ''/w/src/a.rs''" by code_simp
  have o: "wt_open demo_repo ''/w/src/a.rs'' = Some (Regular 38 demo_source)" by (simp add: demo_repo_def)
  have e: "rv_span_end ?rv \<le> I64_MAX" "nat (rv_span_end ?rv) \<le> length demo_source" by code_simp+
  have u: "utf8_ok (take (nat (rv_span_end ?rv) - nat (rv_span_start ?rv))
      (drop (nat (rv_span_start ?rv)) demo_source))" by code_simp
  from show_run_text [OF v r p o e u] v show ?thesis by blast
qed

section \<open>Quoting\<close>

lemma split_ws_nonblank: "[] \<notin> set (split_ws acc s)"
  by (induction acc s rule: split_ws.induct) (auto simp: split_ws.simps split: option.splits)

lemma split_ws_nonempty: "acc \<noteq> [] \<Longrightarrow> split_ws acc s \<noteq> []"
  by (induction acc s rule: split_ws.induct) (auto simp: split_ws.simps split: option.splits)

lemma split_whitespace_trimmed: "trim_str q \<noteq> [] \<Longrightarrow> split_whitespace (trim_str q) \<noteq> []"
  using trim_str_trimmed [of q]
  by (cases "trim_str q") (auto simp: split_whitespace_def split_ws.simps split_ws_nonempty
      strip_one_ws [symmetric])

text \<open>
  The reader of a list of double-quoted strings separated by single spaces, in which a doubled
  quote stands for one quote.
\<close>

fun unquote :: "string \<Rightarrow> (string \<times> string) option" where
  "unquote [] = None"
| "unquote [c] = (if c = CHR 0x22 then Some ([], []) else None)"
| "unquote (c # d # r) =
     (if c \<noteq> CHR 0x22 then map_option (\<lambda>(t, rest). (c # t, rest)) (unquote (d # r))
      else if d = CHR 0x22 then map_option (\<lambda>(t, rest). (c # t, rest)) (unquote r)
      else Some ([], d # r))"

lemma unquote_shorter: "unquote s = Some (t, rest) \<Longrightarrow> length rest < length s"
  by (induction s arbitrary: t rule: unquote.induct) (fastforce split: if_splits)+

function quoted_terms :: "string \<Rightarrow> string list option" where
  "quoted_terms s =
     (case s of
        [] \<Rightarrow> Some []
      | c # r \<Rightarrow>
          if c \<noteq> CHR 0x22 then None
          else case unquote r of
                 None \<Rightarrow> None
               | Some (t, rest) \<Rightarrow>
                   (case rest of
                      [] \<Rightarrow> Some [t]
                    | b # after \<Rightarrow>
                        if b = CHR '' '' \<and> after \<noteq> [] then map_option (Cons t) (quoted_terms after) else None))"
  by pat_completeness auto
termination
  by (relation "measure length") (auto dest!: unquote_shorter)

declare quoted_terms.simps [simp del]

lemma unquote_replaced:
  assumes "rest = [] \<or> hd rest \<noteq> CHR 0x22"
  shows "unquote (replace_char CHR 0x22 [CHR 0x22, CHR 0x22] t @ CHR 0x22 # rest) = Some (t, rest)"
proof (induction t)
  case Nil
  then show ?case using assms by (cases rest) auto
next
  case (Cons c t)
  have ne: "\<exists>d r. replace_char CHR 0x22 [CHR 0x22, CHR 0x22] t @ CHR 0x22 # rest = d # r"
    by (cases "replace_char CHR 0x22 [CHR 0x22, CHR 0x22] t") auto
  have r: "replace_char CHR 0x22 [CHR 0x22, CHR 0x22] (c # t) =
      (if c = CHR 0x22 then [CHR 0x22, CHR 0x22] else [c]) @ replace_char CHR 0x22 [CHR 0x22, CHR 0x22] t"
    by (simp add: replace_char_def)
  show ?case unfolding r using Cons ne by (cases "c = CHR 0x22") auto
qed

lemma quoted_terms_join: "quoted_terms (join_str '' '' (map quote_term ts)) = Some ts"
proof (induction ts)
  case Nil
  then show ?case by (simp add: quoted_terms.simps)
next
  case (Cons t ts)
  show ?case
  proof (cases "ts = []")
    case True
    then show ?thesis
      using unquote_replaced [of "[]" t] by (subst quoted_terms.simps) (simp add: quote_term_def)
  next
    case False
    let ?after = "join_str '' '' (map quote_term ts)"
    have "join_str '' '' (map quote_term (t # ts)) =
        CHR 0x22 # replace_char CHR 0x22 [CHR 0x22, CHR 0x22] t @ CHR 0x22 # CHR '' '' # ?after"
      using False by (simp add: join_str_Cons quote_term_def)
    moreover have "?after \<noteq> []" using False by (cases ts rule: list.exhaust; cases "tl ts") (auto simp: quote_term_def)
    ultimately show ?thesis
      using unquote_replaced [of "CHR '' '' # ?after" t] Cons by (subst quoted_terms.simps) simp
  qed
qed

text \<open>
  C26. The full-text query built from a user's text is a list of quoted terms that reads back as
  exactly the white-space separated words of that text, quotes included, so no word can act as a
  query operator; and a query that passes validation has at least one term and no blank one.
\<close>

theorem fts_query_roundtrip:
  "quoted_terms (fts_query q) = Some (split_whitespace q) \<and> [] \<notin> set (split_whitespace q) \<and>
   (split_whitespace (trim_str q) = [] \<longleftrightarrow> trim_str q = [])"
proof -
  have "split_whitespace [] = []" by (simp add: split_whitespace_def split_ws.simps)
  then show ?thesis
    using split_whitespace_trimmed [of q]
    by (auto simp: fts_query_def quoted_terms_join split_whitespace_def split_ws_nonblank)
qed

section \<open>What a search returns\<close>

definition ranked_rows ::
  "(search_kind \<Rightarrow> string \<Rightarrow> int \<Rightarrow> 'r::linorder option) \<Rightarrow> graph_db \<Rightarrow> search_query \<Rightarrow> 'r arm_row list" where
  "ranked_rows fts db q =
     sort_key (\<lambda>(kind, label, path, span_start, line, rank). rank)
       (concat (map (sql_arm fts db (fts_query (trim_str (sq_query q))) (sq_lang q)) (search_arms q)))"

definition row_match :: "worktree \<Rightarrow> 'r arm_row \<Rightarrow> search_match graph_result" where
  "row_match wt row = res_bind (raw_match_from_row row) (materialize_match wt)"

definition search_spec ::
  "(search_kind \<Rightarrow> string \<Rightarrow> int \<Rightarrow> 'r::linorder option) \<Rightarrow> worktree \<Rightarrow> graph_db \<Rightarrow> search_query \<Rightarrow> nat \<Rightarrow>
     search_result graph_result" where
  "search_spec fts wt db q limit =
     (let rows = ranked_rows fts db q in
      res_bind (res_mapM (row_match wt) (take limit rows)) (\<lambda>matches.
        Inr \<lparr>sr_matches = matches,
              sr_total = (if length rows > limit then None else Some (length rows)),
              sr_truncated = (length rows > limit)\<rparr>))"

lemma sql_arm_kind:
  assumes "row \<in> set (sql_arm fts db query lang kind)"
  shows "\<exists>raw. raw_match_from_row row = Inr raw \<and> rm_kind raw = kind"
  using assms
  by (cases kind)
     (auto simp: sql_arm_def raw_match_from_row_def search_kind_parse_def dest!: set_kept [THEN iffD1] sym [of "Some _"]
       split: if_splits)

lemma search_arms_nonempty: "search_arms q \<noteq> []"
proof (cases "sq_kind q")
  case (Some k)
  then show ?thesis by (cases k) (simp_all add: search_arms_def)
qed (simp add: search_arms_def)

lemma res_mapM_bind:
  assumes "\<And>x. x \<in> set xs \<Longrightarrow> f x = Inr (g x)"
  shows "res_mapM h (map g xs) = res_mapM (\<lambda>x. res_bind (f x) h) xs"
  using assms by (induction xs) auto

text \<open>
  C25. A search rejects a blank query and a zero limit instead of returning nothing, refuses a limit
  the database cannot represent, and otherwise returns the first \<open>limit\<close> rows, in rank order, of
  the rows of the requested kinds and language that match, each with its line; \<open>truncated\<close> says
  exactly whether more rows match, and \<open>total\<close> is the number of matching rows when it is not set.
  Reading only one row past the limit decides both.
\<close>

theorem search_run_spec:
  "search_run fts wt (Some db) q =
     (let limit = search_limit q in
      if trim_str (sq_query q) = []
      then Inl (InvalidInput ''validate graph search'' ''query'' ''the search query must not be empty'')
      else if limit = 0
      then Inl (InvalidInput ''validate graph search'' ''limit'' ''the search limit must be at least 1'')
      else if I64_MAX \<le> int limit
      then Inl (InvalidData ''convert search result limit'' ''out of range integral type conversion attempted'')
      else search_spec fts wt db q limit)"
proof -
  define limit where "limit = search_limit q"
  define rows where "rows = ranked_rows fts db q"
  define raw where "raw row = projr (raw_match_from_row row)" for row :: "'a arm_row"
  have dec: "raw_match_from_row row = Inr (raw row)" if "row \<in> set rows" for row
    using that sql_arm_kind unfolding rows_def ranked_rows_def raw_def by fastforce
  have sat: "int (saturating_add limit 1) > I64_MAX \<longleftrightarrow> I64_MAX \<le> int limit"
    by (auto simp: saturating_add_def USIZE_MAX_def I64_MAX_def min_def)
  have small: "saturating_add limit 1 = limit + 1" if "\<not> I64_MAX \<le> int limit"
    using that by (simp add: saturating_add_def USIZE_MAX_def I64_MAX_def)
  have qm: "query_matches fts db q (trim_str (sq_query q)) (saturating_add limit 1) =
      (if I64_MAX \<le> int limit
       then Inl (InvalidData ''convert search result limit'' ''out of range integral type conversion attempted'')
       else Inr (map raw (take (limit + 1) rows)))"
  proof (cases "I64_MAX \<le> int limit")
    case False
    have "res_mapM raw_match_from_row (take (limit + 1) rows) = Inr (map raw (take (limit + 1) rows))"
      by (rule res_mapM_total) (meson dec in_set_takeD)
    with False show ?thesis
      unfolding query_matches_def usize_to_i64_def sat rows_def ranked_rows_def
      by (simp add: search_arms_nonempty small [OF False, simplified] nat_add_distrib)
  qed (simp add: query_matches_def usize_to_i64_def sat [simplified] search_arms_nonempty)
  have tr: "limit < length (map raw (take (limit + 1) rows)) \<longleftrightarrow> limit < length rows" by auto
  have ms: "res_mapM (materialize_match wt) (take limit (map raw (take (limit + 1) rows))) =
      res_mapM (row_match wt) (take limit rows)"
    unfolding take_map row_match_def
    by (subst res_mapM_bind [symmetric, where g = raw]) (auto simp: min_def dest: dec in_set_takeD)
  have len: "length ms = length rows"
    if "res_mapM (row_match wt) (take limit rows) = Inr ms" "\<not> limit < length rows" for ms
    using that by (auto dest: res_mapM_Inr_length)
  have run: "search_run fts wt (Some db) q = search_spec fts wt db q limit"
    if "trim_str (sq_query q) \<noteq> []" "limit \<noteq> 0" "\<not> I64_MAX \<le> int limit"
  proof -
    have "search_run fts wt (Some db) q = res_bind (res_mapM (row_match wt) (take limit rows)) (\<lambda>matches.
        Inr \<lparr>sr_matches = matches, sr_total = (if limit < length rows then None else Some (length matches)),
              sr_truncated = limit < length rows\<rparr>)"
      unfolding search_run_def Let_def with_read_connection_def option.case limit_def [symmetric] qm
        if_not_P [OF that(1)] if_not_P [OF that(2)] if_not_P [OF that(3)] res_bind.simps tr ms ..
    with len show ?thesis
      unfolding search_spec_def Let_def rows_def [symmetric]
      by (cases "res_mapM (row_match wt) (take limit rows)") auto
  qed
  then show ?thesis
    unfolding Let_def limit_def [symmetric]
    by (auto simp: search_run_def Let_def with_read_connection_def limit_def [symmetric] qm [simplified])
qed

end
