(* ===== verification/Module_Paths.thy ===== *)
theory Module_Paths
  imports Sources Btree
begin

text \<open>
  The text processing under reference resolution: module paths (the free functions of
  \<open>sync/pass2.rs\<close>) and the reading of a qualified name as a type member (\<open>MemberTarget\<close> of
  \<open>sync/pass2/type_member.rs\<close>).

  \<open>char::is_alphanumeric\<close> of a non-ASCII character is decided by the Unicode tables; they are the
  parameter \<open>ualnum\<close>, a predicate on the bytes of the character.
\<close>

section \<open>References\<close>

record raw_ref =
  rw_from_file :: string
  rw_from_span_start :: nat
  rw_from_span_end :: nat
  rw_target_name :: string
  rw_target_qualified :: "string option"
  rw_kind :: string
  rw_confidence :: string
  rw_unresolved_receiver :: "string option"
  rw_spelled_path :: bool

definition resolves_by_name_only :: "raw_ref \<Rightarrow> bool" where
  "resolves_by_name_only r \<longleftrightarrow> rw_unresolved_receiver r = None"

section \<open>Module paths\<close>

abbreviation sep :: string where
  "sep \<equiv> ''::''"

definition path_parts :: "string \<Rightarrow> string list" where
  "path_parts p = filter (\<lambda>part. part \<noteq> []) (split_str sep p)"

definition normalize_module_path :: "string \<Rightarrow> string" where
  "normalize_module_path path = join_str sep (path_parts (replace_char CHR ''.'' sep path))"

definition join_module_symbol :: "string \<Rightarrow> string \<Rightarrow> string" where
  "join_module_symbol module symbol = (if module = [] then symbol else module @ sep @ symbol)"

definition is_module_symbol :: "string \<Rightarrow> string \<Rightarrow> string \<Rightarrow> bool" where
  "is_module_symbol target module symbol \<longleftrightarrow>
     (if module = [] then target = symbol
      else length target = length module + 2 + length symbol \<and> starts_with module target \<and>
           starts_with sep (drop (length module) target) \<and> ends_with symbol target)"

definition is_module_suffix :: "string \<Rightarrow> string \<Rightarrow> bool" where
  "is_module_suffix path module \<longleftrightarrow>
     length path \<ge> length module + 2 \<and> ends_with module path \<and>
     ends_with sep (take (length path - length module) path)"

definition file_module_parts :: "string \<Rightarrow> string list" where
  "file_module_parts file_path =
     (let is_rust = ends_with ''.rs'' file_path;
          stem = (case strip_suffix ''.rs'' file_path of
                    Some s \<Rightarrow> s
                  | None \<Rightarrow> (case strip_suffix ''.py'' file_path of Some s \<Rightarrow> s | None \<Rightarrow> file_path));
          parts = filter (\<lambda>part. part \<noteq> [] \<and> part \<noteq> ''src'') (split_str ''/'' stem)
      in if parts \<noteq> [] \<and>
            (is_rust \<and> last parts \<in> {''lib'', ''main'', ''mod''} \<or> \<not> is_rust \<and> last parts = ''__init__'')
         then butlast parts else parts)"

text \<open>The \<open>super\<close> segments at the front of a path, each leaving one module.\<close>

fun pop_supers :: "string list \<Rightarrow> string list \<Rightarrow> string list \<times> string list" where
  "pop_supers base (part # parts) =
     (if part = ''super'' then pop_supers (butlast base) parts else (base, part # parts))"
| "pop_supers base [] = (base, [])"

definition resolve_import_path :: "string \<Rightarrow> string \<Rightarrow> string" where
  "resolve_import_path from_file path =
     (let parts = path_parts (normalize_module_path path) in
      case parts of
        [] \<Rightarrow> []
      | first # rest \<Rightarrow>
          if first = ''crate'' then join_str sep rest
          else if first = ''self'' \<or> first = ''super''
          then let (base, left) = pop_supers (file_module_parts from_file) parts;
                   left' = (case left of p # ps \<Rightarrow> if p = ''self'' then ps else left | [] \<Rightarrow> [])
               in join_str sep (base @ left')
          else join_str sep parts)"

definition resolve_reexport_path :: "string \<Rightarrow> string \<Rightarrow> string \<Rightarrow> string" where
  "resolve_reexport_path from_file module path =
     (let normalized = normalize_module_path path in
      case path_parts normalized of
        [] \<Rightarrow> []
      | first # rest \<Rightarrow>
          if first = ''crate'' then join_str sep rest
          else if first = ''self'' \<or> first = ''super''
          then let base = file_module_parts from_file @ path_parts module;
                   (base', left) = (if first = ''super'' then pop_supers (butlast base) rest else (base, rest))
               in join_str sep (base' @ left)
          else normalized)"

section \<open>Prefixes of a qualified name\<close>

definition is_alphanumeric :: "(string \<Rightarrow> bool) \<Rightarrow> string \<Rightarrow> bool" where
  "is_alphanumeric ualnum ch \<longleftrightarrow> (case ch of [c] \<Rightarrow> is_ascii_alphanumeric c | _ \<Rightarrow> ualnum ch)"

definition is_qualified_word :: "(string \<Rightarrow> bool) \<Rightarrow> string \<Rightarrow> bool" where
  "is_qualified_word ualnum ch \<longleftrightarrow> is_alphanumeric ualnum ch \<or> ch = ''_'' \<or> ch = ''-''"

definition normalize_qualified_prefix :: "(string \<Rightarrow> bool) \<Rightarrow> string \<Rightarrow> string" where
  "normalize_qualified_prefix ualnum pre =
     concat (rev (dropWhile (\<lambda>ch. \<not> is_qualified_word ualnum ch) (rev (utf8_chars pre))))"

definition qualified_prefix_before_name :: "(string \<Rightarrow> bool) \<Rightarrow> string \<Rightarrow> string \<Rightarrow> string option" where
  "qualified_prefix_before_name ualnum qualified name =
     (if qualified = name then Some []
      else case strip_suffix name qualified of
             None \<Rightarrow> None
           | Some pre \<Rightarrow>
               (let trimmed = normalize_qualified_prefix ualnum pre in
                if length trimmed = length pre then None else Some trimmed))"

text \<open>A \<open>BTreeSet\<close> of strings: the members in order.\<close>

definition btree_set :: "'a::linorder list \<Rightarrow> 'a list" where
  "btree_set xs = sort (remdups xs)"

fun suffixes_of :: "string list \<Rightarrow> string list list" where
  "suffixes_of [] = []"
| "suffixes_of (x # xs) = (x # xs) # suffixes_of xs"

definition module_prefixes :: "(string \<Rightarrow> bool) \<Rightarrow> string \<Rightarrow> (string \<times> string) list \<Rightarrow> string list" where
  "module_prefixes ualnum file_path symbols =
     btree_set
       (map normalize_module_path
          (kept (map (\<lambda>(qualified, name). qualified_prefix_before_name ualnum qualified name) symbols))
        @ map (join_str sep) (suffixes_of (file_module_parts file_path)))"

section \<open>Imports\<close>

record import_candidate =
  ic_target_path :: string
  ic_target_symbol :: "string option"

text \<open>\<open>rsplit([':', '.']).find(|part| !part.is_empty()).unwrap_or("")\<close>\<close>

definition last_segment :: "string \<Rightarrow> string" where
  "last_segment path =
     (case filter (\<lambda>part. part \<noteq> []) (split_str ''.'' (replace_char CHR '':'' ''.'' path)) of
        [] \<Rightarrow> []
      | parts \<Rightarrow> last parts)"

definition import_module_for_ref :: "string \<Rightarrow> import_candidate \<Rightarrow> raw_ref \<Rightarrow> string option" where
  "import_module_for_ref from_file im r =
     (let target_qualified = (case rw_target_qualified r of None \<Rightarrow> [] | Some q \<Rightarrow> q) in
      if ic_target_symbol im = Some (rw_target_name r)
      then Some (resolve_import_path from_file (ic_target_path im))
      else case strip_suffix (sep @ rw_target_name r) (normalize_module_path target_qualified) of
             None \<Rightarrow> None
           | Some qualifier \<Rightarrow>
               (let local = (case ic_target_symbol im of
                               Some s \<Rightarrow> s | None \<Rightarrow> last_segment (ic_target_path im)) in
                if rsplit_last sep qualifier \<noteq> local then None
                else let module = resolve_import_path from_file (ic_target_path im) in
                     Some (if ends_with ''.rs'' from_file \<and> ic_target_symbol im \<noteq> None
                           then join_module_symbol module local else module)))"

section \<open>Type members\<close>

record member_target =
  mt_type_path :: string
  mt_type_name :: string
  mt_trait_name :: "string option"
  mt_bracketed :: bool
  mt_trait_object :: bool
  mt_member :: string

fun matching_angle_from :: "nat \<Rightarrow> nat \<Rightarrow> string \<Rightarrow> nat option" where
  "matching_angle_from depth index [] = None"
| "matching_angle_from depth index (ch # rest) =
     (if ch = CHR ''<'' then matching_angle_from (depth + 1) (index + 1) rest
      else if ch = CHR ''>''
      then (if depth - 1 = 0 then Some index else matching_angle_from (depth - 1) (index + 1) rest)
      else matching_angle_from depth (index + 1) rest)"

definition matching_angle :: "string \<Rightarrow> nat option" where
  "matching_angle text = matching_angle_from 1 0 text"

definition strip_generics :: "string \<Rightarrow> string" where
  "strip_generics text =
     (let text' = trim_str (case split_once ''<'' text of Some (a, b) \<Rightarrow> a | None \<Rightarrow> text) in
      case strip_suffix sep text' of Some t \<Rightarrow> t | None \<Rightarrow> text')"

definition is_function_name :: "(string \<Rightarrow> bool) \<Rightarrow> string \<Rightarrow> bool" where
  "is_function_name ualnum name \<longleftrightarrow>
     (case name of [] \<Rightarrow> False | c # _ \<Rightarrow> is_ascii_lower c \<or> c = CHR ''_'') \<and>
     list_all (\<lambda>ch. is_alphanumeric ualnum ch \<or> ch = ''_'') (utf8_chars name)"

text \<open>The part of \<open>MemberTarget::parse\<close> that cuts the text: Self type, trait, member, bracketed.\<close>

definition split_member :: "string \<Rightarrow> (string \<times> string option \<times> string \<times> bool) option" where
  "split_member qualified =
     (case strip_prefix ''<'' qualified of
        Some inner \<Rightarrow>
          (case matching_angle inner of
             None \<Rightarrow> None
           | Some close \<Rightarrow>
               (case strip_prefix sep (drop (close + 1) inner) of
                  None \<Rightarrow> None
                | Some member \<Rightarrow>
                    (case split_once '' as '' (take close inner) of
                       Some (self_type, trait_name) \<Rightarrow>
                         Some (trim_str self_type, Some (trim_str trait_name), member, True)
                     | None \<Rightarrow> Some (trim_str (take close inner), None, member, True))))
      | None \<Rightarrow>
          (case rsplit_once sep qualified of
             None \<Rightarrow> None
           | Some (self_type, member) \<Rightarrow> Some (self_type, None, member, False)))"

definition member_parse :: "(string \<Rightarrow> bool) \<Rightarrow> string \<Rightarrow> member_target option" where
  "member_parse ualnum qualified =
     (case split_member qualified of
        None \<Rightarrow> None
      | Some (self_type, trait_name, member, bracketed) \<Rightarrow>
          if str_contains sep member \<or> \<not> is_function_name ualnum member then None
          else
            let (self_type', trait_object) =
                  (case strip_prefix ''dyn '' self_type of
                     Some object \<Rightarrow> (trim_str object, True)
                   | None \<Rightarrow> (self_type, False));
                stripped = strip_generics self_type';
                (type_path, type_name) =
                  (case rsplit_once sep stripped of Some (path, name) \<Rightarrow> (path, name) | None \<Rightarrow> ([], stripped))
            in if type_name = ''Self'' \<or>
                  \<not> (case type_name of [] \<Rightarrow> False | c # _ \<Rightarrow> is_ascii_upper c)
               then None
               else Some \<lparr>mt_type_path = type_path, mt_type_name = type_name,
                          mt_trait_name = map_option (\<lambda>name. rsplit_last sep (strip_generics name)) trait_name,
                          mt_bracketed = bracketed, mt_trait_object = trait_object, mt_member = member\<rparr>)"

definition member_of_ref :: "(string \<Rightarrow> bool) \<Rightarrow> string \<Rightarrow> raw_ref \<Rightarrow> member_target option" where
  "member_of_ref ualnum from_file r =
     (if \<not> ends_with ''.rs'' from_file \<or> rw_kind r = ''use'' then None
      else case rw_target_qualified r of
             None \<Rightarrow> None
           | Some q \<Rightarrow>
               (case member_parse ualnum q of
                  None \<Rightarrow> None
                | Some target \<Rightarrow> if mt_member target = rw_target_name r then Some target else None))"

datatype tier = Inherent | TraitImpl | TraitDeclaration

text \<open>Tiers compare in declaration order.\<close>

fun tier_rank :: "tier \<Rightarrow> nat" where
  "tier_rank Inherent = 0"
| "tier_rank TraitImpl = 1"
| "tier_rank TraitDeclaration = 2"

lemma tier_rank_inj: "tier_rank a = tier_rank b \<longleftrightarrow> a = b"
  by (cases a; cases b) simp_all

instantiation tier :: linorder
begin

definition less_eq_tier :: "tier \<Rightarrow> tier \<Rightarrow> bool" where
  "less_eq_tier a b \<longleftrightarrow> tier_rank a \<le> tier_rank b"

definition less_tier :: "tier \<Rightarrow> tier \<Rightarrow> bool" where
  "less_tier a b \<longleftrightarrow> tier_rank a < tier_rank b"

instance
  by standard (auto simp: less_eq_tier_def less_tier_def tier_rank_inj)

end

definition tier_of :: "member_target \<Rightarrow> member_target \<Rightarrow> tier option" where
  "tier_of target candidate =
     (if mt_member candidate \<noteq> mt_member target \<or> mt_type_name candidate \<noteq> mt_type_name target then None
      else
        let tier = (if mt_bracketed candidate
                    then (if mt_trait_name candidate = None then Inherent else TraitImpl)
                    else TraitDeclaration) in
        if mt_trait_object target \<and> tier \<noteq> TraitDeclaration \<and> \<not> mt_trait_object candidate then None
        else case (mt_trait_name target, mt_trait_name candidate) of
               (Some wanted, Some found) \<Rightarrow> if wanted \<noteq> found then None else Some tier
             | (Some _, None) \<Rightarrow> if tier = Inherent then None else Some tier
             | _ \<Rightarrow> Some tier)"

definition is_member_symbol :: "(string \<Rightarrow> bool) \<Rightarrow> string \<Rightarrow> bool" where
  "is_member_symbol ualnum qualified \<longleftrightarrow> member_parse ualnum qualified \<noteq> None"

definition names_free_item :: "(string \<Rightarrow> bool) \<Rightarrow> string \<Rightarrow> raw_ref \<Rightarrow> bool" where
  "names_free_item ualnum from_file r \<longleftrightarrow>
     ends_with ''.rs'' from_file \<and> rw_kind r \<noteq> ''use'' \<and> rw_unresolved_receiver r = None \<and>
     (case rw_target_qualified r of
        None \<Rightarrow> False
      | Some target \<Rightarrow> \<not> starts_with ''<'' target \<and> \<not> starts_with ''Self::'' target \<and>
                       member_parse ualnum target = None)"

definition call_module_qualifier :: "(string \<Rightarrow> bool) \<Rightarrow> string \<Rightarrow> raw_ref \<Rightarrow> string option" where
  "call_module_qualifier ualnum from_file r =
     (if \<not> rw_spelled_path r \<or> \<not> names_free_item ualnum from_file r then None
      else case rw_target_qualified r of
             None \<Rightarrow> None
           | Some target \<Rightarrow>
               (case rsplit_once sep (normalize_module_path target) of
                  None \<Rightarrow> None
                | Some (qualifier, _) \<Rightarrow>
                    if hd (split_str sep qualifier) \<in> {''crate'', ''self'', ''super''} then None
                    else Some (replace_char CHR ''-'' ''_'' qualifier)))"

definition prefix_within_module :: "string \<Rightarrow> string \<Rightarrow> bool" where
  "prefix_within_module pre qualifier \<longleftrightarrow>
     (let pre' = replace_char CHR ''-'' ''_'' pre in
      pre' = qualifier \<or> ends_with (sep @ qualifier) pre' \<or> starts_with (qualifier @ sep) pre' \<or>
      str_contains (sep @ qualifier @ sep) pre')"

definition impl_type_and_trait :: "string \<Rightarrow> (string \<times> string) option" where
  "impl_type_and_trait qualified =
     (case strip_prefix ''<'' qualified of
        None \<Rightarrow> None
      | Some q \<Rightarrow>
          (case strip_suffix ''>'' q of
             None \<Rightarrow> None
           | Some inner \<Rightarrow>
               (case split_once '' as '' inner of
                  None \<Rightarrow> None
                | Some (self_type, trait_path) \<Rightarrow>
                    Some (rsplit_last sep (strip_generics (trim_str self_type)),
                          rsplit_last sep (strip_generics (trim_str trait_path))))))"

definition impl_trait_name :: "string \<Rightarrow> string option" where
  "impl_trait_name qualified = map_option snd (impl_type_and_trait qualified)"

section \<open>Tests without building strings\<close>

lemma ends_with_append: "length s \<le> length b \<Longrightarrow> ends_with s (a @ b) \<longleftrightarrow> ends_with s b"
  by (auto simp: ends_with_iff append_eq_append_conv2)

lemma is_module_symbol_iff: "is_module_symbol target module symbol \<longleftrightarrow> target = join_module_symbol module symbol"
proof (cases "module = []")
  case False
  have "is_module_symbol target module symbol \<longleftrightarrow>
      length target = length module + 2 + length symbol \<and>
      (\<exists>r. target = module @ sep @ r) \<and> ends_with symbol target"
    using False by (auto simp: is_module_symbol_def starts_with_iff)
  also have "\<dots> \<longleftrightarrow> target = module @ sep @ symbol"
  proof
    assume a: "length target = length module + 2 + length symbol \<and>
      (\<exists>r. target = module @ sep @ r) \<and> ends_with symbol target"
    then obtain r where r: "target = (module @ sep) @ r" by auto
    with a have "length r = length symbol" by auto
    with a r have "ends_with symbol r" using ends_with_append [of symbol r "module @ sep"] by simp
    with \<open>length r = length symbol\<close> r show "target = module @ sep @ symbol" by (auto simp: ends_with_iff)
  qed (auto simp: ends_with_iff)
  finally show ?thesis using False by (simp add: join_module_symbol_def)
qed (auto simp: is_module_symbol_def join_module_symbol_def)

lemma is_module_suffix_iff: "is_module_suffix path module \<longleftrightarrow> ends_with (sep @ module) path"
proof -
  have "is_module_suffix path module \<longleftrightarrow> (\<exists>a. path = a @ module \<and> length a \<ge> 2 \<and> ends_with sep a)"
    by (auto simp: is_module_suffix_def ends_with_iff)
  also have "\<dots> \<longleftrightarrow> ends_with (sep @ module) path"
    by (auto simp: ends_with_iff)
  finally show ?thesis .
qed

text \<open>
  The two tests that avoid building the joined path decide exactly what their joined forms
  say: a target is the module's symbol exactly when it is the joined path, and a path ends in a
  module exactly when it ends in the separator and the module.
\<close>

theorem module_path_tests:
  "(is_module_symbol target module symbol \<longleftrightarrow> target = join_module_symbol module symbol) \<and>
   (is_module_suffix path module \<longleftrightarrow> ends_with (sep @ module) path)"
  by (simp add: is_module_symbol_iff is_module_suffix_iff)

section \<open>Normalized paths\<close>

definition clean :: "string \<Rightarrow> bool" where
  "clean x \<longleftrightarrow> \<not> sublist sep x"

definition open_end :: "string \<Rightarrow> bool" where
  "open_end x \<longleftrightarrow> x = [] \<or> last x \<noteq> CHR '':''"

lemma clean_Cons: "clean (c # x) \<longleftrightarrow> clean x \<and> \<not> (c = CHR '':'' \<and> x \<noteq> [] \<and> hd x = CHR '':'')"
  by (cases x) (auto simp: clean_def sublist_Cons_right)

lemma split_once_sep: "clean x \<Longrightarrow> open_end x \<Longrightarrow> split_once sep (x @ sep @ r) = Some (x, r)"
proof (induction x)
  case (Cons c x)
  then show ?case by (cases x) (auto simp: clean_Cons open_end_def)
qed simp

lemma split_once_sep_clean: "split_once sep s = Some (a, b) \<Longrightarrow> clean a \<and> open_end a"
proof (induction sep s arbitrary: a rule: split_once.induct)
  case (2 c cs)
  show ?case
  proof (cases "strip_prefix sep (c # cs)")
    case (Some r)
    with 2 show ?thesis by (auto simp: clean_def open_end_def)
  next
    case None
    with 2(2) obtain a' where a: "a = c # a'" "split_once sep cs = Some (a', b)" by auto
    with 2(1) None have "clean a'" "open_end a'" by blast+
    moreover have "cs = a' @ sep @ b" using a(2) by (rule split_once_SomeD)
    ultimately show ?thesis using None a(1)
      by (cases a') (auto simp: clean_Cons open_end_def)
  qed
qed simp

fun joinable :: "string list \<Rightarrow> bool" where
  "joinable [] \<longleftrightarrow> True"
| "joinable [x] \<longleftrightarrow> clean x"
| "joinable (x # xs) \<longleftrightarrow> clean x \<and> open_end x \<and> joinable xs"

lemma joinable_split: "joinable (split_str sep s)"
proof (induction sep s rule: split_str.induct)
  case (1 s)
  show ?case
  proof (cases "split_once sep s")
    case None
    then have "split_str sep s = [s]" by (subst split_str.simps) simp
    with None show ?thesis by (simp add: clean_def split_once_None)
  next
    case (Some ab)
    obtain a b where ab: "ab = (a, b)" by (cases ab)
    have "joinable (split_str sep b)" using 1 Some ab by simp
    moreover have "clean a \<and> open_end a" using Some ab split_once_sep_clean by blast
    ultimately show ?thesis using Some ab
      by (subst split_str.simps) (cases "split_str sep b"; simp)
  qed
qed

lemma joinable_filter: "joinable xs \<Longrightarrow> joinable (filter P xs)"
proof (induction xs rule: joinable.induct)
  case (3 x y zs)
  then have "joinable (filter P (y # zs))" by simp
  with 3(2) show ?case
    by (cases "filter P (y # zs)") (auto split: if_splits)
qed auto

lemma split_str_no_sep: "clean x \<Longrightarrow> split_str sep x = [x]"
  by (subst split_str.simps) (simp add: clean_def split_once_None [THEN iffD2])

lemma split_str_sep: "clean x \<Longrightarrow> open_end x \<Longrightarrow> split_str sep (x @ sep @ r) = x # split_str sep r"
  using split_once_sep [of x r] by (subst split_str.simps) simp

lemma split_join_sep: "joinable xs \<Longrightarrow> xs \<noteq> [] \<Longrightarrow> split_str sep (join_str sep xs) = xs"
proof (induction xs rule: joinable.induct)
  case (2 x)
  then show ?case by (simp add: split_str_no_sep)
next
  case (3 x y zs)
  then have IH: "split_str sep (join_str sep (y # zs)) = y # zs" and x: "clean x" "open_end x" by simp_all
  have "split_str sep (x @ sep @ join_str sep (y # zs)) = x # split_str sep (join_str sep (y # zs))"
    using x by (rule split_str_sep)
  with IH show ?case by simp
qed simp

lemma path_parts_join: "joinable xs \<Longrightarrow> [] \<notin> set xs \<Longrightarrow> path_parts (join_str sep xs) = xs"
proof (cases "xs = []")
  case True
  then show ?thesis by (simp add: path_parts_def split_str_no_sep clean_def)
next
  case False
  assume "joinable xs" "[] \<notin> set xs"
  then show ?thesis using False by (auto simp: path_parts_def split_join_sep filter_id_conv)
qed

lemma path_parts_joinable: "joinable (path_parts p)" "[] \<notin> set (path_parts p)"
  by (simp_all add: path_parts_def joinable_filter joinable_split)

lemma split_str_chars: "x \<in> set (split_str sp s) \<Longrightarrow> set x \<subseteq> set s"
proof (induction sp s rule: split_str.induct)
  case (1 sp s)
  show ?case
  proof (cases "sp = [] \<or> split_once sp s = None")
    case True
    then have "split_str sp s = [s]" by (subst split_str.simps) auto
    with "1.prems" show ?thesis by simp
  next
    case False
    then obtain a b where ab: "sp \<noteq> []" "split_once sp s = Some (a, b)" by auto
    have s: "s = a @ sp @ b" using ab(2) by (rule split_once_SomeD)
    from "1.prems" ab have "x = a \<or> x \<in> set (split_str sp b)" by (subst (asm) split_str.simps) auto
    then show ?thesis
      using "1.IH" [OF ab refl] unfolding s by auto
  qed
qed

lemma normalize_module_path_parts:
  "path_parts (normalize_module_path p) = path_parts (replace_char CHR ''.'' sep p)"
  unfolding normalize_module_path_def by (rule path_parts_join) (simp_all add: path_parts_joinable)

lemma normalize_module_path_no_dot: "CHR ''.'' \<notin> set (normalize_module_path p)"
proof -
  have "CHR ''.'' \<notin> set (replace_char CHR ''.'' sep p)" by (rule replace_char_notin) simp
  then have "\<forall>x \<in> set (path_parts (replace_char CHR ''.'' sep p)). CHR ''.'' \<notin> set x"
    using split_str_chars by (fastforce simp: path_parts_def)
  then show ?thesis
    unfolding normalize_module_path_def
    using set_join_str [of sep "path_parts (replace_char CHR ''.'' sep p)"] by auto
qed


end
