(* ===== verification/Resolver.thy ===== *)
theory Resolver
  imports Module_Paths
begin

text \<open>
  The resolution ladder of pass 2: \<open>Resolver\<close> of \<open>sync/pass2.rs\<close> with the type-member rung of
  \<open>sync/pass2/type_member.rs\<close>.

  Pass 2 only rewrites references, so the symbol, file and import rows it reads are fixed, and the
  resolver's tables of prefixes, candidates, trait impls, qualified matches, packages and
  re-exports only remember values of functions of those rows. The model calls the functions; the
  per-file memo of resolved references, whose key leaves fields of the reference out, is modelled
  as it is. \<open>PackageIdentity::read\<close> parses manifests with a TOML library; its answer for a file is
  the parameter \<open>rs_package_for_file\<close>.
\<close>

section \<open>Candidates\<close>

record symbol_candidate =
  sc_id :: int
  sc_file_path :: string
  sc_name :: string
  sc_qualified :: string

record named_candidate =
  nc_symbol :: symbol_candidate
  nc_language :: string
  nc_normalized_qualified :: string
  nc_own_prefix :: "string option"

record package_identity =
  pk_source_path :: string
  pk_manifest_dir :: string
  pk_library_root :: string
  pk_aliases :: "string list"

record resolver =
  rs_tx :: graph_db
  rs_package_for_file :: "string \<Rightarrow> package_identity option"
  rs_ualnum :: "string \<Rightarrow> bool"

definition symbol_candidate_from_row :: "symbol_row \<Rightarrow> symbol_candidate" where
  "symbol_candidate_from_row s =
     \<lparr>sc_id = sy_id s, sc_file_path = sy_file_path s, sc_name = sy_name s, sc_qualified = sy_qualified s\<rparr>"

definition named_candidate_new :: "(string \<Rightarrow> bool) \<Rightarrow> symbol_candidate \<Rightarrow> string \<Rightarrow> named_candidate" where
  "named_candidate_new ualnum symbol language =
     \<lparr>nc_symbol = symbol, nc_language = language,
      nc_normalized_qualified = normalize_module_path (sc_qualified symbol),
      nc_own_prefix = map_option normalize_module_path
        (qualified_prefix_before_name ualnum (sc_qualified symbol) (sc_name symbol))\<rparr>"

definition symbols_in_file_by_name :: "graph_db \<Rightarrow> string \<Rightarrow> string \<Rightarrow> symbol_candidate list" where
  "symbols_in_file_by_name db from_file name =
     map symbol_candidate_from_row
       (sort_key (\<lambda>s. (sy_qualified s, sy_id s))
         (filter (\<lambda>s. sy_file_path s = from_file \<and> sy_name s = name \<and> sy_kind s \<noteq> ''impl'')
           (db_symbols db)))"

definition symbols_by_name :: "resolver \<Rightarrow> string \<Rightarrow> named_candidate list" where
  "symbols_by_name rs name =
     map (\<lambda>(s, lang). named_candidate_new (rs_ualnum rs) (symbol_candidate_from_row s) lang)
       (sort_key (\<lambda>(s, lang). (sy_qualified s, sy_id s))
         (concat (map (\<lambda>s. map (\<lambda>f. (s, fl_lang f))
                        (filter (\<lambda>f. fl_path f = sy_file_path s) (db_files (rs_tx rs))))
           (filter (\<lambda>s. sy_name s = name \<and> sy_kind s \<noteq> ''impl'') (db_symbols (rs_tx rs))))))"

definition module_prefixes_for_file :: "resolver \<Rightarrow> string \<Rightarrow> string list" where
  "module_prefixes_for_file rs file_path =
     module_prefixes (rs_ualnum rs) file_path
       (map (\<lambda>s. (sy_qualified s, sy_name s))
         (sort_key (\<lambda>s. (sy_qualified s, sy_id s))
           (filter (\<lambda>s. sy_file_path s = file_path) (db_symbols (rs_tx rs)))))"

definition imports_for_file :: "graph_db \<Rightarrow> string \<Rightarrow> import_candidate list" where
  "imports_for_file db from_file =
     map (\<lambda>i. \<lparr>ic_target_path = im_target_path i, ic_target_symbol = im_target_symbol i\<rparr>)
       (sort_key (\<lambda>i. (im_target_symbol i = None, im_target_path i, im_target_symbol i))
         (filter (\<lambda>i. im_from_file i = from_file) (db_imports db)))"

definition unique_candidate :: "symbol_candidate list \<Rightarrow> symbol_candidate option" where
  "unique_candidate candidates = (if length candidates = 1 then first_row candidates else None)"

text \<open>The loop that keeps the only match and gives up at a second one.\<close>

fun find_unique :: "('a \<Rightarrow> bool) \<Rightarrow> 'a option \<Rightarrow> 'a list \<Rightarrow> 'a option" where
  "find_unique P matched [] = matched"
| "find_unique P matched (x # xs) =
     (if P x then (if matched \<noteq> None then None else find_unique P (Some x) xs)
      else find_unique P matched xs)"

section \<open>Where a candidate lives\<close>

abbreviation file_prefixes :: "resolver \<Rightarrow> named_candidate \<Rightarrow> string list" where
  "file_prefixes rs c \<equiv> module_prefixes_for_file rs (sc_file_path (nc_symbol c))"

definition candidate_matches_qualified :: "resolver \<Rightarrow> named_candidate \<Rightarrow> string \<Rightarrow> bool" where
  "candidate_matches_qualified rs c target \<longleftrightarrow>
     (let qualified = nc_normalized_qualified c in
      qualified = target \<or>
      (case nc_own_prefix c of None \<Rightarrow> False | Some pre \<Rightarrow> is_module_symbol target pre qualified) \<or>
      list_ex (\<lambda>pre. is_module_symbol target pre qualified) (file_prefixes rs c))"

definition candidate_matches_module :: "resolver \<Rightarrow> named_candidate \<Rightarrow> string \<Rightarrow> bool" where
  "candidate_matches_module rs c module \<longleftrightarrow>
     (case nc_own_prefix c of None \<Rightarrow> False | Some pre \<Rightarrow> pre = module \<or> is_module_suffix pre module) \<or>
     list_ex (\<lambda>pre. pre = module \<or> is_module_suffix pre module) (file_prefixes rs c)"

definition candidate_shares_module :: "resolver \<Rightarrow> named_candidate \<Rightarrow> string list \<Rightarrow> bool" where
  "candidate_shares_module rs c pres \<longleftrightarrow>
     (case nc_own_prefix c of None \<Rightarrow> False | Some pre \<Rightarrow> pre \<in> set pres) \<or>
     list_ex (\<lambda>pre. pre \<in> set pres) (file_prefixes rs c)"

definition candidate_within_module :: "resolver \<Rightarrow> named_candidate \<Rightarrow> string \<Rightarrow> bool" where
  "candidate_within_module rs c qualifier \<longleftrightarrow>
     (case nc_own_prefix c of None \<Rightarrow> False | Some pre \<Rightarrow> prefix_within_module pre qualifier) \<or>
     list_ex (\<lambda>pre. prefix_within_module pre qualifier) (file_prefixes rs c)"

section \<open>Results\<close>

record resolved_ref =
  rr_target_qualified :: "string option"
  rr_target_symbol_hint :: "int option"
  rr_confidence :: string

definition resolved_fuzzy :: resolved_ref where
  "resolved_fuzzy = \<lparr>rr_target_qualified = None, rr_target_symbol_hint = None, rr_confidence = ''fuzzy_name''\<rparr>"

definition resolved_candidate :: "symbol_candidate \<Rightarrow> string \<Rightarrow> resolved_ref" where
  "resolved_candidate c confidence =
     \<lparr>rr_target_qualified = Some (sc_qualified c), rr_target_symbol_hint = Some (sc_id c),
      rr_confidence = confidence\<rparr>"

datatype import_resolution = Unique symbol_candidate | Ambiguous | NoImport

fun import_resolution_of :: "(int, symbol_candidate) btree_map \<Rightarrow> import_resolution" where
  "import_resolution_of [] = NoImport"
| "import_resolution_of [(_, c)] = Unique c"
| "import_resolution_of (_ # _ # _) = Ambiguous"

section \<open>The rungs\<close>

definition resolve_exact :: "resolver \<Rightarrow> string \<Rightarrow> raw_ref \<Rightarrow> symbol_candidate option" where
  "resolve_exact rs from_file r =
     (let found = symbols_in_file_by_name (rs_tx rs) from_file (rw_target_name r);
          candidates = (if names_free_item (rs_ualnum rs) from_file r
                        then filter (\<lambda>c. \<not> is_member_symbol (rs_ualnum rs) (sc_qualified c)) found
                        else found);
          qualified_matches = (case rw_target_qualified r of
             None \<Rightarrow> [] | Some q \<Rightarrow> filter (\<lambda>c. sc_qualified c = q) candidates)
      in if candidates = [] then None
         else if unique_candidate qualified_matches \<noteq> None then first_row qualified_matches
         else if call_module_qualifier (rs_ualnum rs) from_file r \<noteq> None then None
         else if \<not> resolves_by_name_only r then None
         else unique_candidate candidates)"

definition import_matches ::
  "resolver \<Rightarrow> string \<Rightarrow> string \<Rightarrow> import_candidate list \<Rightarrow> raw_ref \<Rightarrow> bool \<Rightarrow> (int, symbol_candidate) btree_map"
where
  "import_matches rs from_file language imports r explicit =
     (let free_item = names_free_item (rs_ualnum rs) from_file r in
      fold (\<lambda>im matches.
          case import_module_for_ref from_file im r of
            None \<Rightarrow> matches
          | Some module_path \<Rightarrow>
              (let module = normalize_module_path module_path in
               fold (\<lambda>c matches.
                   if nc_language c \<noteq> language \<or>
                      free_item \<and> is_member_symbol (rs_ualnum rs) (sc_qualified (nc_symbol c))
                   then matches
                   else if candidate_matches_module rs c module
                   then btree_insert (sc_id (nc_symbol c)) (nc_symbol c) matches
                   else matches)
                 (symbols_by_name rs (rw_target_name r)) matches))
        (filter (\<lambda>im. (ic_target_symbol im = Some (rw_target_name r)) = explicit) imports) [])"

definition resolve_import ::
  "resolver \<Rightarrow> string \<Rightarrow> string \<Rightarrow> import_candidate list \<Rightarrow> raw_ref \<Rightarrow> import_resolution" where
  "resolve_import rs from_file language imports r =
     (case import_resolution_of (import_matches rs from_file language imports r True) of
        NoImport \<Rightarrow> import_resolution_of (import_matches rs from_file language imports r False)
      | res \<Rightarrow> res)"

definition unique_qualified_match :: "resolver \<Rightarrow> string \<Rightarrow> string \<Rightarrow> string \<Rightarrow> symbol_candidate option" where
  "unique_qualified_match rs language name target =
     map_option nc_symbol
       (find_unique (\<lambda>c. nc_language c = language \<and> candidate_matches_qualified rs c target) None
         (symbols_by_name rs name))"

definition resolve_qualified :: "resolver \<Rightarrow> string \<Rightarrow> raw_ref \<Rightarrow> symbol_candidate option" where
  "resolve_qualified rs language r =
     (if rw_kind r = ''use'' then None
      else case rw_target_qualified r of
             None \<Rightarrow> None
           | Some target \<Rightarrow>
               if \<not> str_contains sep target \<and> \<not> str_contains ''.'' target then None
               else unique_qualified_match rs language (rw_target_name r) (normalize_module_path target))"

definition resolve_same_module :: "resolver \<Rightarrow> string \<Rightarrow> string \<Rightarrow> raw_ref \<Rightarrow> symbol_candidate option" where
  "resolve_same_module rs from_file language r =
     (if \<not> resolves_by_name_only r then None
      else let pres = module_prefixes_for_file rs from_file in
           if pres = [] then None
           else let free_item = names_free_item (rs_ualnum rs) from_file r;
                    qualifier = call_module_qualifier (rs_ualnum rs) from_file r
                in map_option nc_symbol
                     (find_unique (\<lambda>c.
                          \<not> (nc_language c \<noteq> language \<or> sc_file_path (nc_symbol c) = from_file \<or>
                             free_item \<and> is_member_symbol (rs_ualnum rs) (sc_qualified (nc_symbol c))) \<and>
                          (case qualifier of None \<Rightarrow> True | Some q \<Rightarrow> candidate_within_module rs c q) \<and>
                          candidate_shares_module rs c pres) None
                       (symbols_by_name rs (rw_target_name r))))"

section \<open>Public re-exports\<close>

record reexport_candidate =
  rx_from_file :: string
  rx_target_path :: string
  rx_target_symbol :: "string option"
  rx_source_symbol :: "string option"
  rx_module :: string

definition reexport_rows :: "graph_db \<Rightarrow> reexport_candidate list" where
  "reexport_rows db =
     kept (map (\<lambda>i.
         case im_reexport_module i of
           None \<Rightarrow> None
         | Some module \<Rightarrow>
             if list_ex (\<lambda>f. fl_path f = im_from_file i \<and> fl_lang f = ''rust'') (db_files db)
             then Some \<lparr>rx_from_file = im_from_file i, rx_target_path = im_target_path i,
                        rx_target_symbol = im_target_symbol i, rx_source_symbol = im_source_symbol i,
                        rx_module = module\<rparr>
             else None) (db_imports db))"

definition reexport_key :: "reexport_candidate \<Rightarrow> string" where
  "reexport_key row =
     (let file_module = join_str sep (file_module_parts (rx_from_file row)) in
      if rx_module row = [] then file_module else join_module_symbol file_module (rx_module row))"

definition reexports_of :: "resolver \<Rightarrow> string \<Rightarrow> reexport_candidate list" where
  "reexports_of rs module = filter (\<lambda>row. reexport_key row = module) (reexport_rows (rs_tx rs))"

text \<open>The empty module and every module prefix of a path, outermost first.\<close>

definition enclosing_modules :: "string \<Rightarrow> string list" where
  "enclosing_modules path =
     (let parts = split_str sep path in
      [] # map (\<lambda>k. join_str sep (take k parts)) [1 ..< length parts])"

definition exposed_name :: "string \<Rightarrow> string \<Rightarrow> string" where
  "exposed_name module path =
     (let rest = (case strip_prefix module path of Some r \<Rightarrow> r | None \<Rightarrow> []) in
      hd (split_str sep (trim_codes [sep] rest)))"

definition reexport_mapped :: "string \<Rightarrow> string \<Rightarrow> reexport_candidate \<Rightarrow> string option" where
  "reexport_mapped path module row =
     (let target = resolve_reexport_path (rx_from_file row) (rx_module row) (rx_target_path row) in
      case rx_target_symbol row of
        Some alias \<Rightarrow>
          (case strip_prefix (join_module_symbol module alias) path of
             None \<Rightarrow> None
           | Some rest \<Rightarrow>
               if rest = [] \<or> starts_with sep rest
               then let source = (case rx_source_symbol row of Some s \<Rightarrow> s | None \<Rightarrow> alias);
                        source_path = (if source = [] then target else join_module_symbol target source)
                    in Some (source_path @ rest)
               else None)
      | None \<Rightarrow>
          (case strip_prefix module path of
             None \<Rightarrow> None
           | Some rest \<Rightarrow> if starts_with sep rest then Some (target @ rest) else None))"

definition reexport_hops :: "resolver \<Rightarrow> string \<Rightarrow> string list" where
  "reexport_hops rs path =
     concat (map (\<lambda>module.
         let rows = reexports_of rs module;
             has_explicit = list_ex (\<lambda>row. rx_target_symbol row = Some (exposed_name module path)) rows
         in kept (map (\<lambda>row.
              if has_explicit \<and> rx_target_symbol row = None then None else reexport_mapped path module row)
            rows))
       (enclosing_modules path))"

definition REEXPORT_CAP :: nat where
  "REEXPORT_CAP = 64"

text \<open>
  The worklist of \<open>resolve_reexport\<close>; the head of \<open>pending\<close> is the end of the vector. Each turn
  either drops a path seen before or visits a new one, of which there are at most 65.
\<close>

function (sequential) reexport_loop ::
  "resolver \<Rightarrow> string \<Rightarrow> string list \<Rightarrow> string list \<Rightarrow> (int, symbol_candidate) btree_map \<Rightarrow> import_resolution"
where
  "reexport_loop rs initial [] visited matches = import_resolution_of matches"
| "reexport_loop rs initial (path # pending) visited matches =
     (if path \<in> set visited then reexport_loop rs initial pending visited matches
      else if length visited \<ge> REEXPORT_CAP then Ambiguous
      else let matches' =
             (if path \<noteq> initial
              then case unique_qualified_match rs ''rust'' (rsplit_last sep path) path of
                     Some c \<Rightarrow> btree_insert (sc_id c) c matches
                   | None \<Rightarrow> matches
              else matches)
           in reexport_loop rs initial (rev (reexport_hops rs path) @ pending) (path # visited) matches')"
  by pat_completeness auto
termination
  by (relation "measures [\<lambda>(rs, initial, pending, visited, matches). REEXPORT_CAP + 1 - length visited,
                          \<lambda>(rs, initial, pending, visited, matches). length pending]")
     (auto simp: REEXPORT_CAP_def)

declare reexport_loop.simps [simp del]

definition resolve_reexport :: "resolver \<Rightarrow> string \<Rightarrow> raw_ref \<Rightarrow> import_resolution" where
  "resolve_reexport rs from_file r =
     (case rw_target_qualified r of
        None \<Rightarrow> NoImport
      | Some spelled \<Rightarrow>
          (let initial = resolve_import_path from_file spelled in
           if \<not> str_contains sep initial then NoImport
           else reexport_loop rs initial [initial] [] []))"

section \<open>The type-member rung\<close>

record scoped_module =
  sm_module :: string
  sm_package_dir :: "string option"

definition path_parent_components :: "string \<Rightarrow> string list option" where
  "path_parent_components p =
     (let parts = path_components p in if parts = [] \<or> parts = [''/''] then None else Some (butlast parts))"

definition contains_library_file :: "package_identity \<Rightarrow> string \<Rightarrow> bool" where
  "contains_library_file package file \<longleftrightarrow>
     path_starts_with file (pk_manifest_dir package) \<and>
     (let relative = drop (length (path_components (pk_manifest_dir package))) (path_components file) in
      \<not> (list_ex (\<lambda>target. prefix target relative)
           [[''tests''], [''examples''], [''benches''], [''src'', ''bin'']] \<or>
         relative = [''src'', ''main.rs'']) \<and>
      (path_components file = path_components (pk_library_root package) \<or>
       (case path_parent_components (pk_library_root package) of
          None \<Rightarrow> False | Some parent \<Rightarrow> prefix parent (path_components file))))"

text \<open>The scope is a set in the code; only its members are ever looked at.\<close>

definition type_scope ::
  "resolver \<Rightarrow> string \<Rightarrow> import_candidate list \<Rightarrow> member_target \<Rightarrow> scoped_module list" where
  "type_scope rs from_file imports target =
     (let paths = (if mt_type_path target = []
                   then map ic_target_path
                          (filter (\<lambda>im. ic_target_symbol im = Some (mt_type_name target)) imports)
                   else [mt_type_path target]);
          package = rs_package_for_file rs from_file
      in remdups (kept (map (\<lambda>path.
           let normalized = replace_char CHR ''-'' ''_'' (normalize_module_path path);
               (root, rest) = (case split_once sep normalized of Some x \<Rightarrow> x | None \<Rightarrow> (normalized, []));
               module = replace_char CHR ''-'' ''_'' (resolve_import_path from_file path)
           in case package of
                Some p \<Rightarrow>
                  if root \<in> set (pk_aliases p)
                  then Some \<lparr>sm_module = rest, sm_package_dir = Some (pk_manifest_dir p)\<rparr>
                  else if module \<noteq> [] then Some \<lparr>sm_module = module, sm_package_dir = None\<rparr> else None
              | None \<Rightarrow> if module \<noteq> [] then Some \<lparr>sm_module = module, sm_package_dir = None\<rparr> else None)
         paths)))"

definition scope_item_admits :: "resolver \<Rightarrow> named_candidate \<Rightarrow> string \<Rightarrow> scoped_module \<Rightarrow> bool" where
  "scope_item_admits rs c own_path item \<longleftrightarrow>
     (let by_module = (own_path \<noteq> [] \<and> prefix_within_module own_path (sm_module item) \<or>
                       candidate_within_module rs c (sm_module item))
      in case sm_package_dir item of
           None \<Rightarrow> by_module
         | Some package_dir \<Rightarrow>
             (case rs_package_for_file rs (sc_file_path (nc_symbol c)) of
                None \<Rightarrow> False
              | Some package \<Rightarrow>
                  path_components (pk_manifest_dir package) = path_components package_dir \<and>
                  contains_library_file package (pk_source_path package) \<and>
                  (sm_module item = [] \<or> by_module)))"

definition member_within_scope :: "resolver \<Rightarrow> named_candidate \<Rightarrow> scoped_module list \<Rightarrow> bool" where
  "member_within_scope rs c scope \<longleftrightarrow>
     (let own_path = (case member_parse (rs_ualnum rs) (sc_qualified (nc_symbol c)) of
                        Some parsed \<Rightarrow> normalize_module_path (mt_type_path parsed) | None \<Rightarrow> [])
      in list_ex (scope_item_admits rs c own_path) scope)"

definition best_tier :: "(tier \<times> named_candidate) list \<Rightarrow> named_candidate list" where
  "best_tier members =
     (case sort (map fst members) of
        [] \<Rightarrow> []
      | best # _ \<Rightarrow> map snd (filter (\<lambda>(tier, c). tier = best) members))"

fun unique_of :: "'a list \<Rightarrow> 'a option" where
  "unique_of [x] = Some x"
| "unique_of _ = None"

definition pick_nearest :: "resolver \<Rightarrow> string \<Rightarrow> named_candidate list \<Rightarrow> resolved_ref option" where
  "pick_nearest rs from_file pool =
     (case unique_of (filter (\<lambda>c. sc_file_path (nc_symbol c) = from_file) pool) of
        Some only \<Rightarrow> Some (resolved_candidate (nc_symbol only) ''exact'')
      | None \<Rightarrow>
          map_option (\<lambda>only. resolved_candidate (nc_symbol only) ''same_module'')
            (unique_of (filter (\<lambda>c. candidate_shares_module rs c (module_prefixes_for_file rs from_file)) pool)))"

definition pick_scoped ::
  "resolver \<Rightarrow> string \<Rightarrow> (tier \<times> named_candidate) list \<Rightarrow> nat \<Rightarrow> resolved_ref option" where
  "pick_scoped rs from_file in_scope total_members =
     (case unique_of (best_tier in_scope) of
        Some only \<Rightarrow>
          Some (resolved_candidate (nc_symbol only) (if total_members = 1 then ''exact'' else ''import_resolved''))
      | None \<Rightarrow> pick_nearest rs from_file (best_tier in_scope))"

text \<open>\<open>pick_unscoped\<close> past its first case: the calling file, then its module, then one file only.\<close>

definition pick_by_proximity ::
  "resolver \<Rightarrow> string \<Rightarrow> (tier \<times> named_candidate) list \<Rightarrow> resolved_ref option" where
  "pick_by_proximity rs from_file members =
     (let same_file = filter (\<lambda>(_, c). sc_file_path (nc_symbol c) = from_file) members;
          nearby = filter (\<lambda>(_, c). candidate_shares_module rs c (module_prefixes_for_file rs from_file)) members
      in if same_file \<noteq> []
         then map_option (\<lambda>only. resolved_candidate (nc_symbol only) ''exact'') (unique_of (best_tier same_file))
         else if nearby \<noteq> []
         then map_option (\<lambda>only. resolved_candidate (nc_symbol only) ''same_module'') (unique_of (best_tier nearby))
         else case unique_of (best_tier members) of
                Some only \<Rightarrow>
                  if list_all (\<lambda>(_, c). sc_file_path (nc_symbol c) = sc_file_path (nc_symbol only)) members
                  then Some (resolved_candidate (nc_symbol only) ''exact'') else None
              | None \<Rightarrow> None)"

definition pick_unscoped ::
  "resolver \<Rightarrow> string \<Rightarrow> (tier \<times> named_candidate) list \<Rightarrow> resolved_ref option" where
  "pick_unscoped rs from_file members =
     (case unique_of members of
        Some (_, only) \<Rightarrow> Some (resolved_candidate (nc_symbol only) ''exact'')
      | None \<Rightarrow> pick_by_proximity rs from_file members)"

text \<open>\<open>qualified LIKE '<% as %>'\<close>; \<open>LIKE\<close> ignores the case of ASCII letters.\<close>

definition like_trait_impl :: "string \<Rightarrow> bool" where
  "like_trait_impl q \<longleftrightarrow>
     (case strip_prefix ''<'' q of
        None \<Rightarrow> False
      | Some r \<Rightarrow> (case strip_suffix ''>'' r of
                     None \<Rightarrow> False
                   | Some inner \<Rightarrow> str_contains '' as '' (map to_ascii_lower inner)))"

definition trait_impl_symbols :: "graph_db \<Rightarrow> symbol_candidate list" where
  "trait_impl_symbols db =
     map symbol_candidate_from_row
       (sort_key (\<lambda>s. (sy_qualified s, sy_id s))
         (filter (\<lambda>s. sy_kind s = ''impl'' \<and> like_trait_impl (sy_qualified s)) (db_symbols db)))"

definition trait_impls_of :: "resolver \<Rightarrow> string \<Rightarrow> (string \<times> named_candidate) list" where
  "trait_impls_of rs type_name =
     kept (map (\<lambda>symbol.
         case impl_type_and_trait (sc_qualified symbol) of
           None \<Rightarrow> None
         | Some (self_name, trait_name) \<Rightarrow>
             if self_name = type_name
             then Some (trait_name, named_candidate_new (rs_ualnum rs) symbol ''rust'') else None)
       (trait_impl_symbols (rs_tx rs)))"

definition resolve_trait_default ::
  "resolver \<Rightarrow> member_target \<Rightarrow> scoped_module list \<Rightarrow> resolved_ref option" where
  "resolve_trait_default rs target scope =
     (if mt_trait_object target then None
      else let impls = filter (\<lambda>(trait_name, c).
                 (case mt_trait_name target of None \<Rightarrow> True | Some wanted \<Rightarrow> wanted = trait_name) \<and>
                 (scope = [] \<or> member_within_scope rs c scope)) (trait_impls_of rs (mt_type_name target));
               traits = btree_set (map fst impls);
               impl_files = btree_set (map (\<lambda>(_, c). sc_file_path (nc_symbol c)) impls);
               declarations = filter (\<lambda>c.
                 case member_parse (rs_ualnum rs) (sc_qualified (nc_symbol c)) of
                   None \<Rightarrow> False
                 | Some parsed \<Rightarrow> \<not> mt_bracketed parsed \<and> mt_type_name parsed \<in> set traits)
                 (symbols_by_name rs (mt_member target))
           in if traits = [] then None
              else case unique_of declarations of
                     None \<Rightarrow> None
                   | Some only \<Rightarrow>
                       if scope \<noteq> [] \<or> length impl_files = 1
                       then Some (resolved_candidate (nc_symbol only) ''exact'') else None)"

definition type_members :: "resolver \<Rightarrow> member_target \<Rightarrow> (tier \<times> named_candidate) list" where
  "type_members rs target =
     kept (map (\<lambda>c.
         case member_parse (rs_ualnum rs) (sc_qualified (nc_symbol c)) of
           None \<Rightarrow> None
         | Some parsed \<Rightarrow> map_option (\<lambda>tier. (tier, c)) (tier_of target parsed))
       (symbols_by_name rs (mt_member target)))"

definition resolve_type_member ::
  "resolver \<Rightarrow> string \<Rightarrow> import_candidate list \<Rightarrow> member_target \<Rightarrow> resolved_ref option" where
  "resolve_type_member rs from_file imports target =
     (let members = type_members rs target;
          scope = type_scope rs from_file imports target;
          resolved = (if scope = [] then pick_unscoped rs from_file members
                      else pick_scoped rs from_file
                             (filter (\<lambda>(_, c). member_within_scope rs c scope) members) (length members))
      in if resolved \<noteq> None then resolved
         else case resolve_trait_default rs target scope of
                Some res \<Rightarrow> Some res
              | None \<Rightarrow>
                  if members = [] \<and> scope = []
                  then (if \<not> mt_bracketed target then Some resolved_fuzzy else None)
                  else Some resolved_fuzzy)"

section \<open>The ladder\<close>

text \<open>The last rungs, after the qualified match failed.\<close>

definition resolve_reexport_or_module :: "resolver \<Rightarrow> string \<Rightarrow> string \<Rightarrow> raw_ref \<Rightarrow> resolved_ref" where
  "resolve_reexport_or_module rs from_file language r =
     (let same_module = resolve_same_module rs from_file language r;
          fallback = (case same_module of
             Some c \<Rightarrow> resolved_candidate c ''same_module'' | None \<Rightarrow> resolved_fuzzy)
      in if language = ''rust'' \<and> rw_spelled_path r
         then case resolve_reexport rs from_file r of
                Unique c \<Rightarrow> resolved_candidate c ''import_resolved''
              | Ambiguous \<Rightarrow> resolved_fuzzy
              | NoImport \<Rightarrow> fallback
         else fallback)"

definition relative_path :: "raw_ref \<Rightarrow> bool" where
  "relative_path r \<longleftrightarrow>
     (case rw_target_qualified r of
        None \<Rightarrow> False
      | Some target \<Rightarrow> starts_with ''self::'' target \<or> starts_with ''super::'' target)"

definition resolve_by_ladder ::
  "resolver \<Rightarrow> string \<Rightarrow> string \<Rightarrow> import_candidate list \<Rightarrow> raw_ref \<Rightarrow> resolved_ref" where
  "resolve_by_ladder rs from_file language imports r =
     (case resolve_exact rs from_file r of
        Some c \<Rightarrow> resolved_candidate c ''exact''
      | None \<Rightarrow>
          (case resolve_import rs from_file language imports r of
             Unique c \<Rightarrow> resolved_candidate c ''import_resolved''
           | Ambiguous \<Rightarrow> resolved_fuzzy
           | NoImport \<Rightarrow>
               (case resolve_qualified rs language r of
                  Some c \<Rightarrow> resolved_candidate c ''exact''
                | None \<Rightarrow>
                    if language = ''rust'' \<and> rw_spelled_path r \<and> relative_path r \<and>
                       resolve_same_module rs from_file language r \<noteq> None
                    then resolved_candidate (the (resolve_same_module rs from_file language r)) ''same_module''
                    else resolve_reexport_or_module rs from_file language r)))"

definition resolve_ref ::
  "resolver \<Rightarrow> string \<Rightarrow> string \<Rightarrow> import_candidate list \<Rightarrow> raw_ref \<Rightarrow> resolved_ref" where
  "resolve_ref rs from_file language imports r =
     (if rw_kind r = ''runtime_invocation'' then resolved_fuzzy
      else case member_of_ref (rs_ualnum rs) from_file r of
             Some target \<Rightarrow>
               (case resolve_type_member rs from_file imports target of
                  Some res \<Rightarrow> res
                | None \<Rightarrow> resolve_by_ladder rs from_file language imports r)
           | None \<Rightarrow> resolve_by_ladder rs from_file language imports r)"

section \<open>The memo of a file\<close>

record ref_key =
  rk_is_runtime_invocation :: bool
  rk_is_use :: bool
  rk_name_only :: bool
  rk_spelled_path :: bool
  rk_target_name :: string
  rk_target_qualified :: "string option"

definition ref_key_of :: "raw_ref \<Rightarrow> ref_key" where
  "ref_key_of r =
     \<lparr>rk_is_runtime_invocation = (rw_kind r = ''runtime_invocation''),
      rk_is_use = (rw_kind r = ''use''),
      rk_name_only = resolves_by_name_only r, rk_spelled_path = rw_spelled_path r,
      rk_target_name = rw_target_name r, rk_target_qualified = rw_target_qualified r\<rparr>"

fun resolve_refs ::
  "resolver \<Rightarrow> string \<Rightarrow> string \<Rightarrow> import_candidate list \<Rightarrow> (ref_key \<rightharpoonup> resolved_ref) \<Rightarrow> raw_ref list \<Rightarrow>
     resolved_ref list" where
  "resolve_refs rs from_file language imports memo [] = []"
| "resolve_refs rs from_file language imports memo (r # refs) =
     (case memo (ref_key_of r) of
        Some known \<Rightarrow> known # resolve_refs rs from_file language imports memo refs
      | None \<Rightarrow>
          (let result = resolve_ref rs from_file language imports r in
           result # resolve_refs rs from_file language imports (memo(ref_key_of r \<mapsto> result)) refs))"

definition resolve_file :: "resolver \<Rightarrow> string \<Rightarrow> raw_ref list \<Rightarrow> resolved_ref list graph_result" where
  "resolve_file rs from_file refs =
     (case first_row (filter (\<lambda>f. fl_path f = from_file) (db_files (rs_tx rs))) of
        None \<Rightarrow> Inl (Sqlite ''read ref file language'')
      | Some f \<Rightarrow>
          Inr (resolve_refs rs from_file (fl_lang f) (imports_for_file (rs_tx rs) from_file) Map.empty refs))"

section \<open>The memo key is enough\<close>

lemma ref_key_fields:
  assumes "ref_key_of a = ref_key_of b"
  shows "rw_kind a = ''use'' \<longleftrightarrow> rw_kind b = ''use''"
    and "rw_kind a = ''runtime_invocation'' \<longleftrightarrow> rw_kind b = ''runtime_invocation''"
    and "rw_unresolved_receiver a = None \<longleftrightarrow> rw_unresolved_receiver b = None"
    and "resolves_by_name_only a = resolves_by_name_only b"
    and "rw_spelled_path a = rw_spelled_path b" "rw_target_name a = rw_target_name b"
    and "rw_target_qualified a = rw_target_qualified b"
  using assms by (simp_all add: ref_key_of_def resolves_by_name_only_def)

lemma ref_key_helpers:
  assumes "ref_key_of a = ref_key_of b"
  shows "names_free_item u f a = names_free_item u f b"
    and "call_module_qualifier u f a = call_module_qualifier u f b"
    and "member_of_ref u f a = member_of_ref u f b"
    and "import_module_for_ref f im a = import_module_for_ref f im b"
    and "relative_path a = relative_path b"
proof -
  note k = ref_key_fields [OF assms]
  show n: "names_free_item u f a = names_free_item u f b" for u f
    by (simp add: names_free_item_def k)
  show "call_module_qualifier u f a = call_module_qualifier u f b"
    unfolding call_module_qualifier_def n k ..
  show "member_of_ref u f a = member_of_ref u f b" unfolding member_of_ref_def k ..
  show "import_module_for_ref f im a = import_module_for_ref f im b" unfolding import_module_for_ref_def k ..
  show "relative_path a = relative_path b" unfolding relative_path_def k ..
qed

lemma resolve_ref_key:
  assumes "ref_key_of a = ref_key_of b"
  shows "resolve_ref rs from_file language imports a = resolve_ref rs from_file language imports b"
proof -
  note k = ref_key_fields [OF assms] ref_key_helpers [OF assms]
  have e: "resolve_exact rs from_file a = resolve_exact rs from_file b"
    unfolding resolve_exact_def k ..
  have i: "resolve_import rs from_file language imports a = resolve_import rs from_file language imports b"
    unfolding resolve_import_def import_matches_def k ..
  have q: "resolve_qualified rs language a = resolve_qualified rs language b"
    unfolding resolve_qualified_def k ..
  have m: "resolve_same_module rs from_file language a = resolve_same_module rs from_file language b"
    unfolding resolve_same_module_def k ..
  have x: "resolve_reexport rs from_file a = resolve_reexport rs from_file b"
    unfolding resolve_reexport_def k ..
  show ?thesis
    unfolding resolve_ref_def resolve_by_ladder_def resolve_reexport_or_module_def k e i q m x ..
qed

lemma resolve_refs_map:
  assumes "\<And>r result. memo (ref_key_of r) = Some result \<Longrightarrow>
    result = resolve_ref rs from_file language imports r"
  shows "resolve_refs rs from_file language imports memo refs =
    map (resolve_ref rs from_file language imports) refs"
  using assms
proof (induction refs arbitrary: memo)
  case (Cons r refs)
  show ?case
  proof (cases "memo (ref_key_of r)")
    case None
    let ?memo = "memo(ref_key_of r \<mapsto> resolve_ref rs from_file language imports r)"
    have "result = resolve_ref rs from_file language imports r'"
      if "?memo (ref_key_of r') = Some result" for r' result
    proof (cases "ref_key_of r' = ref_key_of r")
      case True
      with that have "result = resolve_ref rs from_file language imports r" by simp
      also have "\<dots> = resolve_ref rs from_file language imports r'" by (rule resolve_ref_key [OF True [symmetric]])
      finally show ?thesis .
    next
      case False
      with that show ?thesis by (intro Cons.prems) simp
    qed
    then have "resolve_refs rs from_file language imports ?memo refs =
        map (resolve_ref rs from_file language imports) refs"
      by (rule Cons.IH)
    with None show ?thesis by (simp add: Let_def)
  next
    case (Some known)
    with Cons show ?thesis by simp
  qed
qed simp

lemma resolve_file_map:
  "resolve_file rs from_file refs =
     (case first_row (filter (\<lambda>f. fl_path f = from_file) (db_files (rs_tx rs))) of
        None \<Rightarrow> Inl (Sqlite ''read ref file language'')
      | Some f \<Rightarrow> Inr (map (resolve_ref rs from_file (fl_lang f) (imports_for_file (rs_tx rs) from_file)) refs))"
proof -
  have "resolve_refs rs from_file lang im Map.empty refs = map (resolve_ref rs from_file lang im) refs"
    for lang im by (rule resolve_refs_map) simp
  then show ?thesis unfolding resolve_file_def by (simp only:)
qed

text \<open>
  C6. Resolving the references of a file with the memo keyed by \<open>RefKey\<close> gives, for every reference
  in order, what resolving it on its own gives: the six facts in the key determine the outcome of
  every rung of the ladder, although the kind, receiver text, spans and confidence of a reference
  are not in it.
\<close>

theorem resolve_file_memo_free:
  "resolve_file rs from_file refs =
     (case first_row (filter (\<lambda>f. fl_path f = from_file) (db_files (rs_tx rs))) of
        None \<Rightarrow> Inl (Sqlite ''read ref file language'')
      | Some f \<Rightarrow> Inr (map (resolve_ref rs from_file (fl_lang f) (imports_for_file (rs_tx rs) from_file)) refs))"
  by (rule resolve_file_map)

section \<open>Soundness of the ladder\<close>

lemma find_unique_mem:
  "find_unique P matched xs = Some x \<Longrightarrow> matched = Some x \<or> x \<in> set xs \<and> P x"
  by (induction P matched xs rule: find_unique.induct) (auto split: if_splits)

lemma find_unique_only:
  "find_unique P matched xs = (case (matched, filter P xs) of
     (None, [x]) \<Rightarrow> Some x | (Some y, []) \<Rightarrow> Some y | _ \<Rightarrow> None)"
  by (induction P matched xs rule: find_unique.induct) (auto split: option.splits list.splits)

lemma unique_of_mem: "unique_of xs = Some x \<Longrightarrow> xs = [x]"
  by (induction xs rule: unique_of.induct) auto

definition stored_candidate :: "graph_db \<Rightarrow> symbol_candidate \<Rightarrow> bool" where
  "stored_candidate db c \<longleftrightarrow>
     (\<exists>s \<in> set (db_symbols db). sy_kind s \<noteq> ''impl'' \<and> c = symbol_candidate_from_row s)"

lemma symbols_by_name_stored:
  assumes "c \<in> set (symbols_by_name rs name)"
  shows "stored_candidate (rs_tx rs) (nc_symbol c) \<and> sc_name (nc_symbol c) = name"
  using assms
  by (auto simp: symbols_by_name_def named_candidate_new_def stored_candidate_def symbol_candidate_from_row_def)

lemma symbols_in_file_stored:
  assumes "c \<in> set (symbols_in_file_by_name db file name)"
  shows "stored_candidate db c \<and> sc_name c = name \<and> sc_file_path c = file"
  using assms by (auto simp: symbols_in_file_by_name_def stored_candidate_def symbol_candidate_from_row_def)

lemma unique_candidate_mem: "unique_candidate cs = Some c \<Longrightarrow> c \<in> set cs"
  by (auto simp: unique_candidate_def split: if_splits dest: first_row_SomeD)

lemma resolve_exact_sound:
  assumes "resolve_exact rs file r = Some c"
  shows "stored_candidate (rs_tx rs) c \<and> sc_name c = rw_target_name r \<and> sc_file_path c = file \<and>
    (rw_unresolved_receiver r = None \<or> rw_target_qualified r = Some (sc_qualified c))"
proof -
  let ?found = "symbols_in_file_by_name (rs_tx rs) file (rw_target_name r)"
  have "c \<in> set ?found \<and> (rw_unresolved_receiver r = None \<or> rw_target_qualified r = Some (sc_qualified c))"
    using assms unfolding resolve_exact_def Let_def
    by (auto simp: resolves_by_name_only_def split: if_splits option.splits
        dest!: unique_candidate_mem first_row_SomeD)
  with symbols_in_file_stored show ?thesis by blast
qed

lemma btree_insert_mem: "x \<in> set (btree_insert k v m) \<Longrightarrow> x = (k, v) \<or> x \<in> set m"
  by (induction k v m rule: btree_insert.induct) (auto split: if_splits)

lemma import_resolution_of_mem: "import_resolution_of m = Unique c \<Longrightarrow> \<exists>k. (k, c) \<in> set m"
  by (induction m rule: import_resolution_of.induct) auto

lemma fold_mem:
  assumes "\<And>a m y. a \<in> set xs \<Longrightarrow> y \<in> set (f a m) \<Longrightarrow> y \<in> set m \<or> Q y"
    and "y \<in> set (fold f xs m)"
  shows "y \<in> set m \<or> Q y"
  using assms
proof (induction xs arbitrary: m)
  case (Cons a xs)
  have "y \<in> set (f a m) \<or> Q y"
    by (rule Cons.IH) (use Cons.prems in auto)
  with Cons.prems(1) show ?case by force
qed simp

lemma import_matches_stored:
  assumes "(k, c) \<in> set (import_matches rs file lang imports r explicit)"
  shows "stored_candidate (rs_tx rs) c \<and> sc_name c = rw_target_name r \<and> k = sc_id c"
proof -
  let ?Q = "\<lambda>(k, c). stored_candidate (rs_tx rs) c \<and> sc_name c = rw_target_name r \<and> k = sc_id c"
  have "(k, c) \<in> set [] \<or> ?Q (k, c)"
    using assms unfolding import_matches_def Let_def
  proof (rule fold_mem [rotated], goal_cases)
    case (1 im m y)
    show ?case
    proof (cases "import_module_for_ref file im r")
      case None
      with 1 show ?thesis by simp
    next
      case (Some module)
      show ?thesis
        by (rule fold_mem [OF _ 1(2) [unfolded Some option.case]])
           (auto split: if_splits dest!: btree_insert_mem dest: symbols_by_name_stored)
    qed
  qed
  then show ?thesis by simp
qed

lemma resolve_import_sound:
  assumes "resolve_import rs file lang imports r = Unique c"
  shows "stored_candidate (rs_tx rs) c \<and> sc_name c = rw_target_name r"
  using assms import_matches_stored
  by (auto simp: resolve_import_def split: import_resolution.splits dest!: import_resolution_of_mem)

lemma unique_qualified_match_sound:
  assumes "unique_qualified_match rs lang name target = Some c"
  shows "stored_candidate (rs_tx rs) c \<and> sc_name c = name"
  using assms by (auto simp: unique_qualified_match_def dest!: find_unique_mem symbols_by_name_stored)

lemma resolve_qualified_sound:
  assumes "resolve_qualified rs lang r = Some c"
  shows "stored_candidate (rs_tx rs) c \<and> sc_name c = rw_target_name r"
  using assms by (auto simp: resolve_qualified_def split: if_splits option.splits dest: unique_qualified_match_sound)

lemma resolve_same_module_sound:
  assumes "resolve_same_module rs file lang r = Some c"
  shows "stored_candidate (rs_tx rs) c \<and> sc_name c = rw_target_name r \<and> rw_unresolved_receiver r = None"
  using assms
  by (auto simp: resolve_same_module_def Let_def resolves_by_name_only_def split: if_splits
      dest!: find_unique_mem symbols_by_name_stored)

definition resolved_to :: "graph_db \<Rightarrow> string \<Rightarrow> resolved_ref \<Rightarrow> bool" where
  "resolved_to db name res \<longleftrightarrow>
     (\<exists>c confidence. stored_candidate db c \<and> sc_name c = name \<and> res = resolved_candidate c confidence \<and>
        confidence \<in> {''exact'', ''import_resolved'', ''same_module''})"

lemma resolved_toI:
  "stored_candidate db c \<Longrightarrow> sc_name c = name \<Longrightarrow> confidence \<in> {''exact'', ''import_resolved'', ''same_module''} \<Longrightarrow>
   resolved_to db name (resolved_candidate c confidence)"
  by (auto simp: resolved_to_def)

lemma named_resolved_to:
  "c \<in> set (symbols_by_name rs name) \<Longrightarrow> confidence \<in> {''exact'', ''import_resolved'', ''same_module''} \<Longrightarrow>
   resolved_to (rs_tx rs) name (resolved_candidate (nc_symbol c) confidence)"
  using symbols_by_name_stored by (blast intro: resolved_toI)

lemma best_tier_subset: "set (best_tier members) \<subseteq> snd ` set members"
  by (auto simp: best_tier_def split: list.splits)

lemma unique_best_tier_mem: "unique_of (best_tier members) = Some c \<Longrightarrow> c \<in> snd ` set members"
  using best_tier_subset by (fastforce dest: unique_of_mem)

lemma type_members_named: "snd ` set (type_members rs target) \<subseteq> set (symbols_by_name rs (mt_member target))"
  by (auto simp: type_members_def set_kept eq_commute [of "Some _"] split: option.splits)

lemma unique_of_filter: "unique_of (filter P xs) = Some x \<Longrightarrow> x \<in> set xs \<and> P x"
proof -
  assume "unique_of (filter P xs) = Some x"
  then have "x \<in> set (filter P xs)" using unique_of_mem by fastforce
  then show ?thesis by simp
qed

lemma pick_nearest_sound:
  assumes "pick_nearest rs file pool = Some res" "set pool \<subseteq> set (symbols_by_name rs name)"
  shows "resolved_to (rs_tx rs) name res"
  using assms unfolding pick_nearest_def
  by (auto split: option.splits dest!: unique_of_filter intro!: named_resolved_to)

lemma pick_scoped_sound:
  assumes "pick_scoped rs file members n = Some res" "snd ` set members \<subseteq> set (symbols_by_name rs name)"
  shows "resolved_to (rs_tx rs) name res"
proof (cases "unique_of (best_tier members)")
  case None
  then have "pick_nearest rs file (best_tier members) = Some res" using assms(1) by (simp add: pick_scoped_def)
  then show ?thesis using best_tier_subset assms(2) by (rule pick_nearest_sound [OF _ subset_trans])
next
  case (Some only)
  then have "only \<in> set (symbols_by_name rs name)" using unique_best_tier_mem assms(2) by blast
  then have "resolved_to (rs_tx rs) name (resolved_candidate (nc_symbol only) confidence)"
    if "confidence = ''exact'' \<or> confidence = ''import_resolved''" for confidence
    using that by (intro named_resolved_to) auto
  then show ?thesis using assms(1) Some by (auto simp: pick_scoped_def split: if_splits)
qed

lemma pick_by_proximity_sound:
  assumes "pick_by_proximity rs file members = Some res" "snd ` set members \<subseteq> set (symbols_by_name rs name)"
  shows "resolved_to (rs_tx rs) name res"
proof -
  have sub: "c \<in> set (symbols_by_name rs name)"
    if "unique_of (best_tier (filter P members)) = Some c" for P c
    using unique_best_tier_mem [OF that] assms(2) by auto
  have all: "c \<in> set (symbols_by_name rs name)" if "unique_of (best_tier members) = Some c" for c
    using unique_best_tier_mem [OF that] assms(2) by auto
  show ?thesis
    using assms(1) unfolding pick_by_proximity_def Let_def
    by (auto split: if_splits option.splits intro!: named_resolved_to dest: sub all)
qed

lemma pick_unscoped_sound:
  assumes "pick_unscoped rs file members = Some res" "snd ` set members \<subseteq> set (symbols_by_name rs name)"
  shows "resolved_to (rs_tx rs) name res"
proof (cases "unique_of members")
  case None
  then show ?thesis using assms pick_by_proximity_sound by (simp add: pick_unscoped_def)
next
  case (Some m)
  then have "snd m \<in> set (symbols_by_name rs name)" using assms(2) unique_of_mem [OF Some] by simp
  then show ?thesis using assms(1) Some
    by (auto simp: pick_unscoped_def split: prod.splits intro!: named_resolved_to)
qed

lemma resolve_trait_default_sound:
  assumes "resolve_trait_default rs target scope = Some res"
  shows "resolved_to (rs_tx rs) (mt_member target) res"
proof -
  obtain P only where u: "unique_of (filter P (symbols_by_name rs (mt_member target))) = Some only"
    and r: "res = resolved_candidate (nc_symbol only) ''exact''"
    using assms unfolding resolve_trait_default_def Let_def by (auto split: if_splits option.splits)
  have "only \<in> set (filter P (symbols_by_name rs (mt_member target)))"
    using unique_of_mem [OF u] by simp
  then show ?thesis unfolding r by (intro named_resolved_to) auto
qed

lemma resolve_type_member_sound:
  assumes "resolve_type_member rs file imports target = Some res"
  shows "res = resolved_fuzzy \<or> resolved_to (rs_tx rs) (mt_member target) res"
proof -
  have m: "snd ` set (filter P (type_members rs target)) \<subseteq> set (symbols_by_name rs (mt_member target))" for P
    using type_members_named by auto
  show ?thesis
    using assms unfolding resolve_type_member_def Let_def
    by (auto split: if_splits option.splits
        dest: pick_unscoped_sound [OF _ type_members_named] pick_scoped_sound [OF _ m]
          resolve_trait_default_sound)
qed

lemma member_of_ref_name: "member_of_ref u f r = Some target \<Longrightarrow> mt_member target = rw_target_name r"
  by (auto simp: member_of_ref_def split: if_splits option.splits)

lemma resolve_by_ladder_sound:
  assumes "resolve_by_ladder rs file lang imports r = res"
  shows "res = resolved_fuzzy \<or> resolved_to (rs_tx rs) (rw_target_name r) res \<or>
    (\<exists>c. lang = ''rust'' \<and> rw_spelled_path r \<and> resolve_reexport rs file r = Unique c \<and>
       res = resolved_candidate c ''import_resolved'')"
proof -
  have "resolve_reexport_or_module rs file lang r = resolved_fuzzy \<or>
      resolved_to (rs_tx rs) (rw_target_name r) (resolve_reexport_or_module rs file lang r) \<or>
      (\<exists>c. lang = ''rust'' \<and> rw_spelled_path r \<and> resolve_reexport rs file r = Unique c \<and>
         resolve_reexport_or_module rs file lang r = resolved_candidate c ''import_resolved'')"
    unfolding resolve_reexport_or_module_def Let_def
    by (auto split: import_resolution.splits option.splits intro!: resolved_toI dest: resolve_same_module_sound)
  then show ?thesis
    using assms unfolding resolve_by_ladder_def
    by (auto split: option.splits import_resolution.splits if_splits
        intro!: resolved_toI dest: resolve_exact_sound resolve_import_sound resolve_qualified_sound
          resolve_same_module_sound)
qed

section \<open>Re-exports are followed exactly\<close>

text \<open>The paths a spelled path can stand for, one public \<open>use\<close> row at a time.\<close>

inductive reexport_reach :: "resolver \<Rightarrow> string \<Rightarrow> string \<Rightarrow> bool" for rs initial where
  start: "reexport_reach rs initial initial"
| hop: "reexport_reach rs initial p \<Longrightarrow> q \<in> set (reexport_hops rs p) \<Longrightarrow> reexport_reach rs initial q"

definition reexport_target :: "resolver \<Rightarrow> string \<Rightarrow> string \<Rightarrow> symbol_candidate \<Rightarrow> bool" where
  "reexport_target rs initial p c \<longleftrightarrow>
     p \<noteq> initial \<and> unique_qualified_match rs ''rust'' (rsplit_last sep p) p = Some c"

definition reexport_inv ::
  "resolver \<Rightarrow> string \<Rightarrow> string list \<Rightarrow> string list \<Rightarrow> (int, symbol_candidate) btree_map \<Rightarrow> bool" where
  "reexport_inv rs initial pending visited matches \<longleftrightarrow>
     initial \<in> set visited \<union> set pending \<and>
     (\<forall>p \<in> set visited \<union> set pending. reexport_reach rs initial p) \<and>
     (\<forall>p \<in> set visited. set (reexport_hops rs p) \<subseteq> set visited \<union> set pending) \<and>
     (\<forall>(k, c) \<in> set matches. k = sc_id c \<and> (\<exists>p \<in> set visited. reexport_target rs initial p c)) \<and>
     (\<forall>p \<in> set visited. \<forall>c. reexport_target rs initial p c \<longrightarrow> sc_id c \<in> fst ` set matches)"

lemma reexport_inv_skip:
  "reexport_inv rs initial (path # pending) visited matches \<Longrightarrow> path \<in> set visited \<Longrightarrow>
   reexport_inv rs initial pending visited matches"
  by (auto simp: reexport_inv_def)

lemma reexport_inv_visit:
  assumes "reexport_inv rs initial (path # pending) visited matches"
    and "matches' = (if path \<noteq> initial
      then case unique_qualified_match rs ''rust'' (rsplit_last sep path) path of
             Some c \<Rightarrow> btree_insert (sc_id c) c matches | None \<Rightarrow> matches
      else matches)"
  shows "reexport_inv rs initial (rev (reexport_hops rs path) @ pending) (path # visited) matches'"
proof -
  note inv = assms(1) [unfolded reexport_inv_def]
  have cases: "matches' = matches \<and> (\<forall>c. \<not> reexport_target rs initial path c) \<or>
      (\<exists>c. reexport_target rs initial path c \<and> matches' = btree_insert (sc_id c) c matches)"
    using assms(2) by (auto simp: reexport_target_def split: option.splits)
  have old: "reexport_target rs initial path d \<Longrightarrow> reexport_target rs initial path c \<Longrightarrow> d = c" for c d
    by (simp add: reexport_target_def)
  have keys: "fst ` set matches \<subseteq> fst ` set matches'"
    using cases fst_btree_insert [of _ _ matches] by (elim disjE exE conjE) (auto simp only: subset_insertI subset_refl)
  have new: "sc_id c \<in> fst ` set matches'" if "reexport_target rs initial path c" for c
    using cases that old fst_btree_insert by (metis insertI1)
  have mem: "x \<in> set matches \<or> (\<exists>c. reexport_target rs initial path c \<and> x = (sc_id c, c))"
    if x: "x \<in> set matches'" for x
    using cases
  proof (elim disjE exE conjE)
    fix c assume c: "reexport_target rs initial path c" "matches' = btree_insert (sc_id c) c matches"
    then show ?thesis using btree_insert_mem [OF x [unfolded c(2)]] by blast
  qed (use x in simp)
  have reach: "reexport_reach rs initial path" using inv by auto
  show ?thesis
    unfolding reexport_inv_def
  proof (intro conjI)
    show "\<forall>p \<in> set (path # visited) \<union> set (rev (reexport_hops rs path) @ pending). reexport_reach rs initial p"
      using inv reach by (auto intro: reexport_reach.hop)
    show "\<forall>(k, c) \<in> set matches'. k = sc_id c \<and> (\<exists>p \<in> set (path # visited). reexport_target rs initial p c)"
    proof
      fix x assume "x \<in> set matches'"
      from mem [OF this] show "case x of (k, c) \<Rightarrow> k = sc_id c \<and> (\<exists>p \<in> set (path # visited). reexport_target rs initial p c)"
      proof
        assume "x \<in> set matches"
        then have "case x of (k, c) \<Rightarrow> k = sc_id c \<and> (\<exists>p \<in> set visited. reexport_target rs initial p c)"
          using inv by blast
        then show ?thesis by (auto split: prod.splits)
      qed auto
    qed
    show "\<forall>p \<in> set (path # visited). \<forall>c. reexport_target rs initial p c \<longrightarrow> sc_id c \<in> fst ` set matches'"
      using inv new keys by auto
  qed (use inv in auto)
qed

lemma reexport_inv_closed:
  assumes "reexport_inv rs initial [] visited matches" "reexport_reach rs initial p"
  shows "p \<in> set visited"
  using assms(2)
proof induction
  case start
  then show ?case using assms(1) by (simp add: reexport_inv_def)
next
  case (hop p q)
  then show ?case using assms(1) by (auto simp: reexport_inv_def)
qed

definition reexport_answer :: "resolver \<Rightarrow> string \<Rightarrow> import_resolution \<Rightarrow> bool" where
  "reexport_answer rs initial res \<longleftrightarrow>
     (case res of
        Unique c \<Rightarrow> (\<exists>p. reexport_reach rs initial p \<and> reexport_target rs initial p c) \<and>
          (\<forall>q d. reexport_reach rs initial q \<longrightarrow> reexport_target rs initial q d \<longrightarrow> sc_id d = sc_id c)
      | NoImport \<Rightarrow> (\<forall>q d. reexport_reach rs initial q \<longrightarrow> \<not> reexport_target rs initial q d)
      | Ambiguous \<Rightarrow> True)"

lemma reexport_answer_done:
  assumes "reexport_inv rs initial [] visited matches"
  shows "reexport_answer rs initial (import_resolution_of matches)"
proof -
  note inv = assms [unfolded reexport_inv_def]
  have all: "sc_id d \<in> fst ` set matches" if "reexport_reach rs initial q" "reexport_target rs initial q d" for q d
    using inv reexport_inv_closed [OF assms that(1)] that(2) by blast
  show ?thesis
  proof (cases matches rule: import_resolution_of.cases)
    case 1
    with all show ?thesis by (auto simp: reexport_answer_def)
  next
    case (2 k c)
    have "\<forall>(k, c) \<in> set matches. k = sc_id c \<and> (\<exists>p \<in> set visited. reexport_target rs initial p c)"
      using inv by (elim conjE)
    then obtain p where p: "p \<in> set visited" "reexport_target rs initial p c" "k = sc_id c"
      unfolding 2 by auto
    then have "reexport_reach rs initial p" using inv by blast
    moreover have "sc_id d = sc_id c" if "reexport_reach rs initial q" "reexport_target rs initial q d" for q d
      using all [OF that] 2 p(3) by simp
    ultimately show ?thesis unfolding 2 reexport_answer_def import_resolution_of.simps import_resolution.case
      using p(2) by blast
  next
    case (3 a b xs)
    then show ?thesis by (simp add: reexport_answer_def)
  qed
qed

lemma reexport_loop_answer:
  "reexport_inv rs initial pending visited matches \<Longrightarrow>
   reexport_answer rs initial (reexport_loop rs initial pending visited matches)"
proof (induction rs initial pending visited matches rule: reexport_loop.induct)
  case (1 rs initial visited matches)
  then show ?case by (simp add: reexport_answer_done reexport_loop.simps)
next
  case (2 rs initial path pending visited matches)
  show ?case
  proof (cases "path \<in> set visited")
    case True
    with 2 show ?thesis by (simp add: reexport_inv_skip reexport_loop.simps(2))
  next
    case False
    show ?thesis
    proof (cases "length visited \<ge> REEXPORT_CAP")
      case True
      with False show ?thesis by (simp add: reexport_answer_def reexport_loop.simps(2))
    next
      case cap: False
      from 2(2) [OF False cap refl reexport_inv_visit [OF 2(3) refl]] False cap show ?thesis
        by (simp add: Let_def reexport_loop.simps(2))
    qed
  qed
qed

lemma resolve_reexport_answer:
  assumes "rw_target_qualified r = Some spelled" "str_contains sep (resolve_import_path file spelled)"
  shows "reexport_answer rs (resolve_import_path file spelled) (resolve_reexport rs file r)"
proof -
  have "reexport_inv rs i [i] [] []" for i by (auto simp: reexport_inv_def intro: reexport_reach.start)
  from reexport_loop_answer [OF this] show ?thesis using assms by (simp add: resolve_reexport_def Let_def)
qed

lemma resolve_reexport_stored:
  assumes "resolve_reexport rs file r = Unique c"
  shows "stored_candidate (rs_tx rs) c"
proof -
  obtain spelled where s: "rw_target_qualified r = Some spelled" "str_contains sep (resolve_import_path file spelled)"
    using assms by (auto simp: resolve_reexport_def Let_def split: option.splits if_splits)
  from resolve_reexport_answer [OF this, of rs] assms show ?thesis
    by (auto simp: reexport_answer_def reexport_target_def dest: unique_qualified_match_sound)
qed

lemma resolve_ref_cases:
  fixes rs from_file language ims r
  assumes "rw_kind r \<noteq> ''runtime_invocation''"
  defines "res \<equiv> resolve_ref rs from_file language ims r"
  obtains (fuzzy) "res = resolved_fuzzy" | (named) "resolved_to (rs_tx rs) (rw_target_name r) res" |
    (reexport) c where "language = ''rust''" "rw_spelled_path r" "resolve_reexport rs from_file r = Unique c"
      "res = resolved_candidate c ''import_resolved''"
proof -
  have ladder: thesis if "res = resolve_by_ladder rs from_file language ims r"
    using resolve_by_ladder_sound [OF refl, of rs from_file language ims r] that
      fuzzy named reexport by blast
  show thesis
  proof (cases "member_of_ref (rs_ualnum rs) from_file r")
    case None
    then show thesis using ladder assms(1) by (simp add: res_def resolve_ref_def)
  next
    case target: (Some target)
    show thesis
    proof (cases "resolve_type_member rs from_file ims target")
      case None
      then show thesis using ladder assms(1) target by (simp add: res_def resolve_ref_def)
    next
      case (Some found)
      then have "res = found" using assms(1) target by (simp add: res_def resolve_ref_def)
      then show thesis
        using resolve_type_member_sound [OF Some] member_of_ref_name [OF target] fuzzy named by auto
    qed
  qed
qed

section \<open>What resolution promises\<close>


text \<open>
  C34. A method call whose receiver type is unknown and whose target is not read as a type member
  is never matched on its short name: it does not resolve at \<open>same_module\<close>, and a resolution to a
  symbol of the calling file found by the first rung has exactly the extracted qualified name.
\<close>

theorem unresolved_receiver_not_by_name:
  assumes "rw_unresolved_receiver r = Some recv" "member_of_ref (rs_ualnum rs) from_file r = None"
  shows "rr_confidence (resolve_ref rs from_file language imports r) \<noteq> ''same_module'' \<and>
    (case resolve_exact rs from_file r of None \<Rightarrow> True | Some c \<Rightarrow> rw_target_qualified r = Some (sc_qualified c))"
proof -
  have m: "resolve_same_module rs from_file language r = None"
    using assms(1) by (simp add: resolve_same_module_def resolves_by_name_only_def)
  have "rr_confidence (resolve_by_ladder rs from_file language imports r) \<noteq> ''same_module''"
    unfolding resolve_by_ladder_def resolve_reexport_or_module_def m Let_def
    by (auto simp: resolved_candidate_def resolved_fuzzy_def split: option.splits import_resolution.splits)
  then have "rr_confidence (resolve_ref rs from_file language imports r) \<noteq> ''same_module''"
    unfolding resolve_ref_def assms(2) by (simp add: resolved_fuzzy_def)
  moreover have "case resolve_exact rs from_file r of None \<Rightarrow> True
      | Some c \<Rightarrow> rw_target_qualified r = Some (sc_qualified c)"
    using resolve_exact_sound [of rs from_file r] assms(1) by (auto split: option.splits)
  ultimately show ?thesis by blast
qed


definition demo_item :: "int \<Rightarrow> string \<Rightarrow> string \<Rightarrow> string \<Rightarrow> symbol_row" where
  "demo_item i path name kind =
     \<lparr>sy_id = i, sy_file_path = path, sy_name = name, sy_qualified = name, sy_kind = kind,
      sy_span_start = 0, sy_span_end = 10, sy_signature = None, sy_parent_symbol = None\<rparr>"

definition demo_rust_file :: "string \<Rightarrow> file_row" where
  "demo_rust_file path = \<lparr>fl_path = path, fl_content_hash = ''h'', fl_mtime_ns = 7, fl_lang = ''rust'', fl_byte_len = 10,
      fl_extracted_at = 9\<rparr>"

text \<open>\<open>src/b.rs\<close> defines \<open>Foo\<close>; \<open>src/a.rs\<close> exposes it: \<open>pub use crate::b::Foo as Bar\<close>.\<close>

definition demo_reexport_db :: graph_db where
  "demo_reexport_db =
     \<lparr>db_files = [demo_rust_file ''src/a.rs'', demo_rust_file ''src/b.rs'', demo_rust_file ''src/c.rs''],
      db_symbols = [demo_item 1 ''src/b.rs'' ''Foo'' ''struct''], db_refs = [], db_relations = [],
      db_imports = [\<lparr>im_from_file = ''src/a.rs'', im_target_path = ''crate::b'', im_target_symbol = Some ''Bar'',
        im_source_symbol = Some ''Foo'', im_reexport_module = Some []\<rparr>],
      db_commands = [], db_strings = [], db_configs = [],
      db_symbols_fts = [], db_strings_fts = [], db_configs_fts = [], db_meta = []\<rparr>"

definition demo_resolver :: resolver where
  "demo_resolver = \<lparr>rs_tx = demo_reexport_db, rs_package_for_file = (\<lambda>_. None), rs_ualnum = (\<lambda>_. False)\<rparr>"

definition demo_raw :: "string \<Rightarrow> string option \<Rightarrow> string option \<Rightarrow> raw_ref" where
  "demo_raw name qualified receiver =
     \<lparr>rw_from_file = ''src/c.rs'', rw_from_span_start = 0, rw_from_span_end = 3, rw_target_name = name,
      rw_target_qualified = qualified, rw_kind = ''call'', rw_confidence = ''fuzzy_name'',
      rw_unresolved_receiver = receiver, rw_spelled_path = (qualified \<noteq> None)\<rparr>"


theorem unresolved_receiver_not_by_name_witness:
  "rr_confidence (resolve_ref demo_resolver ''src/b.rs'' ''rust'' [] (demo_raw ''Foo'' None (Some ''args''))) \<noteq>
     ''same_module''"
proof -
  have r: "rw_unresolved_receiver (demo_raw ''Foo'' None (Some ''args'')) = Some ''args''"
    by (simp add: demo_raw_def)
  have m: "member_of_ref (rs_ualnum demo_resolver) ''src/b.rs'' (demo_raw ''Foo'' None (Some ''args'')) = None"
    by code_simp
  show ?thesis using unresolved_receiver_not_by_name [OF r m] by blast
qed

end
