(* ===== verification/Redaction.thy ===== *)
theory Redaction
  imports Rust_Prelude
begin

text \<open>
  Credential redaction at the durability boundaries (\<open>crates/orbit-graph/src/redaction.rs\<close>):
  \<open>redact\<close> scans a text once, collects the byte ranges that hold credentials and writes a marker
  for each. Offsets are byte offsets into the UTF-8 text.

  The lemmas show that the scan ends, that every credential a detector recognises outside a
  masked private key block is masked, that exactly the bytes outside all ranges are copied, and
  that a text without credentials is returned unchanged.
\<close>

section \<open>Model\<close>

definition MARKER :: string where
  "MARKER = ''[REDACTED_SECRET]''"

definition token_byte :: "char \<Rightarrow> bool" where
  "token_byte byte \<longleftrightarrow> is_ascii_alphanumeric byte \<or> byte = CHR ''_'' \<or> byte = CHR ''-''"

definition boundary :: "string \<Rightarrow> nat \<Rightarrow> bool" where
  "boundary bytes start \<longleftrightarrow> start = 0 \<or> \<not> token_byte (bytes ! (start - 1))"

text \<open>\<open>bytes[start..].iter().position(p).map_or(bytes.len(), |offset| start + offset)\<close>.\<close>

definition scan_until :: "(char \<Rightarrow> bool) \<Rightarrow> string \<Rightarrow> nat \<Rightarrow> nat" where
  "scan_until p bytes start = start + length (takeWhile (\<lambda>b. \<not> p b) (drop start bytes))"

text \<open>PEM private keys, masked as a whole block.\<close>

definition pem_hit :: "string \<Rightarrow> nat \<Rightarrow> (nat \<times> nat) option" where
  "pem_hit input pos =
     (if starts_with ''-----BEGIN '' (drop pos input)
      then case str_find ''-----'' (drop (pos + 11) input) of
             None \<Rightarrow> None
           | Some label_end \<Rightarrow>
               (let label = take label_end (drop (pos + 11) input) in
                if ends_with ''PRIVATE KEY'' label
                then let footer = ''-----END '' @ label @ ''-----'' in
                     case str_find footer (drop pos input) of
                       None \<Rightarrow> None
                     | Some end \<Rightarrow> Some (pos, pos + end + length footer)
                else None)
      else None)"

definition scheme_len :: "string \<Rightarrow> nat \<Rightarrow> nat" where
  "scheme_len input pos =
     (if starts_with ''https://'' (drop pos input) then 8
      else if starts_with ''http://'' (drop pos input) then 7
      else 0)"

definition authority_end_byte :: "char \<Rightarrow> bool" where
  "authority_end_byte b \<longleftrightarrow>
     b \<in> {CHR ''/'', CHR ''?'', CHR ''#'', CHR '' '', CHR 0x0A, CHR 0x0D, CHR 0x09,
          CHR 0x22, CHR 0x27, CHR ''<'', CHR ''>''}"

text \<open>\<open>bytes[from..to].iter().position(|byte| *byte == c)\<close>.\<close>

definition position_of :: "char \<Rightarrow> string \<Rightarrow> nat option" where
  "position_of c bytes =
     (if c \<in> set bytes then Some (length (takeWhile (\<lambda>b. b \<noteq> c) bytes)) else None)"

text \<open>URL userinfo passwords, delimited by the authority's \<open>@\<close>.\<close>

definition url_hit :: "string \<Rightarrow> nat \<Rightarrow> (nat \<times> nat) list" where
  "url_hit bytes pos =
     (if scheme_len bytes pos > 0 \<and> boundary bytes pos
      then let authority = pos + scheme_len bytes pos;
               end = scan_until authority_end_byte bytes authority
           in case position_of (CHR ''@'') (take (end - authority) (drop authority bytes)) of
                None \<Rightarrow> []
              | Some at_off \<Rightarrow>
                  (let at = authority + at_off in
                   case position_of (CHR '':'') (take (at - authority) (drop authority bytes)) of
                     None \<Rightarrow> []
                   | Some colon \<Rightarrow>
                       (let start = authority + colon + 1 in
                        if start < at then [(start, at)] else []))
      else [])"

definition bearer_end_byte :: "char \<Rightarrow> bool" where
  "bearer_end_byte b \<longleftrightarrow>
     is_ascii_whitespace b \<or> b \<in> {CHR 0x22, CHR 0x27, CHR ''<'', CHR ''>''}"

definition bearer_hit :: "string \<Rightarrow> nat \<Rightarrow> (nat \<times> nat) list" where
  "bearer_hit bytes pos =
     (if boundary bytes pos \<and> length (drop pos bytes) \<ge> 22 \<and>
         eq_ignore_ascii_case (take 22 (drop pos bytes)) ''authorization: bearer ''
      then let start = pos + 22; end = scan_until bearer_end_byte bytes start
           in if end > start then [(start, end)] else []
      else [])"

definition token_prefixes :: "(string \<times> nat) list" where
  "token_prefixes =
     [(''github_pat_'', 12), (''ghp_'', 12), (''gho_'', 12), (''glpat-'', 12), (''xoxb-'', 12),
      (''xoxp-'', 12), (''sk-proj-'', 20), (''sk-'', 20)]"

text \<open>
  The loop over the prefixes: the first that matches decides, whether or not its tail is long
  enough (\<open>break\<close>).
\<close>

fun prefix_hit :: "string \<Rightarrow> nat \<Rightarrow> (string \<times> nat) list \<Rightarrow> (nat \<times> nat) list" where
  "prefix_hit bytes pos [] = []"
| "prefix_hit bytes pos ((pre, min_tail) # rest) =
     (if starts_with pre (drop pos bytes)
      then let start = pos + length pre;
               end = scan_until (\<lambda>b. \<not> token_byte b) bytes start;
               tail = take (end - start) (drop start bytes);
               valid = (if starts_with ''sk-'' pre
                        then length tail \<ge> min_tail \<and> list_all is_ascii_alphanumeric tail
                        else length tail \<ge> min_tail \<and> list_ex is_ascii_alphanumeric tail)
           in if valid then [(pos, end)] else []
      else prefix_hit bytes pos rest)"

definition akia_hit :: "string \<Rightarrow> nat \<Rightarrow> (nat \<times> nat) list" where
  "akia_hit bytes pos =
     (if starts_with ''AKIA'' (drop pos bytes) \<and> length bytes \<ge> pos + 20 \<and>
         list_all (\<lambda>b. is_ascii_upper b \<or> is_ascii_digit b) (take 16 (drop (pos + 4) bytes)) \<and>
         (pos + 20 = length bytes \<or> \<not> token_byte (bytes ! (pos + 20)))
      then [(pos, pos + 20)] else [])"

text \<open>The ranges one iteration pushes when no private key block starts at \<open>pos\<close>.\<close>

definition ranges_at :: "string \<Rightarrow> nat \<Rightarrow> (nat \<times> nat) list" where
  "ranges_at bytes pos =
     url_hit bytes pos @ bearer_hit bytes pos @
     (if boundary bytes pos then prefix_hit bytes pos token_prefixes @ akia_hit bytes pos else [])"

text \<open>\<open>char::len_utf8\<close> of the character that starts with a lead byte.\<close>

definition len_utf8 :: "char \<Rightarrow> nat" where
  "len_utf8 c =
     (if code c < 0xC0 then 1 else if code c < 0xE0 then 2 else if code c < 0xF0 then 3 else 4)"

lemma len_utf8_pos: "0 < len_utf8 c"
  by (simp add: len_utf8_def)

lemma pem_hit_SomeD: "pem_hit input pos = Some (s, e) \<Longrightarrow> s = pos \<and> pos < e \<and> e \<le> length input"
  by (auto simp: pem_hit_def Let_def str_find_def dest!: split_once_SomeD
      dest: arg_cong [of _ _ length] split: if_splits option.splits)

function scan_ranges :: "string \<Rightarrow> nat \<Rightarrow> (nat \<times> nat) list \<Rightarrow> (nat \<times> nat) list" where
  "scan_ranges input pos ranges =
     (if pos < length input
      then case pem_hit input pos of
             Some r \<Rightarrow> scan_ranges input (snd r) (ranges @ [r])
           | None \<Rightarrow>
               scan_ranges input (pos + len_utf8 (input ! pos)) (ranges @ ranges_at input pos)
      else ranges)"
  by pat_completeness auto
termination
  by (relation "measure (\<lambda>(input, pos, ranges). length input - pos)")
     (auto dest!: pem_hit_SomeD simp: len_utf8_pos diff_less_mono2)

declare scan_ranges.simps [simp del]

text \<open>The final loop: copy the gaps, write a marker for each range not already covered.\<close>

fun render :: "string \<Rightarrow> nat \<Rightarrow> (nat \<times> nat) list \<Rightarrow> string" where
  "render input copied [] = drop copied input"
| "render input copied ((start, end) # ranges) =
     (if end \<le> copied then render input copied ranges
      else (if start > copied then take (start - copied) (drop copied input) else [])
           @ MARKER @ render input end ranges)"

definition redact :: "string \<Rightarrow> string" where
  "redact input =
     (let ranges = scan_ranges input 0 [] in
      if ranges = [] then input else render input 0 (sort ranges))"

section \<open>The ranges\<close>

definition range_ok :: "string \<Rightarrow> nat \<times> nat \<Rightarrow> bool" where
  "range_ok input r \<longleftrightarrow> fst r < snd r \<and> snd r \<le> length input"

lemma scan_until_bounds: "start \<le> scan_until p bytes start"
  "start \<le> length bytes \<Longrightarrow> scan_until p bytes start \<le> length bytes"
  using length_takeWhile_le [of "\<lambda>b. \<not> p b" "drop start bytes"] by (auto simp: scan_until_def)

lemma position_of_SomeD: "position_of c bs = Some n \<Longrightarrow> n < length bs"
proof -
  assume "position_of c bs = Some n"
  then have "c \<in> set bs" "n = length (takeWhile (\<lambda>b. b \<noteq> c) bs)"
    by (auto simp: position_of_def split: if_splits)
  then show ?thesis by (induction bs arbitrary: n) auto
qed

lemma starts_with_length: "starts_with pre s \<Longrightarrow> length pre \<le> length s"
  by (auto simp: starts_with_iff)

lemma url_hit_ok: "r \<in> set (url_hit bytes pos) \<Longrightarrow> range_ok bytes r"
proof -
  let ?a = "pos + scheme_len bytes pos"
  assume "r \<in> set (url_hit bytes pos)"
  then obtain n k l where "Some n = position_of (CHR ''@'') (take k (drop ?a bytes))"
    and r: "r = (?a + l + 1, ?a + n)" "l + 1 < n"
    by (auto simp: url_hit_def Let_def split: if_splits option.splits)
  then have "n < length (take k (drop ?a bytes))" by (metis position_of_SomeD)
  with r show ?thesis by (auto simp: range_ok_def)
qed

lemma bearer_hit_ok: "r \<in> set (bearer_hit bytes pos) \<Longrightarrow> range_ok bytes r"
  using scan_until_bounds(2) [of "pos + 22" bytes bearer_end_byte]
  by (auto simp: bearer_hit_def Let_def range_ok_def split: if_splits)

lemma prefix_hit_ok:
  "r \<in> set (prefix_hit bytes pos ps) \<Longrightarrow> (\<And>pre n. (pre, n) \<in> set ps \<Longrightarrow> pre \<noteq> []) \<Longrightarrow>
   range_ok bytes r"
proof (induction bytes pos ps rule: prefix_hit.induct)
  case (2 bytes pos pre n rest)
  show ?case
  proof (cases "starts_with pre (drop pos bytes)")
    case True
    let ?e = "scan_until (\<lambda>b. \<not> token_byte b) bytes (pos + length pre)"
    from True "2.prems"(2) have "pre \<noteq> []" "pos + length pre \<le> length bytes"
      using starts_with_length [OF True] by (cases pre; auto)+
    moreover from True "2.prems"(1) have "r = (pos, ?e)" by (auto simp: Let_def split: if_splits)
    ultimately show ?thesis
      using scan_until_bounds(1) [of "pos + length pre" "\<lambda>b. \<not> token_byte b" bytes]
        scan_until_bounds(2) [of "pos + length pre" bytes "\<lambda>b. \<not> token_byte b"]
      by (cases pre) (auto simp: range_ok_def)
  next
    case False
    with 2 show ?thesis by auto
  qed
qed simp

lemma ranges_at_ok: "r \<in> set (ranges_at bytes pos) \<Longrightarrow> range_ok bytes r"
proof -
  have "\<And>pre n. (pre, n) \<in> set token_prefixes \<Longrightarrow> pre \<noteq> []" by (auto simp: token_prefixes_def)
  then have "r \<in> set (prefix_hit bytes pos token_prefixes) \<Longrightarrow> range_ok bytes r"
    using prefix_hit_ok by blast
  moreover have "r \<in> set (akia_hit bytes pos) \<Longrightarrow> range_ok bytes r"
    by (auto simp: akia_hit_def range_ok_def split: if_splits)
  moreover assume "r \<in> set (ranges_at bytes pos)"
  ultimately show ?thesis
    unfolding ranges_at_def using url_hit_ok [of r bytes pos] bearer_hit_ok [of r bytes pos]
    by (simp split: if_splits) blast
qed

text \<open>One iteration of the scan: what it pushes and where it goes on.\<close>

definition scan_pushes :: "string \<Rightarrow> nat \<Rightarrow> (nat \<times> nat) list" where
  "scan_pushes input pos =
     (case pem_hit input pos of Some r \<Rightarrow> [r] | None \<Rightarrow> ranges_at input pos)"

definition scan_next :: "string \<Rightarrow> nat \<Rightarrow> nat" where
  "scan_next input pos =
     (case pem_hit input pos of Some r \<Rightarrow> snd r | None \<Rightarrow> pos + len_utf8 (input ! pos))"

lemma scan_next_greater: "pos < scan_next input pos"
  by (auto simp: scan_next_def len_utf8_pos dest: pem_hit_SomeD split: option.splits)

lemma scan_ranges_step:
  "pos < length input \<Longrightarrow>
   scan_ranges input pos acc = scan_ranges input (scan_next input pos) (acc @ scan_pushes input pos)"
  by (subst scan_ranges.simps) (simp add: scan_next_def scan_pushes_def split: option.splits)

lemma scan_ranges_end: "\<not> pos < length input \<Longrightarrow> scan_ranges input pos acc = acc"
  by (subst scan_ranges.simps) simp

lemma scan_induct [case_names finish step]:
  assumes "\<And>pos. \<not> pos < length input \<Longrightarrow> P pos"
    and "\<And>pos. pos < length input \<Longrightarrow> P (scan_next input pos) \<Longrightarrow> P pos"
  shows "P pos"
proof (induction "length input - pos" arbitrary: pos rule: less_induct)
  case less
  show ?case
  proof (cases "pos < length input")
    case True
    then have "length input - scan_next input pos < length input - pos"
      using scan_next_greater [of pos input] by simp
    with less True show ?thesis by (blast intro: assms(2))
  next
    case False
    then show ?thesis by (rule assms(1))
  qed
qed

lemma scan_ranges_acc: "scan_ranges input pos acc = acc @ scan_ranges input pos []"
proof (induction pos arbitrary: acc rule: scan_induct [of input])
  case (step pos)
  have "scan_ranges input pos acc = (acc @ scan_pushes input pos) @
      scan_ranges input (scan_next input pos) []"
    using step scan_ranges_step by metis
  moreover have "scan_ranges input pos [] = scan_pushes input pos @
      scan_ranges input (scan_next input pos) []"
    using step scan_ranges_step by (metis append_Nil)
  ultimately show ?case by simp
qed (simp add: scan_ranges_end)

lemma scan_ranges_unfold:
  "pos < length input \<Longrightarrow>
   scan_ranges input pos [] = scan_pushes input pos @ scan_ranges input (scan_next input pos) []"
  using scan_ranges_step [of pos input "[]"]
    scan_ranges_acc [of input "scan_next input pos" "scan_pushes input pos"] by simp

lemma scan_pushes_ok: "r \<in> set (scan_pushes input pos) \<Longrightarrow> range_ok input r"
  using ranges_at_ok
  by (auto simp: scan_pushes_def range_ok_def dest: pem_hit_SomeD split: option.splits)

lemma scan_ranges_ok: "r \<in> set (scan_ranges input pos []) \<Longrightarrow> range_ok input r"
  by (induction pos rule: scan_induct [of input])
     (auto simp: scan_ranges_end scan_ranges_unfold scan_pushes_ok)

section \<open>What is masked\<close>

text \<open>
  UTF-8 text, read as a sequence of characters: a lead byte and its continuation bytes.
\<close>

definition continuation_byte :: "char \<Rightarrow> bool" where
  "continuation_byte c \<longleftrightarrow> 0x80 \<le> code c \<and> code c < 0xC0"

inductive utf8_text :: "string \<Rightarrow> bool" where
  utf8_Nil: "utf8_text []"
| utf8_Cons: "\<not> continuation_byte c \<Longrightarrow> list_all continuation_byte cs \<Longrightarrow>
     length cs + 1 = len_utf8 c \<Longrightarrow> utf8_text r \<Longrightarrow> utf8_text (c # cs @ r)"

lemma utf8_text_ascii: "list_all (\<lambda>c. code c < 0x80) s \<Longrightarrow> utf8_text s"
proof (induction s)
  case (Cons c s)
  then show ?case using utf8_Cons [of c "[]" s] by (simp add: continuation_byte_def len_utf8_def)
qed (rule utf8_Nil)

lemma utf8_text_len:
  assumes "utf8_text s" "s \<noteq> []"
  shows "utf8_text (drop (len_utf8 (hd s)) s) \<and>
    list_all continuation_byte (take (len_utf8 (hd s) - 1) (tl s))"
  using assms
proof cases
  case (utf8_Cons c cs r)
  then have "len_utf8 c = Suc (length cs)" by simp
  with utf8_Cons show ?thesis by simp
qed simp

lemma utf8_text_after_ascii: "utf8_text (a @ c # b) \<Longrightarrow> code c < 0x80 \<Longrightarrow> utf8_text b"
proof (induction "a @ c # b" arbitrary: a rule: utf8_text.induct)
  case (utf8_Cons c' cs r)
  note ascii = \<open>code c < 0x80\<close> and cont = \<open>list_all continuation_byte cs\<close>
  show ?case
  proof (cases a)
    case Nil
    with utf8_Cons have "c' = c" "b = cs @ r" by auto
    with utf8_Cons have "cs = []" by (auto simp: len_utf8_def)
    with \<open>b = cs @ r\<close> utf8_Cons show ?thesis by simp
  next
    case (Cons x a')
    with utf8_Cons have eq: "cs @ r = a' @ c # b" by simp
    then consider us where "cs = a' @ us" "us @ r = c # b" | us where "a' = cs @ us" "r = us @ c # b"
      by (auto simp: append_eq_append_conv2)
    then show ?thesis
    proof cases
      case 1
      have "us = []"
      proof (rule ccontr)
        assume "us \<noteq> []"
        with 1 have "c \<in> set cs" by (cases us) auto
        with ascii cont show False by (auto simp: list_all_iff continuation_byte_def)
      qed
      with 1 utf8_Cons show ?thesis by (metis append_Nil)
    next
      case 2
      with utf8_Cons show ?thesis by blast
    qed
  qed
qed simp

text \<open>A character start the scan passes over lies inside a private key block it masked.\<close>

definition in_block :: "string \<Rightarrow> nat \<Rightarrow> nat \<Rightarrow> bool" where
  "in_block input pos p \<longleftrightarrow>
     (\<exists>s e. (s, e) \<in> set (scan_ranges input pos []) \<and> pem_hit input s = Some (s, e) \<and> s \<le> p \<and> p < e)"

lemma drop_length_append: "drop (length xs) (xs @ ys) = ys"
  by simp

lemma pem_hit_ends_ascii:
  assumes "pem_hit input pos = Some (s, e)"
  obtains a where "drop pos input = a @ CHR ''-'' # drop e input"
proof -
  obtain label n where f: "str_find (''-----END '' @ label @ ''-----'') (drop pos input) = Some n"
    and e: "e = pos + n + length (''-----END '' @ label @ ''-----'')"
    using assms by (auto simp: pem_hit_def Let_def split: if_splits option.splits)
  let ?f = "''-----END '' @ label @ ''-----''"
  obtain a b where ab: "split_once ?f (drop pos input) = Some (a, b)" and n: "length a = n"
    using f by (auto simp: str_find_def)
  have d: "drop pos input = a @ ?f @ b" using ab by (rule split_once_SomeD)
  have "drop e input = drop (n + length ?f) (drop pos input)" by (simp add: e ac_simps)
  also have "\<dots> = drop (length (a @ ?f)) ((a @ ?f) @ b)"
    unfolding d by (simp only: length_append n append_assoc)
  also have "\<dots> = b" by (rule drop_length_append)
  finally have "drop pos input = (a @ ''-----END '' @ label @ ''----'') @ CHR ''-'' # drop e input"
    using d by simp
  then show thesis by (rule that)
qed

lemma utf8_text_scan_next:
  assumes "utf8_text (drop pos input)" "pos < length input"
  shows "utf8_text (drop (scan_next input pos) input)"
proof (cases "pem_hit input pos")
  case None
  then show ?thesis
    using assms utf8_text_len [of "drop pos input"]
    by (simp add: scan_next_def hd_drop_conv_nth add.commute)
next
  case (Some r)
  then obtain a where "drop pos input = a @ CHR ''-'' # drop (snd r) input"
    using pem_hit_ends_ascii [of input pos "fst r" "snd r"] by (metis prod.collapse)
  with assms(1) Some show ?thesis
    using utf8_text_after_ascii [of a "CHR ''-''"] by (simp add: scan_next_def)
qed

lemma scan_skips_no_start:
  assumes "utf8_text (drop pos input)" "pos < length input" "pem_hit input pos = None"
    and "pos < p" "p < scan_next input pos" "p < length input"
  shows "continuation_byte (input ! p)"
proof -
  let ?k = "len_utf8 (input ! pos) - 1"
  have c: "list_all continuation_byte (take ?k (tl (drop pos input)))"
    using assms utf8_text_len [of "drop pos input"] by (simp add: hd_drop_conv_nth)
  have t: "tl (drop pos input) = drop (Suc pos) input" by (simp add: drop_Suc tl_drop)
  let ?i = "p - Suc pos"
  have "?i < ?k" "?i < length (drop (Suc pos) input)"
    using assms by (auto simp: scan_next_def)
  then have "take ?k (drop (Suc pos) input) ! ?i = input ! p"
    using assms(4) by simp
  moreover have "take ?k (drop (Suc pos) input) ! ?i \<in> set (take ?k (drop (Suc pos) input))"
    using \<open>?i < ?k\<close> \<open>?i < length (drop (Suc pos) input)\<close> by (intro nth_mem) simp
  ultimately show ?thesis using c t by (simp add: list_all_iff)
qed

lemma scan_covers:
  assumes "utf8_text (drop pos input)" "pos \<le> p" "p < length input"
    and "\<not> continuation_byte (input ! p)"
  shows "set (ranges_at input p) \<subseteq> set (scan_ranges input pos []) \<or> in_block input pos p"
  using assms
proof (induction pos rule: scan_induct [of input])
  case (step pos)
  note U = scan_ranges_unfold [OF step.hyps(1)]
  show ?case
  proof (cases "scan_next input pos \<le> p")
    case True
    have "utf8_text (drop (scan_next input pos) input)"
      using step.prems(1) step.hyps by (rule utf8_text_scan_next)
    with True step have "set (ranges_at input p) \<subseteq> set (scan_ranges input (scan_next input pos) [])
        \<or> in_block input (scan_next input pos) p" by blast
    with U show ?thesis by (auto simp: in_block_def)
  next
    case False
    show ?thesis
    proof (cases "pem_hit input pos")
      case None
      with False step.prems step.hyps scan_skips_no_start [of pos input p] have "p = pos"
        by (cases "p = pos") auto
      with None U show ?thesis by (simp add: scan_pushes_def)
    next
      case (Some r)
      obtain s e where r: "r = (s, e)" by (cases r)
      with Some have "s = pos" by (auto dest: pem_hit_SomeD)
      with Some r have hit: "pem_hit input pos = Some (pos, e)" by simp
      with U have "(pos, e) \<in> set (scan_ranges input pos [])" by (simp add: scan_pushes_def)
      moreover from False hit have "p < e" by (simp add: scan_next_def)
      ultimately have "in_block input pos p"
        unfolding in_block_def using hit step.prems(2) by blast
      then show ?thesis ..
    qed
  qed
qed simp

section \<open>What is copied\<close>

text \<open>The output as pieces: a byte of the input, or a marker.\<close>

datatype piece = Kept nat | Mark

fun piece_text :: "string \<Rightarrow> piece \<Rightarrow> string" where
  "piece_text input (Kept i) = [input ! i]"
| "piece_text input Mark = MARKER"

fun kept_positions :: "piece list \<Rightarrow> nat list" where
  "kept_positions [] = []"
| "kept_positions (Kept i # ps) = i # kept_positions ps"
| "kept_positions (Mark # ps) = kept_positions ps"

definition masked :: "(nat \<times> nat) list \<Rightarrow> nat \<Rightarrow> bool" where
  "masked ranges i \<longleftrightarrow> list_ex (\<lambda>(s, e). s \<le> i \<and> i < e) ranges"

lemma kept_positions_append [simp]: "kept_positions (ps @ qs) = kept_positions ps @ kept_positions qs"
  by (induction ps rule: kept_positions.induct) auto

lemma kept_positions_Kept [simp]: "kept_positions (map Kept is) = is"
  by (induction "is") auto

lemma concat_Kept: "concat (map (piece_text input) (map Kept is)) = map ((!) input) is"
  by (induction "is") auto

lemma slice_eq_map:
  "j \<le> length input \<Longrightarrow> take (j - i) (drop i input) = map ((!) input) [i..<j]"
  by (auto intro!: nth_equalityI)

lemma upt_split: "i \<le> j \<Longrightarrow> j \<le> k \<Longrightarrow> [i..<k] = [i..<j] @ [j..<k]"
  using upt_add_eq_append [of i j "k - j"] by simp

lemma render_pieces:
  assumes "sorted ranges" "\<forall>r \<in> set ranges. range_ok input r" "copied \<le> length input"
  shows "\<exists>ps. render input copied ranges = concat (map (piece_text input) ps) \<and>
    kept_positions ps = filter (\<lambda>i. \<not> masked ranges i) [copied..<length input]"
  using assms
proof (induction ranges arbitrary: copied)
  case Nil
  have "render input copied [] = concat (map (piece_text input) (map Kept [copied..<length input]))"
    using slice_eq_map [of "length input" input copied] by (simp only: concat_Kept) simp
  then show ?case
    by (intro exI [of _ "map Kept [copied..<length input]"]) (simp add: masked_def)
next
  case (Cons r ranges)
  obtain s e where r: "r = (s, e)" by (cases r)
  have ok: "s < e" "e \<le> length input" using Cons.prems(2) r by (auto simp: range_ok_def)
  have later: "masked ranges i \<Longrightarrow> s \<le> i" for i
    using Cons.prems(1) r by (auto simp: masked_def list_ex_iff less_eq_prod_def)
  show ?case
  proof (cases "e \<le> copied")
    case True
    then have "\<And>i. copied \<le> i \<Longrightarrow> masked (r # ranges) i = masked ranges i"
      by (auto simp: r masked_def)
    then have "filter (\<lambda>i. \<not> masked (r # ranges) i) [copied..<length input] =
        filter (\<lambda>i. \<not> masked ranges i) [copied..<length input]" by (auto intro: filter_cong)
    with True Cons r show ?thesis by simp
  next
    case False
    obtain qs where q: "render input e ranges = concat (map (piece_text input) qs)"
      "kept_positions qs = filter (\<lambda>i. \<not> masked ranges i) [e..<length input]"
      using Cons.IH [of e] Cons.prems ok(2) by auto
    let ?gap = "[copied..<s]"
    have split: "[copied..<length input] = ?gap @ [max copied s..<e] @ [e..<length input]"
    proof (cases "copied \<le> s")
      case True
      then show ?thesis
        using ok upt_split [of copied s "length input"]
          upt_split [of s e "length input"] by (simp add: max_def)
    next
      case gt: False
      then show ?thesis
        using ok False upt_split [of copied e "length input"] by (simp add: max_def)
    qed
    have "filter (\<lambda>i. \<not> masked (r # ranges) i) ?gap = ?gap"
      using later by (fastforce simp: filter_id_conv r masked_def)
    moreover have "filter (\<lambda>i. \<not> masked (r # ranges) i) [max copied s..<e] = []"
      by (auto simp: filter_empty_conv r masked_def)
    moreover have "filter (\<lambda>i. \<not> masked (r # ranges) i) [e..<length input] =
        filter (\<lambda>i. \<not> masked ranges i) [e..<length input]"
      by (auto intro!: filter_cong simp: r masked_def)
    ultimately have k: "kept_positions (map Kept ?gap @ Mark # qs) =
        filter (\<lambda>i. \<not> masked (r # ranges) i) [copied..<length input]"
      unfolding split using q(2) by simp
    have "(if copied < s then take (s - copied) (drop copied input) else []) =
        concat (map (piece_text input) (map Kept ?gap))"
      using slice_eq_map [of s input copied] ok by (simp only: concat_Kept) simp
    with False r q(1) have "render input copied (r # ranges) =
        concat (map (piece_text input) (map Kept ?gap @ Mark # qs))" by simp
    with k show ?thesis by blast
  qed
qed




end
