(* ===== verification/Sync_Rows.thy ===== *)
theory Sync_Rows
  imports Module_Paths Redaction
begin

text \<open>
  The rows extractors produce (\<open>crates/orbit-graph-extract/src/extracted.rs\<close>) and the transactions
  of pass 1 that store and remove them (\<open>crates/orbit-graph/src/sync/pass1.rs\<close>): one transaction
  per file, the command rows, and the rebinding of command handlers.

  A transaction is a function from the database to an error or the new database: an error rolls
  back, so the database keeps its value. A row id is one more than the largest in its table, as
  SQLite assigns ids without \<open>AUTOINCREMENT\<close> (ids at \<open>2^63 - 1\<close>, where it would search for a free
  one, are not modelled). Foreign keys are on: inserting a row of an unknown file fails, deleting a
  file removes its rows and the symbols below a removed symbol, and a delete that would leave a
  command or string pointing at a missing symbol fails. The full-text tables hold the indexed text
  of each row id.

  The invariant \<open>store_ok\<close> says that keys are unique, that every reference between tables is kept and
  that the full-text tables mirror the tables they index.
\<close>

section \<open>Extracted rows\<close>

record raw_symbol =
  ws_file_path :: string
  ws_name :: string
  ws_qualified :: string
  ws_kind :: string
  ws_span_start :: nat
  ws_span_end :: nat
  ws_signature :: "string option"
  ws_parent_symbol :: "string option"

record raw_relation =
  wr_from_qualified :: string
  wr_to_qualified :: string
  wr_kind :: string
  wr_def_file :: string
  wr_def_span_start :: nat
  wr_def_span_end :: nat
  wr_confidence :: string

record raw_import =
  wi_from_file :: string
  wi_target_path :: string
  wi_target_symbol :: "string option"
  wi_source_symbol :: "string option"
  wi_reexport_module :: "string option"

record raw_string =
  wg_file_path :: string
  wg_line :: nat
  wg_value :: string
  wg_context_symbol :: "string option"

record raw_config =
  wc_file_path :: string
  wc_line :: nat
  wc_key :: string
  wc_kind :: string

record raw_command =
  wm_name :: string
  wm_file_path :: string
  wm_span_start :: nat
  wm_handler_symbol :: "string option"

record extracted_file =
  ef_symbols :: "raw_symbol list"
  ef_refs :: "raw_ref list"
  ef_relations :: "raw_relation list"
  ef_imports :: "raw_import list"
  ef_strings :: "raw_string list"
  ef_configs :: "raw_config list"
  ef_commands :: "raw_command list"

record extracted_source_file =
  xf_path :: "string list"
  xf_file_path :: string
  xf_lang :: string
  xf_content_hash :: string
  xf_mtime_ns :: int
  xf_byte_len :: int
  xf_extracted_at :: int
  xf_rows :: extracted_file

section \<open>Statements\<close>

definition next_rowid :: "int list \<Rightarrow> int" where
  "next_rowid ids = (if ids = [] then 1 else Max (set ids) + 1)"

definition file_stored :: "graph_db \<Rightarrow> string \<Rightarrow> bool" where
  "file_stored db path \<longleftrightarrow> path \<in> set (map fl_path (db_files db))"

text \<open>\<open>ON DELETE CASCADE\<close> along \<open>parent_symbol\<close>: symbols below a removed symbol go too.\<close>

fun drop_orphans :: "nat \<Rightarrow> symbol_row list \<Rightarrow> symbol_row list" where
  "drop_orphans 0 symbols = symbols"
| "drop_orphans (Suc n) symbols =
     drop_orphans n (filter (\<lambda>s. case sy_parent_symbol s of None \<Rightarrow> True
                                 | Some p \<Rightarrow> p \<in> set (map sy_id symbols)) symbols)"

definition symbol_refs_ok :: "graph_db \<Rightarrow> bool" where
  "symbol_refs_ok db \<longleftrightarrow>
     (\<forall>c \<in> set (db_commands db). \<forall>h. cm_handler_symbol c = Some h \<longrightarrow> h \<in> set (map sy_id (db_symbols db))) \<and>
     (\<forall>s \<in> set (db_strings db). \<forall>h. st_context_symbol s = Some h \<longrightarrow> h \<in> set (map sy_id (db_symbols db)))"

lemma symbol_refs_ok_code [code]:
  "symbol_refs_ok db \<longleftrightarrow>
     list_all (\<lambda>c. case cm_handler_symbol c of None \<Rightarrow> True
                   | Some h \<Rightarrow> h \<in> set (map sy_id (db_symbols db))) (db_commands db) \<and>
     list_all (\<lambda>s. case st_context_symbol s of None \<Rightarrow> True
                   | Some h \<Rightarrow> h \<in> set (map sy_id (db_symbols db))) (db_strings db)"
  by (auto simp: symbol_refs_ok_def list_all_iff split: option.splits)

definition delete_cascade :: "string \<Rightarrow> graph_db \<Rightarrow> graph_db" where
  "delete_cascade path db =
     (let outside = filter (\<lambda>s. sy_file_path s \<noteq> path) (db_symbols db)
      in db\<lparr>db_files := filter (\<lambda>f. fl_path f \<noteq> path) (db_files db),
            db_symbols := drop_orphans (length outside) outside,
            db_refs := filter (\<lambda>r. rf_from_file r \<noteq> path) (db_refs db),
            db_relations := filter (\<lambda>r. rl_def_file r \<noteq> path) (db_relations db),
            db_imports := filter (\<lambda>i. im_from_file i \<noteq> path) (db_imports db),
            db_commands := filter (\<lambda>c. cm_file_path c \<noteq> path) (db_commands db),
            db_strings := filter (\<lambda>s. st_file_path s \<noteq> path) (db_strings db),
            db_configs := filter (\<lambda>c. cf_file_path c \<noteq> path) (db_configs db)\<rparr>)"

definition delete_file_row :: "string \<Rightarrow> graph_db \<Rightarrow> graph_db option" where
  "delete_file_row path db =
     (let db' = delete_cascade path db in if symbol_refs_ok db' then Some db' else None)"

text \<open>Clears a command's handler when it is one of the given symbols.\<close>

definition unbind :: "int set \<Rightarrow> command_row \<Rightarrow> command_row" where
  "unbind ids c = (case cm_handler_symbol c of
     None \<Rightarrow> c | Some h \<Rightarrow> if h \<in> ids then c\<lparr>cm_handler_symbol := None\<rparr> else c)"

definition ids_in_file :: "('r \<Rightarrow> int) \<Rightarrow> ('r \<Rightarrow> string) \<Rightarrow> string \<Rightarrow> 'r list \<Rightarrow> int list" where
  "ids_in_file id_of file_of path rows = map id_of (filter (\<lambda>r. file_of r = path) rows)"

definition delete_fts_for_file :: "string \<Rightarrow> graph_db \<Rightarrow> graph_db" where
  "delete_fts_for_file path db =
     (let symbols = ids_in_file sy_id sy_file_path path (db_symbols db);
          strings = ids_in_file st_id st_file_path path (db_strings db);
          configs = ids_in_file cf_id cf_file_path path (db_configs db)
      in db\<lparr>db_commands := map (unbind (set symbols)) (db_commands db),
            db_symbols_fts := filter (\<lambda>e. fst e \<notin> set symbols) (db_symbols_fts db),
            db_strings_fts := filter (\<lambda>e. fst e \<notin> set strings) (db_strings_fts db),
            db_configs_fts := filter (\<lambda>e. fst e \<notin> set configs) (db_configs_fts db)\<rparr>)"

section \<open>Inserting the rows of a file\<close>

definition insert_symbol :: "raw_symbol \<Rightarrow> graph_db \<Rightarrow> (int \<times> graph_db) graph_result" where
  "insert_symbol s db =
     res_bind (usize_to_i64 ''convert symbol span start'' (ws_span_start s)) (\<lambda>span_start.
     res_bind (usize_to_i64 ''convert symbol span end'' (ws_span_end s)) (\<lambda>span_end.
       if \<not> file_stored db (ws_file_path s) then Inl (Sqlite ''insert graph symbol row'')
       else let symbol_id = next_rowid (map sy_id (db_symbols db));
                signature = map_option redact (ws_signature s)
            in Inr (symbol_id,
                 db\<lparr>db_symbols := db_symbols db @
                      [\<lparr>sy_id = symbol_id, sy_file_path = ws_file_path s, sy_name = ws_name s,
                        sy_qualified = ws_qualified s, sy_kind = ws_kind s, sy_span_start = span_start,
                        sy_span_end = span_end, sy_signature = signature, sy_parent_symbol = None\<rparr>],
                    db_symbols_fts := db_symbols_fts db @
                      [(symbol_id, ws_name s, ws_qualified s, signature)]\<rparr>)))"

fun insert_symbol_rows ::
  "raw_symbol list \<Rightarrow> (string, int) btree_map \<Rightarrow> graph_db \<Rightarrow> ((string, int) btree_map \<times> graph_db) graph_result"
where
  "insert_symbol_rows [] symbol_ids db = Inr (symbol_ids, db)"
| "insert_symbol_rows (s # symbols) symbol_ids db =
     res_bind (insert_symbol s db) (\<lambda>(symbol_id, db').
       insert_symbol_rows symbols (btree_insert (ws_qualified s) symbol_id symbol_ids) db')"

definition set_parent :: "int \<Rightarrow> int \<Rightarrow> graph_db \<Rightarrow> graph_db" where
  "set_parent parent_id symbol_id db =
     db\<lparr>db_symbols := map (\<lambda>s. if sy_id s = symbol_id then s\<lparr>sy_parent_symbol := Some parent_id\<rparr> else s)
                        (db_symbols db)\<rparr>"

definition link_parent :: "(string, int) btree_map \<Rightarrow> raw_symbol \<Rightarrow> graph_db \<Rightarrow> graph_db" where
  "link_parent symbol_ids s db =
     (case ws_parent_symbol s of
        None \<Rightarrow> db
      | Some parent_qualified \<Rightarrow>
          (case (map_of symbol_ids parent_qualified, map_of symbol_ids (ws_qualified s)) of
             (Some parent_id, Some symbol_id) \<Rightarrow> set_parent parent_id symbol_id db
           | _ \<Rightarrow> db))"

definition insert_symbols ::
  "raw_symbol list \<Rightarrow> graph_db \<Rightarrow> ((string, int) btree_map \<times> graph_db) graph_result" where
  "insert_symbols symbols db =
     res_map (\<lambda>(symbol_ids, db'). (symbol_ids, fold (link_parent symbol_ids) symbols db'))
       (insert_symbol_rows symbols [] db)"

fun insert_imports :: "raw_import list \<Rightarrow> graph_db \<Rightarrow> graph_db graph_result" where
  "insert_imports [] db = Inr db"
| "insert_imports (i # is) db =
     (if \<not> file_stored db (wi_from_file i) then Inl (Sqlite ''insert graph import row'')
      else insert_imports is
        (db\<lparr>db_imports := db_imports db @
              [\<lparr>im_from_file = wi_from_file i, im_target_path = wi_target_path i,
                im_target_symbol = wi_target_symbol i, im_source_symbol = wi_source_symbol i,
                im_reexport_module = wi_reexport_module i\<rparr>]\<rparr>))"

fun insert_relations :: "raw_relation list \<Rightarrow> graph_db \<Rightarrow> graph_db graph_result" where
  "insert_relations [] db = Inr db"
| "insert_relations (r # rs) db =
     res_bind (usize_to_i64 ''convert relation span start'' (wr_def_span_start r)) (\<lambda>span_start.
     res_bind (usize_to_i64 ''convert relation span end'' (wr_def_span_end r)) (\<lambda>span_end.
       if \<not> file_stored db (wr_def_file r) then Inl (Sqlite ''insert graph relation row'')
       else insert_relations rs
         (db\<lparr>db_relations := db_relations db @
               [\<lparr>rl_id = next_rowid (map rl_id (db_relations db)), rl_from_qualified = wr_from_qualified r,
                 rl_to_qualified = wr_to_qualified r, rl_kind = wr_kind r, rl_def_file = wr_def_file r,
                 rl_def_span_start = span_start, rl_def_span_end = span_end,
                 rl_confidence = wr_confidence r\<rparr>]\<rparr>)))"

fun insert_strings :: "(string, int) btree_map \<Rightarrow> raw_string list \<Rightarrow> graph_db \<Rightarrow> graph_db graph_result" where
  "insert_strings symbol_ids [] db = Inr db"
| "insert_strings symbol_ids (s # strings) db =
     res_bind (usize_to_i64 ''convert string line'' (wg_line s)) (\<lambda>line.
       if \<not> file_stored db (wg_file_path s) then Inl (Sqlite ''insert graph string row'')
       else let string_id = next_rowid (map st_id (db_strings db)); value = redact (wg_value s)
            in insert_strings symbol_ids strings
                 (db\<lparr>db_strings := db_strings db @
                       [\<lparr>st_id = string_id, st_file_path = wg_file_path s, st_line = line, st_value = value,
                         st_context_symbol = Option.bind (wg_context_symbol s) (map_of symbol_ids)\<rparr>],
                     db_strings_fts := db_strings_fts db @ [(string_id, value)]\<rparr>))"

fun insert_configs :: "raw_config list \<Rightarrow> graph_db \<Rightarrow> graph_db graph_result" where
  "insert_configs [] db = Inr db"
| "insert_configs (c # cs) db =
     res_bind (usize_to_i64 ''convert config line'' (wc_line c)) (\<lambda>line.
       if \<not> file_stored db (wc_file_path c) then Inl (Sqlite ''insert graph config row'')
       else let config_id = next_rowid (map cf_id (db_configs db))
            in insert_configs cs
                 (db\<lparr>db_configs := db_configs db @
                       [\<lparr>cf_id = config_id, cf_file_path = wc_file_path c, cf_line = line,
                         cf_key = wc_key c, cf_kind = wc_kind c\<rparr>],
                     db_configs_fts := db_configs_fts db @ [(config_id, wc_key c)]\<rparr>))"

section \<open>The transactions\<close>

definition PENDING_CONTENT_HASH :: string where
  "PENDING_CONTENT_HASH = []"

definition PENDING_MTIME_NS :: int where
  "PENDING_MTIME_NS = 0"

definition delete_file_transaction :: "string \<Rightarrow> graph_db \<Rightarrow> graph_db graph_result" where
  "delete_file_transaction path db =
     (case delete_file_row path (delete_fts_for_file path db) of
        None \<Rightarrow> Inl (Sqlite ''delete removed graph file'')
      | Some db' \<Rightarrow> Inr db')"

definition pending_row :: "extracted_source_file \<Rightarrow> file_row" where
  "pending_row file =
     \<lparr>fl_path = xf_file_path file, fl_content_hash = PENDING_CONTENT_HASH, fl_mtime_ns = PENDING_MTIME_NS,
      fl_lang = xf_lang file, fl_byte_len = xf_byte_len file, fl_extracted_at = xf_extracted_at file\<rparr>"

definition insert_file_rows :: "extracted_source_file \<Rightarrow> graph_db \<Rightarrow> graph_db graph_result" where
  "insert_file_rows file db =
     (let rows = xf_rows file in
      res_bind (insert_symbols (ef_symbols rows) db) (\<lambda>(symbol_ids, db1).
      res_bind (insert_imports (ef_imports rows) db1) (\<lambda>db2.
      res_bind (insert_relations (ef_relations rows) db2) (\<lambda>db3.
      res_bind (insert_strings symbol_ids (ef_strings rows) db3) (\<lambda>db4.
        insert_configs (ef_configs rows) db4)))))"

definition write_file_transaction :: "extracted_source_file \<Rightarrow> graph_db \<Rightarrow> graph_db graph_result" where
  "write_file_transaction file db =
     (case delete_file_row (xf_file_path file) (delete_fts_for_file (xf_file_path file) db) of
        None \<Rightarrow> Inl (Sqlite ''delete prior graph file rows'')
      | Some db1 \<Rightarrow>
          insert_file_rows file (db1\<lparr>db_files := db_files db1 @ [pending_row file]\<rparr>))"

definition unique_symbol_id_for_qualified :: "graph_db \<Rightarrow> string \<Rightarrow> int option" where
  "unique_symbol_id_for_qualified db qualified =
     (case take 2 (sort (map sy_id (filter (\<lambda>s. sy_qualified s = qualified) (db_symbols db)))) of
        [i] \<Rightarrow> Some i | _ \<Rightarrow> None)"

definition resolved_handler_symbol :: "graph_db \<Rightarrow> raw_command \<Rightarrow> int option" where
  "resolved_handler_symbol db command =
     Option.bind (wm_handler_symbol command) (unique_symbol_id_for_qualified db)"

fun insert_commands :: "raw_command list \<Rightarrow> graph_db \<Rightarrow> graph_db graph_result" where
  "insert_commands [] db = Inr db"
| "insert_commands (c # cs) db =
     (let handler_symbol = resolved_handler_symbol db c in
      res_bind (usize_to_i64 ''convert command span start'' (wm_span_start c)) (\<lambda>span_start.
        if \<not> file_stored db (wm_file_path c) \<or> wm_name c \<in> set (map cm_name (db_commands db))
        then Inl (Sqlite ''insert graph command row'')
        else insert_commands cs
          (db\<lparr>db_commands := db_commands db @
                [\<lparr>cm_name = wm_name c, cm_file_path = wm_file_path c, cm_span_start = span_start,
                  cm_handler_symbol = handler_symbol\<rparr>]\<rparr>)))"

definition insert_commands_transaction :: "raw_command list \<Rightarrow> graph_db \<Rightarrow> graph_db graph_result" where
  "insert_commands_transaction commands db = (if commands = [] then Inr db else insert_commands commands db)"

definition rebind_command :: "raw_command \<Rightarrow> graph_db \<Rightarrow> graph_db" where
  "rebind_command command db =
     (case resolved_handler_symbol db command of
        None \<Rightarrow> db
      | Some handler_symbol \<Rightarrow>
          db\<lparr>db_commands := map (\<lambda>c. if cm_name c = wm_name command \<and> cm_handler_symbol c = None
                                     then c\<lparr>cm_handler_symbol := Some handler_symbol\<rparr> else c)
                             (db_commands db)\<rparr>)"

definition rebind_commands_transaction :: "raw_command list \<Rightarrow> graph_db \<Rightarrow> graph_db" where
  "rebind_commands_transaction commands db = fold rebind_command commands db"

definition unresolved_command_files :: "graph_db \<Rightarrow> string list" where
  "unresolved_command_files db =
     sort (remdups (map cm_file_path (filter (\<lambda>c. cm_handler_symbol c = None) (db_commands db))))"

section \<open>The store invariant\<close>

definition fts_of_symbol :: "symbol_row \<Rightarrow> int \<times> string \<times> string \<times> string option" where
  "fts_of_symbol s = (sy_id s, sy_name s, sy_qualified s, sy_signature s)"

definition fts_of_string :: "string_row \<Rightarrow> int \<times> string" where
  "fts_of_string s = (st_id s, st_value s)"

definition fts_of_config :: "config_row \<Rightarrow> int \<times> string" where
  "fts_of_config c = (cf_id c, cf_key c)"

text \<open>Every row belongs to a stored file.\<close>

definition files_ok :: "graph_db \<Rightarrow> bool" where
  "files_ok db \<longleftrightarrow>
     (\<forall>s \<in> set (db_symbols db). file_stored db (sy_file_path s)) \<and>
     (\<forall>r \<in> set (db_refs db). file_stored db (rf_from_file r)) \<and>
     (\<forall>r \<in> set (db_relations db). file_stored db (rl_def_file r)) \<and>
     (\<forall>i \<in> set (db_imports db). file_stored db (im_from_file i)) \<and>
     (\<forall>c \<in> set (db_commands db). file_stored db (cm_file_path c)) \<and>
     (\<forall>s \<in> set (db_strings db). file_stored db (st_file_path s)) \<and>
     (\<forall>c \<in> set (db_configs db). file_stored db (cf_file_path c))"

text \<open>A symbol of the given file with the given id.\<close>

definition symbol_in :: "graph_db \<Rightarrow> string \<Rightarrow> int \<Rightarrow> bool" where
  "symbol_in db path i \<longleftrightarrow> (\<exists>s \<in> set (db_symbols db). sy_id s = i \<and> sy_file_path s = path)"

lemma symbol_in_update [simp]:
  "symbol_in (db\<lparr>db_files := x0\<rparr>) = symbol_in db"
  "symbol_in (db\<lparr>db_refs := x1\<rparr>) = symbol_in db"
  "symbol_in (db\<lparr>db_relations := x2\<rparr>) = symbol_in db"
  "symbol_in (db\<lparr>db_imports := x3\<rparr>) = symbol_in db"
  "symbol_in (db\<lparr>db_commands := x4\<rparr>) = symbol_in db"
  "symbol_in (db\<lparr>db_strings := x5\<rparr>) = symbol_in db"
  "symbol_in (db\<lparr>db_configs := x6\<rparr>) = symbol_in db"
  "symbol_in (db\<lparr>db_symbols_fts := x7\<rparr>) = symbol_in db"
  "symbol_in (db\<lparr>db_strings_fts := x8\<rparr>) = symbol_in db"
  "symbol_in (db\<lparr>db_configs_fts := x9\<rparr>) = symbol_in db"
  "symbol_in (db\<lparr>db_meta := x10\<rparr>) = symbol_in db"
  by (simp_all add: symbol_in_def fun_eq_iff)

lemma file_stored_update [simp]:
  "file_stored (db\<lparr>db_symbols := x0\<rparr>) = file_stored db"
  "file_stored (db\<lparr>db_refs := x1\<rparr>) = file_stored db"
  "file_stored (db\<lparr>db_relations := x2\<rparr>) = file_stored db"
  "file_stored (db\<lparr>db_imports := x3\<rparr>) = file_stored db"
  "file_stored (db\<lparr>db_commands := x4\<rparr>) = file_stored db"
  "file_stored (db\<lparr>db_strings := x5\<rparr>) = file_stored db"
  "file_stored (db\<lparr>db_configs := x6\<rparr>) = file_stored db"
  "file_stored (db\<lparr>db_symbols_fts := x7\<rparr>) = file_stored db"
  "file_stored (db\<lparr>db_strings_fts := x8\<rparr>) = file_stored db"
  "file_stored (db\<lparr>db_configs_fts := x9\<rparr>) = file_stored db"
  "file_stored (db\<lparr>db_meta := x10\<rparr>) = file_stored db"
  by (simp_all add: file_stored_def fun_eq_iff)

text \<open>Parents and string contexts stay within a file; handlers may cross files.\<close>

definition links_ok :: "graph_db \<Rightarrow> bool" where
  "links_ok db \<longleftrightarrow>
     (\<forall>s \<in> set (db_symbols db). \<forall>p. sy_parent_symbol s = Some p \<longrightarrow> symbol_in db (sy_file_path s) p) \<and>
     (\<forall>s \<in> set (db_strings db). \<forall>p. st_context_symbol s = Some p \<longrightarrow> symbol_in db (st_file_path s) p) \<and>
     (\<forall>c \<in> set (db_commands db). \<forall>h. cm_handler_symbol c = Some h \<longrightarrow> h \<in> set (map sy_id (db_symbols db)))"

definition fts_ok :: "graph_db \<Rightarrow> bool" where
  "fts_ok db \<longleftrightarrow>
     db_symbols_fts db = map fts_of_symbol (db_symbols db) \<and>
     db_strings_fts db = map fts_of_string (db_strings db) \<and>
     db_configs_fts db = map fts_of_config (db_configs db)"

definition store_ok :: "graph_db \<Rightarrow> bool" where
  "store_ok db \<longleftrightarrow> db_keys_ok db \<and> files_ok db \<and> links_ok db \<and> fts_ok db"

lemmas store_defs = store_ok_def db_keys_ok_def files_ok_def links_ok_def fts_ok_def

lemma next_rowid_fresh: "next_rowid ids \<notin> set ids"
proof
  assume "next_rowid ids \<in> set ids"
  then have "next_rowid ids \<le> Max (set ids)" "ids \<noteq> []" by auto
  then show False by (simp add: next_rowid_def)
qed

lemma distinct_next_rowid [simp]: "distinct (ids @ [next_rowid ids]) \<longleftrightarrow> distinct ids"
  using next_rowid_fresh by auto

subsection \<open>Removing a file\<close>

text \<open>The store without a file: what the delete statements of a transaction leave.\<close>

definition without_file :: "string \<Rightarrow> graph_db \<Rightarrow> graph_db" where
  "without_file path db =
     (let symbols = filter (\<lambda>s. sy_file_path s \<noteq> path) (db_symbols db);
          strings = filter (\<lambda>s. st_file_path s \<noteq> path) (db_strings db);
          configs = filter (\<lambda>c. cf_file_path c \<noteq> path) (db_configs db)
      in db\<lparr>db_files := filter (\<lambda>f. fl_path f \<noteq> path) (db_files db),
            db_symbols := symbols,
            db_refs := filter (\<lambda>r. rf_from_file r \<noteq> path) (db_refs db),
            db_relations := filter (\<lambda>r. rl_def_file r \<noteq> path) (db_relations db),
            db_imports := filter (\<lambda>i. im_from_file i \<noteq> path) (db_imports db),
            db_commands := map (unbind (set (ids_in_file sy_id sy_file_path path (db_symbols db))))
                             (filter (\<lambda>c. cm_file_path c \<noteq> path) (db_commands db)),
            db_strings := strings, db_configs := configs,
            db_symbols_fts := map fts_of_symbol symbols,
            db_strings_fts := map fts_of_string strings,
            db_configs_fts := map fts_of_config configs\<rparr>)"

lemma unbind_fields [simp]:
  "cm_name (unbind ids c) = cm_name c" "cm_file_path (unbind ids c) = cm_file_path c"
  "cm_span_start (unbind ids c) = cm_span_start c"
  "cm_handler_symbol (unbind ids c) = Some h \<longleftrightarrow> cm_handler_symbol c = Some h \<and> h \<notin> ids"
  by (auto simp: unbind_def split: option.splits)

lemma drop_orphans_id:
  "(\<And>s p. s \<in> set symbols \<Longrightarrow> sy_parent_symbol s = Some p \<Longrightarrow> p \<in> set (map sy_id symbols)) \<Longrightarrow>
   drop_orphans n symbols = symbols"
proof (induction n)
  case (Suc n)
  have "filter (\<lambda>s. case sy_parent_symbol s of None \<Rightarrow> True | Some p \<Rightarrow> p \<in> set (map sy_id symbols)) symbols =
      symbols"
    using Suc.prems by (auto simp: filter_id_conv split: option.splits)
  with Suc show ?case by simp
qed simp

text \<open>Deleting index entries by row id removes exactly the entries of the file's rows.\<close>

lemma filter_fts_ids:
  assumes "distinct (map id_of rows)" "\<And>r. fst (entry r) = id_of r"
  shows "filter (\<lambda>e. fst e \<notin> set (ids_in_file id_of file_of path rows)) (map entry rows) =
    map entry (filter (\<lambda>r. file_of r \<noteq> path) rows)"
proof -
  have "id_of r \<in> set (ids_in_file id_of file_of path rows) \<longleftrightarrow> file_of r = path" if "r \<in> set rows" for r
    using that assms(1) by (auto simp: ids_in_file_def distinct_map inj_on_def)
  then show ?thesis
    by (auto simp: filter_map o_def assms(2) intro!: arg_cong [where f = "map entry"] filter_cong)
qed

lemma store_ok_without_file:
  assumes "store_ok db"
  shows "store_ok (without_file path db)"
proof -
  have keys: "db_keys_ok (without_file path db)"
    using assms by (simp add: store_defs without_file_def Let_def distinct_map_filter o_def)
  have files: "files_ok (without_file path db)"
    using assms by (auto simp: store_defs without_file_def Let_def file_stored_def)
  have l: "links_ok db" using assms by (simp add: store_ok_def)
  have keep: "symbol_in (without_file path db) q i" if "symbol_in db q i" "q \<noteq> path" for q i
    using that by (auto simp: symbol_in_def without_file_def Let_def)
  have "h \<in> set (map sy_id (db_symbols (without_file path db)))"
    if "h \<in> set (map sy_id (db_symbols db))" "h \<notin> set (ids_in_file sy_id sy_file_path path (db_symbols db))" for h
    using that by (auto simp: without_file_def Let_def ids_in_file_def)
  with l have links: "links_ok (without_file path db)"
    unfolding links_ok_def
    by (intro conjI ballI allI impI keep) (auto simp: without_file_def Let_def)
  have "fts_ok (without_file path db)"
    by (simp add: fts_ok_def without_file_def Let_def)
  with keys files links show ?thesis by (simp add: store_ok_def)
qed

lemma delete_cascade_without_file:
  assumes "store_ok db"
  shows "delete_cascade path (delete_fts_for_file path db) = without_file path db"
proof -
  let ?outside = "filter (\<lambda>s. sy_file_path s \<noteq> path) (db_symbols db)"
  have orphans: "drop_orphans n ?outside = ?outside" for n
    using assms by (intro drop_orphans_id) (fastforce simp: store_defs symbol_in_def)
  have fts: "filter (\<lambda>e. fst e \<notin> set (ids_in_file sy_id sy_file_path path (db_symbols db))) (db_symbols_fts db) =
      map fts_of_symbol ?outside"
    "filter (\<lambda>e. fst e \<notin> set (ids_in_file st_id st_file_path path (db_strings db))) (db_strings_fts db) =
      map fts_of_string (filter (\<lambda>s. st_file_path s \<noteq> path) (db_strings db))"
    "filter (\<lambda>e. fst e \<notin> set (ids_in_file cf_id cf_file_path path (db_configs db))) (db_configs_fts db) =
      map fts_of_config (filter (\<lambda>s. cf_file_path s \<noteq> path) (db_configs db))"
    using assms
    by (simp_all add: store_defs filter_fts_ids fts_of_symbol_def fts_of_string_def fts_of_config_def)
  show ?thesis
    by (rule graph_db.equality)
       (simp_all add: delete_cascade_def delete_fts_for_file_def without_file_def Let_def orphans fts
          filter_map o_def)
qed

lemma delete_file_row_ok:
  assumes "store_ok db"
  shows "delete_file_row path (delete_fts_for_file path db) = Some (without_file path db)"
proof -
  have "symbol_refs_ok (without_file path db)"
    using store_ok_without_file [OF assms, of path]
    by (fastforce simp: symbol_refs_ok_def store_ok_def links_ok_def symbol_in_def)
  then show ?thesis
    by (simp add: delete_file_row_def delete_cascade_without_file [OF assms])
qed

subsection \<open>Inserting rows\<close>

text \<open>How a stored row records an extracted one; free text is stored redacted.\<close>

definition stores_symbol :: "raw_symbol \<Rightarrow> symbol_row \<Rightarrow> bool" where
  "stores_symbol w s \<longleftrightarrow>
     sy_file_path s = ws_file_path w \<and> sy_name s = ws_name w \<and> sy_qualified s = ws_qualified w \<and>
     sy_kind s = ws_kind w \<and> sy_span_start s = int (ws_span_start w) \<and> sy_span_end s = int (ws_span_end w) \<and>
     sy_signature s = map_option redact (ws_signature w)"

definition stores_relation :: "raw_relation \<Rightarrow> relation_row \<Rightarrow> bool" where
  "stores_relation w r \<longleftrightarrow>
     rl_from_qualified r = wr_from_qualified w \<and> rl_to_qualified r = wr_to_qualified w \<and>
     rl_kind r = wr_kind w \<and> rl_def_file r = wr_def_file w \<and> rl_def_span_start r = int (wr_def_span_start w) \<and>
     rl_def_span_end r = int (wr_def_span_end w) \<and> rl_confidence r = wr_confidence w"

definition import_row_of :: "raw_import \<Rightarrow> import_row" where
  "import_row_of w =
     \<lparr>im_from_file = wi_from_file w, im_target_path = wi_target_path w, im_target_symbol = wi_target_symbol w,
      im_source_symbol = wi_source_symbol w, im_reexport_module = wi_reexport_module w\<rparr>"

definition stores_string :: "raw_string \<Rightarrow> string_row \<Rightarrow> bool" where
  "stores_string w s \<longleftrightarrow>
     st_file_path s = wg_file_path w \<and> st_line s = int (wg_line w) \<and> st_value s = redact (wg_value w)"

definition stores_config :: "raw_config \<Rightarrow> config_row \<Rightarrow> bool" where
  "stores_config w c \<longleftrightarrow>
     cf_file_path c = wc_file_path w \<and> cf_line c = int (wc_line w) \<and> cf_key c = wc_key w \<and> cf_kind c = wc_kind w"

text \<open>What the extractors promise: every row names its file, and spans and lines fit an \<open>i64\<close>.\<close>

definition fits :: "nat \<Rightarrow> bool" where
  "fits n \<longleftrightarrow> int n \<le> I64_MAX"

definition extracted_ok :: "extracted_source_file \<Rightarrow> bool" where
  "extracted_ok file \<longleftrightarrow> (let path = xf_file_path file; rows = xf_rows file in
     (\<forall>s \<in> set (ef_symbols rows). ws_file_path s = path \<and> fits (ws_span_start s) \<and> fits (ws_span_end s)) \<and>
     (\<forall>r \<in> set (ef_relations rows). wr_def_file r = path \<and> fits (wr_def_span_start r) \<and> fits (wr_def_span_end r)) \<and>
     (\<forall>r \<in> set (ef_refs rows). fits (rw_from_span_start r) \<and> fits (rw_from_span_end r)) \<and>
     (\<forall>i \<in> set (ef_imports rows). wi_from_file i = path) \<and>
     (\<forall>s \<in> set (ef_strings rows). wg_file_path s = path \<and> fits (wg_line s)) \<and>
     (\<forall>c \<in> set (ef_configs rows). wc_file_path c = path \<and> fits (wc_line c)))"

lemma usize_to_i64_fits [simp]: "fits n \<Longrightarrow> usize_to_i64 operation n = Inr (int n)"
  by (simp add: fits_def usize_to_i64_def)

text \<open>
  The database while the rows of a file are written over a base: the invariant holds, and
  everything that does not belong to the file is as in the base.
\<close>

definition writing :: "string \<Rightarrow> graph_db \<Rightarrow> graph_db \<Rightarrow> bool" where
  "writing path base db \<longleftrightarrow>
     store_ok db \<and> file_stored db path \<and> db_files db = db_files base \<and> db_refs db = db_refs base \<and>
     db_commands db = db_commands base \<and> db_meta db = db_meta base \<and>
     filter (\<lambda>s. sy_file_path s \<noteq> path) (db_symbols db) = filter (\<lambda>s. sy_file_path s \<noteq> path) (db_symbols base) \<and>
     filter (\<lambda>r. rl_def_file r \<noteq> path) (db_relations db) = filter (\<lambda>r. rl_def_file r \<noteq> path) (db_relations base) \<and>
     filter (\<lambda>i. im_from_file i \<noteq> path) (db_imports db) = filter (\<lambda>i. im_from_file i \<noteq> path) (db_imports base) \<and>
     filter (\<lambda>s. st_file_path s \<noteq> path) (db_strings db) = filter (\<lambda>s. st_file_path s \<noteq> path) (db_strings base) \<and>
     filter (\<lambda>c. cf_file_path c \<noteq> path) (db_configs db) = filter (\<lambda>c. cf_file_path c \<noteq> path) (db_configs base)"

definition add_symbol :: "symbol_row \<Rightarrow> graph_db \<Rightarrow> graph_db" where
  "add_symbol s db =
     db\<lparr>db_symbols := db_symbols db @ [s], db_symbols_fts := db_symbols_fts db @ [fts_of_symbol s]\<rparr>"

lemma symbol_in_add [simp]: "symbol_in (add_symbol s db) path i \<longleftrightarrow>
    symbol_in db path i \<or> sy_id s = i \<and> sy_file_path s = path"
  by (auto simp: symbol_in_def add_symbol_def)

lemma add_symbol_fields [simp]:
  "db_files (add_symbol s db) = db_files db" "db_symbols (add_symbol s db) = db_symbols db @ [s]"
  "db_refs (add_symbol s db) = db_refs db" "db_relations (add_symbol s db) = db_relations db"
  "db_imports (add_symbol s db) = db_imports db" "db_commands (add_symbol s db) = db_commands db"
  "db_strings (add_symbol s db) = db_strings db" "db_configs (add_symbol s db) = db_configs db"
  "db_symbols_fts (add_symbol s db) = db_symbols_fts db @ [fts_of_symbol s]"
  "db_strings_fts (add_symbol s db) = db_strings_fts db" "db_configs_fts (add_symbol s db) = db_configs_fts db"
  "db_meta (add_symbol s db) = db_meta db" "file_stored (add_symbol s db) path \<longleftrightarrow> file_stored db path"
  by (simp_all add: add_symbol_def file_stored_def)

lemma store_ok_add_symbol:
  assumes "store_ok db" "sy_id s = next_rowid (map sy_id (db_symbols db))"
    "file_stored db (sy_file_path s)" "sy_parent_symbol s = None"
  shows "store_ok (add_symbol s db)"
proof -
  have "db_keys_ok (add_symbol s db)"
    using assms(1,2) next_rowid_fresh [of "map sy_id (db_symbols db)"] by (auto simp: store_defs)
  moreover have "files_ok (add_symbol s db)" using assms(1,3) by (auto simp: store_defs)
  moreover have "links_ok (add_symbol s db)" using assms(1,4) by (auto simp: store_defs)
  moreover have "fts_ok (add_symbol s db)" using assms(1) by (simp add: store_defs)
  ultimately show ?thesis by (simp add: store_ok_def)
qed

text \<open>The ids collected while inserting symbols are symbols of the file.\<close>

definition ids_ok :: "string \<Rightarrow> (string, int) btree_map \<Rightarrow> graph_db \<Rightarrow> bool" where
  "ids_ok path symbol_ids db \<longleftrightarrow> (\<forall>q i. map_of symbol_ids q = Some i \<longrightarrow> symbol_in db path i)"

lemma insert_symbol_rows_ok:
  assumes "writing path base db" "btree_ok symbol_ids" "ids_ok path symbol_ids db"
    "\<forall>w \<in> set symbols. ws_file_path w = path \<and> fits (ws_span_start w) \<and> fits (ws_span_end w)"
  shows "\<exists>symbol_ids' db' rows. insert_symbol_rows symbols symbol_ids db = Inr (symbol_ids', db') \<and>
    writing path base db' \<and> ids_ok path symbol_ids' db' \<and>
    db_symbols db' = db_symbols db @ rows \<and> list_all2 stores_symbol symbols rows \<and>
    db_relations db' = db_relations db \<and> db_imports db' = db_imports db \<and> db_strings db' = db_strings db \<and>
    db_configs db' = db_configs db"
  using assms
proof (induction symbols arbitrary: symbol_ids db)
  case (Cons w symbols)
  define i where "i = next_rowid (map sy_id (db_symbols db))"
  define s where "s = \<lparr>sy_id = i, sy_file_path = path, sy_name = ws_name w,
      sy_qualified = ws_qualified w, sy_kind = ws_kind w, sy_span_start = int (ws_span_start w),
      sy_span_end = int (ws_span_end w), sy_signature = map_option redact (ws_signature w),
      sy_parent_symbol = None\<rparr>"
  have step: "insert_symbol w db = Inr (i, add_symbol s db)"
    using Cons.prems by (simp add: insert_symbol_def add_symbol_def fts_of_symbol_def s_def i_def writing_def Let_def)
  have "store_ok (add_symbol s db)"
    using Cons.prems(1) by (intro store_ok_add_symbol) (simp_all add: writing_def s_def i_def)
  then have w: "writing path base (add_symbol s db)"
    using Cons.prems(1) by (simp add: writing_def s_def)
  have "ids_ok path (btree_insert (ws_qualified w) i symbol_ids) (add_symbol s db)"
    using Cons.prems(2,3) by (auto simp: ids_ok_def map_of_btree_insert s_def)
  from Cons.IH [OF w btree_ok_insert [OF Cons.prems(2)] this] Cons.prems(4)
  obtain symbol_ids' db' rows where
    "insert_symbol_rows symbols (btree_insert (ws_qualified w) i symbol_ids) (add_symbol s db) = Inr (symbol_ids', db')"
    "writing path base db'" "ids_ok path symbol_ids' db'" "db_symbols db' = db_symbols (add_symbol s db) @ rows"
    "list_all2 stores_symbol symbols rows" "db_relations db' = db_relations db" "db_imports db' = db_imports db"
    "db_strings db' = db_strings db" "db_configs db' = db_configs db"
    by auto
  moreover have "stores_symbol w s" using Cons.prems(4) by (simp add: stores_symbol_def s_def)
  ultimately show ?case
    by (intro exI [of _ symbol_ids'] exI [of _ db'] exI [of _ "s # rows"]) (simp add: step)
qed auto

text \<open>Linking parents changes no other field, and no symbol of another file.\<close>

definition unlinked :: "symbol_row \<Rightarrow> symbol_row" where
  "unlinked s = s\<lparr>sy_parent_symbol := None\<rparr>"

lemma unlinked_fields [simp]:
  "sy_id (unlinked s) = sy_id s" "sy_file_path (unlinked s) = sy_file_path s"
  "stores_symbol w (unlinked s) \<longleftrightarrow> stores_symbol w s" "fts_of_symbol (unlinked s) = fts_of_symbol s"
  by (simp_all add: unlinked_def stores_symbol_def fts_of_symbol_def)

lemma map_unlinked:
  assumes "map unlinked xs = map unlinked ys"
  shows "map sy_id xs = map sy_id ys" "map fts_of_symbol xs = map fts_of_symbol ys"
    "sy_file_path ` set xs = sy_file_path ` set ys"
    "list_all2 stores_symbol ws (filter (\<lambda>s. sy_file_path s = path) xs) =
     list_all2 stores_symbol ws (filter (\<lambda>s. sy_file_path s = path) ys)"
proof -
  have ids: "map g xs = map g ys" if "\<And>s. g (unlinked s) = g s" for g :: "symbol_row \<Rightarrow> 'a"
    using arg_cong [OF assms, of "map g"] by (simp add: o_def that)
  show "map sy_id xs = map sy_id ys" "map fts_of_symbol xs = map fts_of_symbol ys" by (rule ids, simp)+
  have "map sy_file_path xs = map sy_file_path ys" by (rule ids, simp)
  then show "sy_file_path ` set xs = sy_file_path ` set ys" by (metis set_map)
  have st: "list_all2 stores_symbol ws (map unlinked zs) = list_all2 stores_symbol ws zs" for zs
    by (simp add: list_all2_map2)
  have "map unlinked (filter (\<lambda>s. sy_file_path s = path) zs) =
      filter (\<lambda>s. sy_file_path s = path) (map unlinked zs)" for zs
    by (simp add: filter_map o_def)
  then show "list_all2 stores_symbol ws (filter (\<lambda>s. sy_file_path s = path) xs) =
     list_all2 stores_symbol ws (filter (\<lambda>s. sy_file_path s = path) ys)"
    by (metis assms st)
qed

lemma symbol_in_unlinked:
  assumes "map unlinked (db_symbols a) = map unlinked (db_symbols b)"
  shows "symbol_in a path i \<longleftrightarrow> symbol_in b path i"
proof -
  have key: "symbol_in db path i \<longleftrightarrow> (i, path) \<in> set (map (\<lambda>s. (sy_id s, sy_file_path s)) (map unlinked (db_symbols db)))"
    for db by (auto simp: symbol_in_def)
  show ?thesis unfolding key assms ..
qed

lemma set_parent_writing:
  assumes "writing path base db" "symbol_in db path p" "symbol_in db path i"
  shows "writing path base (set_parent p i db)" "map unlinked (db_symbols (set_parent p i db)) = map unlinked (db_symbols db)"
proof -
  let ?link = "\<lambda>s. if sy_id s = i then s\<lparr>sy_parent_symbol := Some p\<rparr> else s"
  have ok: "store_ok db" using assms(1) by (simp add: writing_def)
  show u: "map unlinked (db_symbols (set_parent p i db)) = map unlinked (db_symbols db)"
    by (simp add: set_parent_def unlinked_def)
  have si: "symbol_in (set_parent p i db) q j \<longleftrightarrow> symbol_in db q j" for q j
    by (rule symbol_in_unlinked [OF u])
  have mine: "sy_file_path s = path" if "s \<in> set (db_symbols db)" "sy_id s = i" for s
    using assms(3) that symbol_by_id_unique [of db] ok unfolding symbol_in_def store_ok_def by metis
  have "db_keys_ok (set_parent p i db)"
    using ok map_unlinked(1) [OF u] by (simp add: store_ok_def db_keys_ok_def) (simp add: set_parent_def)
  moreover have "files_ok (set_parent p i db)"
    using ok by (auto simp: store_defs set_parent_def file_stored_def)
  moreover have "links_ok (set_parent p i db)"
  proof -
    have "symbol_in db (sy_file_path s) q"
      if "s \<in> set (db_symbols (set_parent p i db))" "sy_parent_symbol s = Some q" for s q
      using that ok assms(2) mine by (auto simp: store_defs set_parent_def split: if_splits)
    moreover have "set (map sy_id (db_symbols (set_parent p i db))) = set (map sy_id (db_symbols db))"
      using map_unlinked(1) [OF u] by (simp only:)
    ultimately show ?thesis
      using ok unfolding links_ok_def store_ok_def si by (auto simp: set_parent_def)
  qed
  moreover have "fts_ok (set_parent p i db)"
    using ok map_unlinked(2) [OF u] by (simp add: store_ok_def fts_ok_def) (simp add: set_parent_def)
  moreover have "filter (\<lambda>s. sy_file_path s \<noteq> path) (map ?link symbols) = filter (\<lambda>s. sy_file_path s \<noteq> path) symbols"
    if "set symbols \<subseteq> set (db_symbols db)" for symbols
    using that mine by (induction symbols) auto
  ultimately show "writing path base (set_parent p i db)"
    using assms(1) by (simp add: writing_def store_ok_def) (auto simp: set_parent_def file_stored_def)
qed

lemma link_parents_writing:
  assumes "writing path base db" "ids_ok path symbol_ids db"
  shows "\<exists>symbols. fold (link_parent symbol_ids) ws db = db\<lparr>db_symbols := symbols\<rparr> \<and>
    map unlinked symbols = map unlinked (db_symbols db) \<and> writing path base (db\<lparr>db_symbols := symbols\<rparr>)"
  using assms
proof (induction ws arbitrary: db)
  case Nil
  then show ?case by (intro exI [of _ "db_symbols db"]) simp
next
  case (Cons w ws)
  have "\<exists>symbols. link_parent symbol_ids w db = db\<lparr>db_symbols := symbols\<rparr> \<and>
      map unlinked symbols = map unlinked (db_symbols db) \<and> writing path base (db\<lparr>db_symbols := symbols\<rparr>)"
  proof (cases "\<exists>p i. link_parent symbol_ids w db = set_parent p i db \<and> symbol_in db path p \<and> symbol_in db path i")
    case True
    then obtain p i where *: "link_parent symbol_ids w db = set_parent p i db" "symbol_in db path p" "symbol_in db path i"
      by blast
    from set_parent_writing [OF Cons.prems(1) *(2,3)] show ?thesis
      unfolding *(1) by (intro exI [of _ "db_symbols (set_parent p i db)"]) (simp add: set_parent_def)
  next
    case False
    then have "link_parent symbol_ids w db = db"
      using Cons.prems(2) unfolding link_parent_def ids_ok_def by (auto split: option.splits) blast
    then show ?thesis using Cons.prems(1) by (intro exI [of _ "db_symbols db"]) simp
  qed
  then obtain symbols where s: "link_parent symbol_ids w db = db\<lparr>db_symbols := symbols\<rparr>"
    "map unlinked symbols = map unlinked (db_symbols db)" "writing path base (db\<lparr>db_symbols := symbols\<rparr>)" by blast
  have "symbol_in (db\<lparr>db_symbols := symbols\<rparr>) path i \<longleftrightarrow> symbol_in db path i" for i
    by (rule symbol_in_unlinked) (simp add: s(2))
  with Cons.prems(2) have "ids_ok path symbol_ids (db\<lparr>db_symbols := symbols\<rparr>)"
    by (auto simp: ids_ok_def)
  from Cons.IH [OF s(3) this] s(1,2) show ?case by auto
qed

lemma insert_imports_ok:
  assumes "writing path base db" "\<forall>w \<in> set ws. wi_from_file w = path"
  shows "insert_imports ws db = Inr (db\<lparr>db_imports := db_imports db @ map import_row_of ws\<rparr>) \<and>
    writing path base (db\<lparr>db_imports := db_imports db @ map import_row_of ws\<rparr>)"
  using assms
proof (induction ws arbitrary: db)
  case (Cons w ws)
  let ?db = "db\<lparr>db_imports := db_imports db @ [import_row_of w]\<rparr>"
  have "writing path base ?db"
    using Cons.prems
    by (auto simp: writing_def store_defs file_stored_def symbol_in_def import_row_of_def)
  from Cons.IH [OF this] Cons.prems show ?case
    by (simp add: writing_def import_row_of_def)
qed simp

lemma insert_relations_ok:
  assumes "writing path base db"
    "\<forall>w \<in> set ws. wr_def_file w = path \<and> fits (wr_def_span_start w) \<and> fits (wr_def_span_end w)"
  shows "\<exists>rows. insert_relations ws db = Inr (db\<lparr>db_relations := db_relations db @ rows\<rparr>) \<and>
    writing path base (db\<lparr>db_relations := db_relations db @ rows\<rparr>) \<and> list_all2 stores_relation ws rows"
  using assms
proof (induction ws arbitrary: db)
  case Nil
  then show ?case by simp
next
  case (Cons w ws)
  define r where "r = \<lparr>rl_id = next_rowid (map rl_id (db_relations db)), rl_from_qualified = wr_from_qualified w,
      rl_to_qualified = wr_to_qualified w, rl_kind = wr_kind w, rl_def_file = wr_def_file w,
      rl_def_span_start = int (wr_def_span_start w), rl_def_span_end = int (wr_def_span_end w),
      rl_confidence = wr_confidence w\<rparr>"
  let ?db = "db\<lparr>db_relations := db_relations db @ [r]\<rparr>"
  have "writing path base ?db"
    using Cons.prems next_rowid_fresh [of "map rl_id (db_relations db)"]
    by (auto simp: writing_def store_defs file_stored_def symbol_in_def r_def)
  moreover have "stores_relation w r" using Cons.prems(2) by (simp add: stores_relation_def r_def)
  moreover have "insert_relations (w # ws) db = insert_relations ws ?db"
    using Cons.prems by (simp add: writing_def r_def)
  ultimately show ?case using Cons.IH [of ?db] Cons.prems(2) by fastforce
qed

lemma insert_strings_ok:
  assumes "writing path base db" "ids_ok path symbol_ids db" "\<forall>w \<in> set ws. wg_file_path w = path \<and> fits (wg_line w)"
  shows "\<exists>rows. (let db' = db\<lparr>db_strings := db_strings db @ rows,
        db_strings_fts := db_strings_fts db @ map fts_of_string rows\<rparr>
      in insert_strings symbol_ids ws db = Inr db' \<and> writing path base db') \<and> list_all2 stores_string ws rows"
  using assms
proof (induction ws arbitrary: db)
  case Nil
  then show ?case by simp
next
  case (Cons w ws)
  define s where "s = \<lparr>st_id = next_rowid (map st_id (db_strings db)), st_file_path = wg_file_path w,
      st_line = int (wg_line w), st_value = redact (wg_value w),
      st_context_symbol = Option.bind (wg_context_symbol w) (map_of symbol_ids)\<rparr>"
  let ?db = "db\<lparr>db_strings := db_strings db @ [s], db_strings_fts := db_strings_fts db @ [fts_of_string s]\<rparr>"
  have c: "symbol_in db (st_file_path s) i" if "st_context_symbol s = Some i" for i
    using that Cons.prems(2,3) by (auto simp: s_def ids_ok_def split: Option.bind_splits)
  have "store_ok ?db"
  proof -
    have "db_keys_ok ?db"
      using Cons.prems(1) next_rowid_fresh [of "map st_id (db_strings db)"]
      by (auto simp: writing_def store_defs s_def)
    moreover have "files_ok ?db"
      using Cons.prems by (auto simp: writing_def store_defs file_stored_def s_def)
    moreover have "links_ok ?db"
      using Cons.prems(1) c by (auto simp: writing_def store_defs)
    moreover have "fts_ok ?db" using Cons.prems(1) by (simp add: writing_def store_defs)
    ultimately show ?thesis by (simp add: store_ok_def)
  qed
  then have w: "writing path base ?db"
    using Cons.prems by (simp add: writing_def s_def)
  have "insert_strings symbol_ids (w # ws) db = insert_strings symbol_ids ws ?db"
    using Cons.prems by (simp add: writing_def s_def fts_of_string_def Let_def)
  moreover have "ids_ok path symbol_ids ?db" using Cons.prems(2) by (simp add: ids_ok_def)
  moreover have "stores_string w s" by (simp add: stores_string_def s_def)
  moreover obtain rows where "insert_strings symbol_ids ws ?db = Inr (?db\<lparr>db_strings := db_strings ?db @ rows,
        db_strings_fts := db_strings_fts ?db @ map fts_of_string rows\<rparr>)"
    "writing path base (?db\<lparr>db_strings := db_strings ?db @ rows,
        db_strings_fts := db_strings_fts ?db @ map fts_of_string rows\<rparr>)" "list_all2 stores_string ws rows"
    using Cons.IH [OF w \<open>ids_ok path symbol_ids ?db\<close>] Cons.prems(3) by (auto simp: Let_def)
  ultimately show ?case
    by (intro exI [of _ "s # rows"]) (simp add: Let_def del: insert_strings.simps)
qed

lemma insert_configs_ok:
  assumes "writing path base db" "\<forall>w \<in> set ws. wc_file_path w = path \<and> fits (wc_line w)"
  shows "\<exists>rows. (let db' = db\<lparr>db_configs := db_configs db @ rows,
        db_configs_fts := db_configs_fts db @ map fts_of_config rows\<rparr>
      in insert_configs ws db = Inr db' \<and> writing path base db') \<and> list_all2 stores_config ws rows"
  using assms
proof (induction ws arbitrary: db)
  case Nil
  then show ?case by simp
next
  case (Cons w ws)
  define c where "c = \<lparr>cf_id = next_rowid (map cf_id (db_configs db)), cf_file_path = wc_file_path w,
      cf_line = int (wc_line w), cf_key = wc_key w, cf_kind = wc_kind w\<rparr>"
  let ?db = "db\<lparr>db_configs := db_configs db @ [c], db_configs_fts := db_configs_fts db @ [fts_of_config c]\<rparr>"
  have w: "writing path base ?db"
    using Cons.prems next_rowid_fresh [of "map cf_id (db_configs db)"]
    by (auto simp: writing_def store_defs file_stored_def symbol_in_def c_def)
  have "insert_configs (w # ws) db = insert_configs ws ?db"
    using Cons.prems by (simp add: writing_def c_def fts_of_config_def Let_def)
  moreover have "stores_config w c" by (simp add: stores_config_def c_def)
  moreover obtain rows where "insert_configs ws ?db = Inr (?db\<lparr>db_configs := db_configs ?db @ rows,
        db_configs_fts := db_configs_fts ?db @ map fts_of_config rows\<rparr>)"
    "writing path base (?db\<lparr>db_configs := db_configs ?db @ rows,
        db_configs_fts := db_configs_fts ?db @ map fts_of_config rows\<rparr>)" "list_all2 stores_config ws rows"
    using Cons.IH [OF w] Cons.prems(2) by (auto simp: Let_def)
  ultimately show ?case
    by (intro exI [of _ "c # rows"]) (simp add: Let_def del: insert_configs.simps)
qed

subsection \<open>A whole file\<close>

text \<open>The rows of a file, as the file's extraction gave them.\<close>

definition holds_file :: "extracted_source_file \<Rightarrow> graph_db \<Rightarrow> bool" where
  "holds_file file db \<longleftrightarrow> (let path = xf_file_path file; rows = xf_rows file in
     filter (\<lambda>f. fl_path f = path) (db_files db) = [pending_row file] \<and>
     list_all2 stores_symbol (ef_symbols rows) (filter (\<lambda>s. sy_file_path s = path) (db_symbols db)) \<and>
     filter (\<lambda>i. im_from_file i = path) (db_imports db) = map import_row_of (ef_imports rows) \<and>
     list_all2 stores_relation (ef_relations rows) (filter (\<lambda>r. rl_def_file r = path) (db_relations db)) \<and>
     list_all2 stores_string (ef_strings rows) (filter (\<lambda>s. st_file_path s = path) (db_strings db)) \<and>
     list_all2 stores_config (ef_configs rows) (filter (\<lambda>c. cf_file_path c = path) (db_configs db)) \<and>
     filter (\<lambda>r. rf_from_file r = path) (db_refs db) = [] \<and>
     filter (\<lambda>c. cm_file_path c = path) (db_commands db) = [])"

lemma filter_stored:
  assumes "list_all2 st ws rows" "\<And>w r. st w r \<Longrightarrow> file_of r = raw_file w" "\<forall>w \<in> set ws. raw_file w = path"
  shows "filter (\<lambda>r. file_of r = path) rows = rows"
  using assms by (fastforce simp: filter_id_conv list_all2_conv_all_nth in_set_conv_nth)

lemma filter_none:
  assumes "rows = filter (\<lambda>r. file_of r \<noteq> path) rows"
  shows "filter (\<lambda>r. file_of r = path) rows = []"
  by (subst assms) simp

lemma insert_symbols_ok:
  assumes "writing path base db"
    "\<forall>w \<in> set symbols. ws_file_path w = path \<and> fits (ws_span_start w) \<and> fits (ws_span_end w)"
    "filter (\<lambda>s. sy_file_path s = path) (db_symbols db) = []"
  shows "\<exists>symbol_ids db'. insert_symbols symbols db = Inr (symbol_ids, db') \<and> writing path base db' \<and>
    ids_ok path symbol_ids db' \<and>
    list_all2 stores_symbol symbols (filter (\<lambda>s. sy_file_path s = path) (db_symbols db')) \<and>
    db_relations db' = db_relations db \<and> db_imports db' = db_imports db \<and> db_strings db' = db_strings db \<and>
    db_configs db' = db_configs db"
proof -
  have "btree_ok ([] :: (string, int) btree_map)" "ids_ok path [] db" by (simp_all add: btree_ok_def ids_ok_def)
  from insert_symbol_rows_ok [OF assms(1) this assms(2)] obtain symbol_ids db1 rows where
    one: "insert_symbol_rows symbols [] db = Inr (symbol_ids, db1)" "writing path base db1" "ids_ok path symbol_ids db1"
    "db_symbols db1 = db_symbols db @ rows" "list_all2 stores_symbol symbols rows"
    "db_relations db1 = db_relations db" "db_imports db1 = db_imports db" "db_strings db1 = db_strings db"
    "db_configs db1 = db_configs db" by blast
  from link_parents_writing [OF one(2,3), of symbols] obtain linked where
    two: "fold (link_parent symbol_ids) symbols db1 = db1\<lparr>db_symbols := linked\<rparr>"
    "map unlinked linked = map unlinked (db_symbols db1)" "writing path base (db1\<lparr>db_symbols := linked\<rparr>)" by blast
  have "filter (\<lambda>s. sy_file_path s = path) rows = rows"
    by (rule filter_stored [OF one(5), where raw_file = ws_file_path]) (use assms(2) in \<open>auto simp: stores_symbol_def\<close>)
  then have "list_all2 stores_symbol symbols (filter (\<lambda>s. sy_file_path s = path) linked)"
    unfolding map_unlinked(4) [OF two(2)] one(4) using assms(3) one(5) by simp
  moreover have "ids_ok path symbol_ids (db1\<lparr>db_symbols := linked\<rparr>)"
    using one(3) symbol_in_unlinked [of "db1\<lparr>db_symbols := linked\<rparr>" db1] two(2) by (simp add: ids_ok_def)
  ultimately show ?thesis
    using one two by (intro exI [of _ symbol_ids] exI [of _ "db1\<lparr>db_symbols := linked\<rparr>"]) (simp add: insert_symbols_def)
qed

lemma insert_file_rows_writing:
  assumes "writing path base db" "extracted_ok file" "path = xf_file_path file"
    "filter (\<lambda>s. sy_file_path s = path) (db_symbols db) = []"
  shows "\<exists>db' rels strs cfgs. insert_file_rows file db = Inr db' \<and> writing path base db' \<and>
    list_all2 stores_symbol (ef_symbols (xf_rows file)) (filter (\<lambda>s. sy_file_path s = path) (db_symbols db')) \<and>
    db_imports db' = db_imports db @ map import_row_of (ef_imports (xf_rows file)) \<and>
    db_relations db' = db_relations db @ rels \<and> list_all2 stores_relation (ef_relations (xf_rows file)) rels \<and>
    db_strings db' = db_strings db @ strs \<and> list_all2 stores_string (ef_strings (xf_rows file)) strs \<and>
    db_configs db' = db_configs db @ cfgs \<and> list_all2 stores_config (ef_configs (xf_rows file)) cfgs"
proof -
  let ?rows = "xf_rows file"
  note ok = assms(2) [unfolded extracted_ok_def Let_def, folded assms(3)]
  from insert_symbols_ok [OF assms(1) _ assms(4)] ok obtain ids db1 where
    1: "insert_symbols (ef_symbols ?rows) db = Inr (ids, db1)" "writing path base db1" "ids_ok path ids db1"
    "list_all2 stores_symbol (ef_symbols ?rows) (filter (\<lambda>s. sy_file_path s = path) (db_symbols db1))"
    "db_relations db1 = db_relations db" "db_imports db1 = db_imports db" "db_strings db1 = db_strings db"
    "db_configs db1 = db_configs db" by blast
  define db2 where "db2 = db1\<lparr>db_imports := db_imports db1 @ map import_row_of (ef_imports ?rows)\<rparr>"
  have 2: "insert_imports (ef_imports ?rows) db1 = Inr db2" "writing path base db2"
    using insert_imports_ok [OF 1(2)] ok by (simp_all add: db2_def)
  from insert_relations_ok [OF 2(2)] ok obtain rels db3 where
    3: "insert_relations (ef_relations ?rows) db2 = Inr db3" "writing path base db3"
    "db3 = db2\<lparr>db_relations := db_relations db2 @ rels\<rparr>" "list_all2 stores_relation (ef_relations ?rows) rels" by blast
  have "ids_ok path ids db3" using 1(3) by (simp add: ids_ok_def 3(3) db2_def)
  from insert_strings_ok [OF 3(2) this] ok obtain strs db4 where
    4: "insert_strings ids (ef_strings ?rows) db3 = Inr db4" "writing path base db4"
    "db4 = db3\<lparr>db_strings := db_strings db3 @ strs, db_strings_fts := db_strings_fts db3 @ map fts_of_string strs\<rparr>"
    "list_all2 stores_string (ef_strings ?rows) strs" unfolding Let_def by blast
  from insert_configs_ok [OF 4(2)] ok obtain cfgs db5 where
    5: "insert_configs (ef_configs ?rows) db4 = Inr db5" "writing path base db5"
    "db5 = db4\<lparr>db_configs := db_configs db4 @ cfgs, db_configs_fts := db_configs_fts db4 @ map fts_of_config cfgs\<rparr>"
    "list_all2 stores_config (ef_configs ?rows) cfgs" unfolding Let_def by blast
  have "insert_file_rows file db = Inr db5"
    using 1(1) 2(1) 3(1) 4(1) 5(1) by (simp add: insert_file_rows_def Let_def)
  with 1 3 4 5 show ?thesis
    by (intro exI [of _ db5] exI [of _ rels] exI [of _ strs] exI [of _ cfgs]) (simp add: db2_def)
qed

lemma insert_file_rows_ok:
  assumes "writing path base db" "extracted_ok file" "path = xf_file_path file"
    "filter (\<lambda>s. sy_file_path s = path) (db_symbols db) = []"
    "filter (\<lambda>r. rl_def_file r = path) (db_relations db) = []"
    "filter (\<lambda>i. im_from_file i = path) (db_imports db) = []"
    "filter (\<lambda>s. st_file_path s = path) (db_strings db) = []"
    "filter (\<lambda>c. cf_file_path c = path) (db_configs db) = []"
    "filter (\<lambda>f. fl_path f = path) (db_files db) = [pending_row file]"
    "filter (\<lambda>r. rf_from_file r = path) (db_refs db) = []" "filter (\<lambda>c. cm_file_path c = path) (db_commands db) = []"
  shows "\<exists>db'. insert_file_rows file db = Inr db' \<and> writing path base db' \<and> holds_file file db'"
proof -
  let ?rows = "xf_rows file"
  note ok = assms(2) [unfolded extracted_ok_def Let_def, folded assms(3)]
  from insert_file_rows_writing [OF assms(1-4)] obtain db' rels strs cfgs where
    *: "insert_file_rows file db = Inr db'" "writing path base db'"
    "list_all2 stores_symbol (ef_symbols ?rows) (filter (\<lambda>s. sy_file_path s = path) (db_symbols db'))"
    "db_imports db' = db_imports db @ map import_row_of (ef_imports ?rows)"
    "db_relations db' = db_relations db @ rels" "list_all2 stores_relation (ef_relations ?rows) rels"
    "db_strings db' = db_strings db @ strs" "list_all2 stores_string (ef_strings ?rows) strs"
    "db_configs db' = db_configs db @ cfgs" "list_all2 stores_config (ef_configs ?rows) cfgs" by blast
  have "filter (\<lambda>i. im_from_file i = path) (map import_row_of (ef_imports ?rows)) = map import_row_of (ef_imports ?rows)"
    using ok by (simp add: filter_map o_def import_row_of_def)
  moreover have "filter (\<lambda>r. rl_def_file r = path) rels = rels"
    by (rule filter_stored [OF *(6), where raw_file = wr_def_file]) (use ok in \<open>auto simp: stores_relation_def\<close>)
  moreover have "filter (\<lambda>r. st_file_path r = path) strs = strs"
    by (rule filter_stored [OF *(8), where raw_file = wg_file_path]) (use ok in \<open>auto simp: stores_string_def\<close>)
  moreover have "filter (\<lambda>r. cf_file_path r = path) cfgs = cfgs"
    by (rule filter_stored [OF *(10), where raw_file = wc_file_path]) (use ok in \<open>auto simp: stores_config_def\<close>)
  moreover have "db_files db' = db_files db" "db_refs db' = db_refs db" "db_commands db' = db_commands db"
    using assms(1) *(2) by (simp_all add: writing_def)
  ultimately have "holds_file file db'"
    using * assms(5-11) unfolding holds_file_def Let_def assms(3) [symmetric] by simp
  with * show ?thesis by blast
qed

lemma without_file_fields [simp]:
  "db_files (without_file path db) = filter (\<lambda>f. fl_path f \<noteq> path) (db_files db)"
  "db_symbols (without_file path db) = filter (\<lambda>s. sy_file_path s \<noteq> path) (db_symbols db)"
  "db_refs (without_file path db) = filter (\<lambda>r. rf_from_file r \<noteq> path) (db_refs db)"
  "db_relations (without_file path db) = filter (\<lambda>r. rl_def_file r \<noteq> path) (db_relations db)"
  "db_imports (without_file path db) = filter (\<lambda>i. im_from_file i \<noteq> path) (db_imports db)"
  "db_strings (without_file path db) = filter (\<lambda>s. st_file_path s \<noteq> path) (db_strings db)"
  "db_configs (without_file path db) = filter (\<lambda>c. cf_file_path c \<noteq> path) (db_configs db)"
  "db_meta (without_file path db) = db_meta db"
  by (simp_all add: without_file_def Let_def)

lemma fl_path_pending_row [simp]: "fl_path (pending_row file) = xf_file_path file"
  by (simp add: pending_row_def)

text \<open>The database a file is written into: the store without the file, and its new pending row.\<close>

definition write_base :: "extracted_source_file \<Rightarrow> graph_db \<Rightarrow> graph_db" where
  "write_base file db = (let db1 = without_file (xf_file_path file) db
     in db1\<lparr>db_files := db_files db1 @ [pending_row file]\<rparr>)"

lemma write_base_writing:
  assumes "store_ok db"
  shows "writing (xf_file_path file) (write_base file db) (write_base file db)"
proof -
  let ?path = "xf_file_path file"
  let ?db1 = "without_file ?path db"
  have ok: "store_ok ?db1" by (rule store_ok_without_file [OF assms])
  have "?path \<notin> set (map fl_path (db_files ?db1))" by auto
  then have "db_keys_ok (write_base file db)"
    using ok by (simp add: store_ok_def db_keys_ok_def write_base_def Let_def pending_row_def)
  moreover have "files_ok (write_base file db)"
    using ok by (auto simp: store_ok_def files_ok_def write_base_def Let_def file_stored_def)
  moreover have "links_ok (write_base file db)" "fts_ok (write_base file db)"
    using ok by (simp_all add: store_ok_def links_ok_def fts_ok_def write_base_def Let_def)
  ultimately show ?thesis
    by (simp add: writing_def store_ok_def) (simp add: write_base_def Let_def file_stored_def pending_row_def)
qed

lemma writing_outside:
  assumes "store_ok db" "writing (xf_file_path file) (write_base file db) db'"
  shows "without_file (xf_file_path file) db' = without_file (xf_file_path file) db"
proof -
  let ?path = "xf_file_path file"
  let ?db1 = "without_file ?path db"
  have ok: "store_ok db'" and cmd: "db_commands db' = db_commands ?db1" and
    sym: "filter (\<lambda>s. sy_file_path s \<noteq> ?path) (db_symbols db') = db_symbols ?db1"
    using assms(2) by (simp_all add: writing_def write_base_def Let_def)
  have "unbind (set (ids_in_file sy_id sy_file_path ?path (db_symbols db'))) c = c" if "c \<in> set (db_commands ?db1)" for c
  proof -
    have "h \<notin> set (ids_in_file sy_id sy_file_path ?path (db_symbols db'))" if h: "cm_handler_symbol c = Some h" for h
    proof -
      from store_ok_without_file [OF assms(1), of ?path] \<open>c \<in> set (db_commands ?db1)\<close> h
      obtain s where "s \<in> set (db_symbols ?db1)" "sy_id s = h"
        unfolding store_ok_def links_ok_def by force
      then have s: "s \<in> set (db_symbols db')" "sy_file_path s \<noteq> ?path" "sy_id s = h"
        unfolding sym [symmetric] by auto
      have "sy_file_path t \<noteq> ?path" if "t \<in> set (db_symbols db')" "sy_id t = h" for t
        using symbol_by_id_unique [of db' t s] ok s that by (simp add: store_ok_def)
      then show ?thesis unfolding ids_in_file_def by auto
    qed
    then show ?thesis by (auto simp: unbind_def split: option.splits)
  qed
  moreover have "filter (\<lambda>c. cm_file_path c \<noteq> ?path) (db_commands ?db1) = db_commands ?db1"
    by (auto simp: without_file_def Let_def filter_id_conv)
  ultimately have "db_commands (without_file ?path db') = db_commands ?db1"
    using cmd by (simp add: without_file_def [of _ db'] Let_def map_idI)
  then show ?thesis
    using assms(2) by (intro graph_db.equality)
      (simp_all add: writing_def write_base_def Let_def, simp_all add: without_file_def Let_def write_base_def)
qed

section \<open>What the transactions promise\<close>

lemma write_file_ok:
  assumes "store_ok db" "extracted_ok file"
  shows "\<exists>db'. write_file_transaction file db = Inr db' \<and> store_ok db' \<and> holds_file file db' \<and>
    without_file (xf_file_path file) db' = without_file (xf_file_path file) db"
proof -
  let ?path = "xf_file_path file"
  have w: "writing ?path (write_base file db) (write_base file db)" by (rule write_base_writing [OF assms(1)])
  have "\<exists>db'. insert_file_rows file (write_base file db) = Inr db' \<and> writing ?path (write_base file db) db' \<and>
      holds_file file db'"
    by (rule insert_file_rows_ok [OF w assms(2) refl])
       (simp_all add: write_base_def Let_def pending_row_def, simp add: without_file_def Let_def filter_map o_def)
  moreover have "write_file_transaction file db = insert_file_rows file (write_base file db)"
    by (simp add: write_file_transaction_def delete_file_row_ok [OF assms(1)] write_base_def Let_def)
  moreover have "store_ok db'" if "writing ?path (write_base file db) db'" for db'
    using that by (simp add: writing_def)
  ultimately show ?thesis using writing_outside [OF assms(1)] by metis
qed


text \<open>
  Removing a file always succeeds, keeps the store invariant and leaves exactly the store
  without the file: no row of it stays in any table or full-text table, command handlers that
  pointed into it are cleared, and every other row is untouched.
\<close>

theorem delete_file_transaction_exact:
  assumes "store_ok db"
  shows "delete_file_transaction path db = Inr (without_file path db) \<and> store_ok (without_file path db)"
  using delete_file_row_ok [OF assms] store_ok_without_file [OF assms] by (simp add: delete_file_transaction_def)

text \<open>A handler is found exactly when one symbol carries the qualified name.\<close>

lemma two_rows_unique:
  fixes xs :: "int list"
  shows "(case take 2 (sort xs) of [i] \<Rightarrow> Some i | _ \<Rightarrow> None) = Some j \<longleftrightarrow> xs = [j]"
proof (cases "length xs \<le> 1")
  case True
  then show ?thesis by (cases xs) auto
next
  case False
  then have "length (take 2 (sort xs)) = 2" by simp
  then obtain a b where "take 2 (sort xs) = [a, b]"
    by (cases "take 2 (sort xs)"; cases "tl (take 2 (sort xs))") auto
  with False show ?thesis by auto
qed

lemma unique_symbol_id_iff:
  "unique_symbol_id_for_qualified db qualified = Some i \<longleftrightarrow>
     map sy_id (filter (\<lambda>s. sy_qualified s = qualified) (db_symbols db)) = [i]"
  unfolding unique_symbol_id_for_qualified_def by (rule two_rows_unique)

lemma resolved_handler_stored:
  "resolved_handler_symbol db c = Some h \<Longrightarrow> h \<in> set (map sy_id (db_symbols db))"
proof -
  assume "resolved_handler_symbol db c = Some h"
  then obtain q where "map sy_id (filter (\<lambda>s. sy_qualified s = q) (db_symbols db)) = [h]"
    unfolding resolved_handler_symbol_def bind_eq_Some_conv unique_symbol_id_iff by (elim exE conjE)
  then have "h \<in> set (map sy_id (filter (\<lambda>s. sy_qualified s = q) (db_symbols db)))" by simp
  then show ?thesis by auto
qed

definition command_row_of :: "graph_db \<Rightarrow> raw_command \<Rightarrow> command_row" where
  "command_row_of db w =
     \<lparr>cm_name = wm_name w, cm_file_path = wm_file_path w, cm_span_start = int (wm_span_start w),
      cm_handler_symbol = resolved_handler_symbol db w\<rparr>"

lemma resolved_handler_update [simp]:
  "resolved_handler_symbol (db\<lparr>db_commands := x\<rparr>) = resolved_handler_symbol db"
proof -
  have "unique_symbol_id_for_qualified (db\<lparr>db_commands := x\<rparr>) = unique_symbol_id_for_qualified db"
    by (simp add: unique_symbol_id_for_qualified_def fun_eq_iff)
  then show ?thesis by (simp add: resolved_handler_symbol_def [abs_def])
qed

lemma command_row_of_update [simp]: "command_row_of (db\<lparr>db_commands := x\<rparr>) = command_row_of db"
  by (simp add: command_row_of_def fun_eq_iff)

lemma store_ok_commands:
  assumes "store_ok db" "distinct (map cm_name cs)" "\<forall>c \<in> set cs. file_stored db (cm_file_path c)"
    "\<forall>c \<in> set cs. \<forall>h. cm_handler_symbol c = Some h \<longrightarrow> h \<in> set (map sy_id (db_symbols db))"
  shows "store_ok (db\<lparr>db_commands := cs\<rparr>)"
  using assms by (auto simp: store_defs)

lemma insert_commands_cases:
  assumes "store_ok db" "\<forall>w \<in> set ws. file_stored db (wm_file_path w) \<and> fits (wm_span_start w)"
  shows "insert_commands ws db =
    (if distinct (map cm_name (db_commands db) @ map wm_name ws)
     then Inr (db\<lparr>db_commands := db_commands db @ map (command_row_of db) ws\<rparr>)
     else Inl (Sqlite ''insert graph command row''))"
  using assms
proof (induction ws arbitrary: db)
  case Nil
  then show ?case by (simp add: store_defs)
next
  case (Cons w ws)
  let ?db = "db\<lparr>db_commands := db_commands db @ [command_row_of db w]\<rparr>"
  show ?case
  proof (cases "wm_name w \<in> set (map cm_name (db_commands db))")
    case True
    then show ?thesis using Cons.prems by auto
  next
    case False
    have "store_ok ?db"
      using Cons.prems False resolved_handler_stored
      by (intro store_ok_commands) (auto simp: command_row_of_def store_defs)
    then have "insert_commands ws ?db =
        (if distinct (map cm_name (db_commands ?db) @ map wm_name ws)
         then Inr (?db\<lparr>db_commands := db_commands ?db @ map (command_row_of ?db) ws\<rparr>)
         else Inl (Sqlite ''insert graph command row''))"
      using Cons.prems by (intro Cons.IH) auto
    moreover have "insert_commands (w # ws) db = insert_commands ws ?db"
      using Cons.prems False by (simp add: command_row_of_def Let_def)
    moreover have "distinct (map cm_name (db_commands db) @ map wm_name (w # ws)) \<longleftrightarrow>
        distinct (map cm_name (db_commands ?db) @ map wm_name ws)"
      using False by (auto simp: command_row_of_def)
    ultimately show ?thesis by (simp del: insert_commands.simps distinct_append)
  qed
qed


definition empty_db :: graph_db where
  "empty_db = \<lparr>db_files = [], db_symbols = [], db_refs = [], db_relations = [], db_imports = [], db_commands = [],
     db_strings = [], db_configs = [], db_symbols_fts = [], db_strings_fts = [], db_configs_fts = [], db_meta = []\<rparr>"

lemma store_ok_empty: "store_ok empty_db"
  by (simp add: store_defs empty_db_def)

definition demo_extraction :: extracted_source_file where
  "demo_extraction =
     \<lparr>xf_path = [''src'', ''a.rs''], xf_file_path = ''src/a.rs'', xf_lang = ''rust'', xf_content_hash = ''h'',
      xf_mtime_ns = 7, xf_byte_len = 40, xf_extracted_at = 9,
      xf_rows = \<lparr>ef_symbols = [\<lparr>ws_file_path = ''src/a.rs'', ws_name = ''run'', ws_qualified = ''run'',
          ws_kind = ''function'', ws_span_start = 0, ws_span_end = 40, ws_signature = Some ''fn run()'',
          ws_parent_symbol = None\<rparr>], ef_refs = [], ef_relations = [],
        ef_imports = [\<lparr>wi_from_file = ''src/a.rs'', wi_target_path = ''crate::b'', wi_target_symbol = Some ''go'',
          wi_source_symbol = None, wi_reexport_module = None\<rparr>],
        ef_strings = [\<lparr>wg_file_path = ''src/a.rs'', wg_line = 2, wg_value = ''hello there'', wg_context_symbol = Some ''run''\<rparr>],
        ef_configs = [], ef_commands = []\<rparr>\<rparr>"

lemma demo_extraction_ok: "extracted_ok demo_extraction"
  by (simp add: extracted_ok_def demo_extraction_def Let_def fits_def I64_MAX_def)


theorem delete_file_transaction_exact_witness:
  "\<exists>db. store_ok db \<and> holds_file demo_extraction db \<and>
     delete_file_transaction ''src/a.rs'' db = Inr (without_file ''src/a.rs'' db) \<and> store_ok (without_file ''src/a.rs'' db)"
proof -
  obtain db where "store_ok db" "holds_file demo_extraction db"
    using write_file_ok [OF store_ok_empty demo_extraction_ok] by blast
  then show ?thesis using delete_file_transaction_exact [of db "''src/a.rs''"] by blast
qed

definition demo_command :: "string \<Rightarrow> raw_command" where
  "demo_command path = \<lparr>wm_name = ''add'', wm_file_path = path, wm_span_start = 5, wm_handler_symbol = None\<rparr>"

definition demo_two_files :: graph_db where
  "demo_two_files = empty_db\<lparr>db_files := map (\<lambda>p. \<lparr>fl_path = p, fl_content_hash = ''h'', fl_mtime_ns = 7,
     fl_lang = ''python'', fl_byte_len = 10, fl_extracted_at = 9\<rparr>) [''a.py'', ''b.py'']\<rparr>"

lemma demo_two_files_ok: "store_ok demo_two_files"
  by (simp add: store_defs demo_two_files_def empty_db_def)


lemma rebind_command_ok:
  assumes "store_ok db"
  shows "store_ok (rebind_command w db) \<and> rebind_command w db = db\<lparr>db_commands := db_commands (rebind_command w db)\<rparr>"
proof (cases "resolved_handler_symbol db w")
  case None
  then show ?thesis using assms by (simp add: rebind_command_def)
next
  case (Some h)
  have "map cm_name (db_commands (rebind_command w db)) = map cm_name (db_commands db)"
    using Some by (simp add: rebind_command_def)
  then have "distinct (map cm_name (db_commands (rebind_command w db)))"
    using assms by (simp add: store_ok_def db_keys_ok_def)
  then have "store_ok (db\<lparr>db_commands := db_commands (rebind_command w db)\<rparr>)"
    using assms Some resolved_handler_stored [OF Some]
    by (intro store_ok_commands) (auto simp: rebind_command_def store_defs)
  then show ?thesis using Some by (simp add: rebind_command_def)
qed

lemma rebind_commands_ok:
  assumes "store_ok db"
  shows "store_ok (rebind_commands_transaction ws db) \<and>
    rebind_commands_transaction ws db = db\<lparr>db_commands := db_commands (rebind_commands_transaction ws db)\<rparr>"
  using assms unfolding rebind_commands_transaction_def
proof (induction ws arbitrary: db)
  case (Cons w ws)
  from Cons.IH [of "rebind_command w db"] rebind_command_ok [OF Cons.prems, of w] show ?case
    by (metis (no_types, lifting) fold_simps(2) graph_db.surjective graph_db.update_convs(6))
qed simp

end
