(* ===== verification/Sync_Trace.thy ===== *)
theory Sync_Trace
  imports Store
begin

text \<open>
  Code that writes the database in several transactions. A run is modelled by the databases it
  commits, in order, and by its result: the state a process finds after a crash is the database
  the run started from or one of the committed ones, and an error ends the run at the last commit.

  \<open>triple\<close> is a Hoare triple with a crash condition: from a database that satisfies the
  precondition, every committed database satisfies the crash condition, and when the run returns,
  its value and the last database satisfy the postcondition.
\<close>

type_synonym 'a sync = "graph_db \<Rightarrow> graph_db list \<times> 'a graph_result"

definition final_db :: "graph_db \<Rightarrow> graph_db list \<Rightarrow> graph_db" where
  "final_db db commits = last (db # commits)"

definition sync_return :: "'a \<Rightarrow> 'a sync" where
  "sync_return a = (\<lambda>db. ([], Inr a))"

definition sync_fail :: "graph_error \<Rightarrow> 'a sync" where
  "sync_fail e = (\<lambda>db. ([], Inl e))"

definition sync_bind :: "'a sync \<Rightarrow> ('a \<Rightarrow> 'b sync) \<Rightarrow> 'b sync" where
  "sync_bind m f = (\<lambda>db.
     case m db of
       (commits, Inl e) \<Rightarrow> (commits, Inl e)
     | (commits, Inr a) \<Rightarrow>
         (case f a (final_db db commits) of (commits', r) \<Rightarrow> (commits @ commits', r)))"

text \<open>A transaction: it commits one database, or rolls back with an error.\<close>

definition commit :: "(graph_db \<Rightarrow> graph_db graph_result) \<Rightarrow> unit sync" where
  "commit tx = (\<lambda>db. case tx db of Inl e \<Rightarrow> ([], Inl e) | Inr db' \<Rightarrow> ([db'], Inr ()))"

text \<open>A read of the current database.\<close>

definition sync_read :: "(graph_db \<Rightarrow> 'a graph_result) \<Rightarrow> 'a sync" where
  "sync_read f = (\<lambda>db. ([], f db))"

lemmas sync_defs = sync_return_def sync_fail_def sync_bind_def commit_def sync_read_def

lemma final_db_simps [simp]:
  "final_db db [] = db" "final_db db (commits @ commits') = final_db (final_db db commits) commits'"
  "final_db db (c # commits) = final_db c commits"
  by (auto simp: final_db_def)

lemma final_db_mem: "final_db db commits \<in> insert db (set commits)"
  by (auto simp: final_db_def)

section \<open>Triples with a crash condition\<close>

definition triple ::
  "(graph_db \<Rightarrow> bool) \<Rightarrow> 'a sync \<Rightarrow> ('a \<Rightarrow> graph_db \<Rightarrow> bool) \<Rightarrow> (graph_db \<Rightarrow> bool) \<Rightarrow> bool" where
  "triple P m Q C \<longleftrightarrow> (\<forall>db. P db \<longrightarrow>
     (\<forall>db' \<in> set (fst (m db)). C db') \<and>
     (\<forall>a. snd (m db) = Inr a \<longrightarrow> Q a (final_db db (fst (m db)))))"

lemma tripleD:
  assumes "triple P m Q C" "P db" "m db = (commits, r)"
  shows "db' \<in> set commits \<Longrightarrow> C db'" "r = Inr a \<Longrightarrow> Q a (final_db db commits)"
  using assms by (auto simp: triple_def)

lemma triple_return: "(\<And>db. P db \<Longrightarrow> Q a db) \<Longrightarrow> triple P (sync_return a) Q C"
  by (simp add: triple_def sync_return_def)

lemma triple_fail: "triple P (sync_fail e) Q C"
  by (simp add: triple_def sync_fail_def)

lemma triple_read: "(\<And>db a. P db \<Longrightarrow> f db = Inr a \<Longrightarrow> Q a db) \<Longrightarrow> triple P (sync_read f) Q C"
  by (auto simp: triple_def sync_read_def)

lemma triple_commit:
  "(\<And>db db'. P db \<Longrightarrow> tx db = Inr db' \<Longrightarrow> C db' \<and> Q () db') \<Longrightarrow> triple P (commit tx) Q C"
  by (auto simp: triple_def commit_def split: sum.splits)

lemma triple_bind:
  assumes "triple P m R C" "\<And>a. triple (R a) (f a) Q C"
  shows "triple P (sync_bind m f) Q C"
  unfolding triple_def
proof (intro allI impI)
  fix db
  assume P: "P db"
  obtain commits r where m: "m db = (commits, r)" by fastforce
  show "(\<forall>db' \<in> set (fst (sync_bind m f db)). C db') \<and>
      (\<forall>a. snd (sync_bind m f db) = Inr a \<longrightarrow> Q a (final_db db (fst (sync_bind m f db))))"
  proof (cases r)
    case (Inl e)
    with m tripleD(1) [OF assms(1) P m] show ?thesis by (simp add: sync_bind_def)
  next
    case (Inr a)
    obtain commits' r' where f: "f a (final_db db commits) = (commits', r')" by fastforce
    note fa = tripleD [OF assms(2) tripleD(2) [OF assms(1) P m Inr] f]
    show ?thesis
      using tripleD(1) [OF assms(1) P m] fa m f Inr by (auto simp: sync_bind_def)
  qed
qed

lemma triple_conseq:
  assumes "triple P m Q C" "\<And>db. P' db \<Longrightarrow> P db" "\<And>a db. Q a db \<Longrightarrow> Q' a db" "\<And>db. C db \<Longrightarrow> C' db"
  shows "triple P' m Q' C'"
  using assms unfolding triple_def by blast

end
