(* ===== verification/Sync_Pass1.thy ===== *)
theory Sync_Pass1
  imports Sync_Rows Sync_Trace
begin

text \<open>
  Pass 1 of a sync (\<open>crates/orbit-graph/src/sync/pass1.rs\<close>): planning chunks of changed files,
  extracting each chunk, and writing the files one transaction each, with cancellation and progress
  reports; and the reports of \<open>sync/report.rs\<close>.

  A worktree-relative \<open>PathBuf\<close> is the list of its components, which is what its equality and order
  compare. What extraction finds on disk, the extractors, the hash and the clock are parameters; a
  parallel map keeps the order of its input, so extraction of a chunk is a \<open>map\<close>. An observer is the
  sequence of its answers to \<open>is_cancelled\<close>; the reports it receives are collected in a list.
\<close>

section \<open>Reports\<close>

record sync_failure =
  sf_path :: string
  sf_operation :: string
  sf_error_kind :: string
  sf_message :: string

datatype sync_mode = Auto | Full

datatype sync_phase = Extracting | Resolving

record sync_progress =
  pg_phase :: sync_phase
  pg_files_seen :: nat
  pg_files_indexed :: nat
  pg_current_path :: "string option"
  pg_units_done :: nat
  pg_units_total :: nat

type_synonym path_buf = "string list"

definition normalize_path :: "path_buf \<Rightarrow> string" where
  "normalize_path path = join_str ''/'' path"

section \<open>Chunks\<close>

record pass1_limits =
  pl_chunk_files :: nat
  pl_chunk_bytes :: nat

definition default_limits :: pass1_limits where
  "default_limits = \<lparr>pl_chunk_files = 128, pl_chunk_bytes = 8 * MAX_FILE_BYTES\<rparr>"

fun plan_from :: "pass1_limits \<Rightarrow> nat \<Rightarrow> nat \<Rightarrow> nat \<Rightarrow> nat list \<Rightarrow> (nat \<times> nat) list" where
  "plan_from limits start bytes index [] = (if start < index then [(start, index)] else [])"
| "plan_from limits start bytes index (len # lens) =
     (if index > start \<and>
         (index - start \<ge> max (pl_chunk_files limits) 1 \<or> saturating_add bytes len > pl_chunk_bytes limits)
      then (start, index) # plan_from limits index (saturating_add 0 len) (Suc index) lens
      else plan_from limits start (saturating_add bytes len) (Suc index) lens)"

definition plan_chunks :: "(path_buf \<Rightarrow> nat) \<Rightarrow> path_buf list \<Rightarrow> pass1_limits \<Rightarrow> (nat \<times> nat) list" where
  "plan_chunks file_len changed limits = plan_from limits 0 0 0 (map file_len changed)"

definition chunk_of :: "'a list \<Rightarrow> nat \<times> nat \<Rightarrow> 'a list" where
  "chunk_of xs c = take (snd c - fst c) (drop (fst c) xs)"

section \<open>Extraction\<close>

record extract_file_error =
  xe_operation :: string
  xe_reason :: string
  xe_kind :: string

definition extract_error :: "string \<Rightarrow> string \<Rightarrow> extract_file_error" where
  "extract_error operation reason = \<lparr>xe_operation = operation, xe_reason = reason, xe_kind = ''invalid_data''\<rparr>"

definition with_kind :: "string \<Rightarrow> extract_file_error \<Rightarrow> extract_file_error" where
  "with_kind kind e = e\<lparr>xe_kind := kind\<rparr>"

definition into_failure :: "path_buf \<Rightarrow> extract_file_error \<Rightarrow> sync_failure" where
  "into_failure rel_path e =
     \<lparr>sf_path = normalize_path rel_path, sf_operation = xe_operation e, sf_error_kind = xe_kind e,
      sf_message = xe_reason e\<rparr>"

definition OVERSIZE_KIND :: string where
  "OVERSIZE_KIND = ''oversize''"

text \<open>What an extractor call does: return rows or an error, or panic with a message.\<close>

datatype backend_call = Returned "extract_file_error + extracted_source_file" | Panicked string

type_synonym backend = "path_buf \<Rightarrow> backend_call"

definition extract_one :: "backend \<Rightarrow> path_buf \<Rightarrow> extract_file_error + extracted_source_file" where
  "extract_one backend rel_path =
     (case backend rel_path of
        Returned result \<Rightarrow> result
      | Panicked message \<Rightarrow>
          Inl (with_kind ''panic'' (extract_error ''extract source file'' (''extractor panicked: '' @ message))))"

definition extract_changed_files ::
  "backend \<Rightarrow> path_buf list \<Rightarrow> extracted_source_file list \<times> (path_buf \<times> extract_file_error) list" where
  "extract_changed_files backend changed =
     (kept (map (\<lambda>p. res_ok (extract_one backend p)) changed),
      kept (map (\<lambda>p. case extract_one backend p of Inl e \<Rightarrow> Some (p, e) | Inr f \<Rightarrow> None) changed))"

text \<open>
  The default backend: the capped read, the modification time, the extractor chosen for the path,
  its rows with the flag of an exceeded parse deadline, the content hash and the clock.
\<close>

record source_env =
  se_root :: string
  se_read :: "path_buf \<Rightarrow> (string \<times> string) + string option"
  se_mtime :: "path_buf \<Rightarrow> string + int"
  se_extractor :: "path_buf \<Rightarrow> (string \<times> (string \<Rightarrow> extracted_file \<times> bool)) option"
  se_hash :: "string \<Rightarrow> string"
  se_now :: "int graph_result"
  se_display_error :: "graph_error \<Rightarrow> string"
  se_parse_timeout_ms :: string
  se_cap_text :: string

definition default_extract :: "source_env \<Rightarrow> path_buf \<Rightarrow> extract_file_error + extracted_source_file" where
  "default_extract env rel_path =
     (let path = path_join (se_root env) (normalize_path rel_path) in
      case se_read env rel_path of
        Inl (kind, message) \<Rightarrow>
          Inl (with_kind kind (extract_error ''read source file'' (path @ '': '' @ message)))
      | Inr None \<Rightarrow>
          Inl (with_kind OVERSIZE_KIND
            (extract_error ''read source file'' (path @ '' exceeds the '' @ se_cap_text env @ ''-byte cap'')))
      | Inr (Some bytes) \<Rightarrow>
          (case se_mtime env rel_path of
             Inl message \<Rightarrow> Inl (with_kind ''io'' (extract_error ''read source file mtime'' message))
           | Inr mtime_ns \<Rightarrow>
               (case se_extractor env rel_path of
                  None \<Rightarrow>
                    Inl (with_kind ''unsupported''
                      (extract_error ''select extractor'' (''no registered extractor for '' @ normalize_path rel_path)))
                | Some (lang, extract) \<Rightarrow>
                    (case extract bytes of (rows, deadline_exceeded) \<Rightarrow>
                       if deadline_exceeded
                       then Inl (with_kind ''parse_timeout''
                         (extract_error ''parse source file''
                           (''parse exceeded the '' @ se_parse_timeout_ms env @ '' ms deadline'')))
                       else case usize_to_i64 ''convert source byte length'' (length bytes) of
                              Inl e \<Rightarrow> Inl (extract_error ''convert source byte length'' (se_display_error env e))
                            | Inr byte_len \<Rightarrow>
                                (case se_now env of
                                   Inl e \<Rightarrow> Inl (extract_error ''record extraction timestamp'' (se_display_error env e))
                                 | Inr now \<Rightarrow>
                                     Inr \<lparr>xf_path = rel_path, xf_file_path = normalize_path rel_path, xf_lang = lang,
                                          xf_content_hash = se_hash env bytes, xf_mtime_ns = mtime_ns,
                                          xf_byte_len = byte_len, xf_extracted_at = now, xf_rows = rows\<rparr>)))))"

section \<open>The run\<close>

record diff =
  df_unchanged :: "path_buf list"
  df_modified :: "path_buf list"
  df_new :: "path_buf list"
  df_deleted :: "path_buf list"
  df_oversize :: "path_buf list"
  df_failed :: "sync_failure list"

definition has_changes :: "diff \<Rightarrow> bool" where
  "has_changes d \<longleftrightarrow> \<not> (df_modified d = [] \<and> df_new d = [] \<and> df_deleted d = [])"

definition changed_files :: "diff \<Rightarrow> path_buf list" where
  "changed_files d = remdups_adj (sort (df_modified d @ df_new d))"

record extracted_file_refs =
  er_file_path :: string
  er_refs :: "raw_ref list"
  er_content_hash :: string
  er_mtime_ns :: int

record pass1_state =
  ps_total_files :: nat
  ps_files_touched :: nat
  ps_last_touched_path :: "string option"
  ps_polls :: nat
  ps_progress :: "sync_progress list"
  ps_cancelled :: bool
  ps_files_removed :: nat
  ps_files_written :: nat
  ps_refs :: "extracted_file_refs list"
  ps_commands :: "raw_command list"
  ps_failed :: "sync_failure list"
  ps_oversize :: "path_buf list"

record pass1_output =
  po_refs :: "extracted_file_refs list"
  po_files_written :: nat
  po_files_removed :: nat
  po_files_indexed :: nat
  po_cancelled :: bool
  po_total_files :: nat
  po_last_touched_path :: "string option"
  po_failed :: "sync_failure list"
  po_oversize :: "path_buf list"
  po_progress :: "sync_progress list"

text \<open>An observer answers the \<open>n\<close>-th poll; without one, nothing is polled or reported.\<close>

type_synonym observer = "(nat \<Rightarrow> bool) option"

definition poll :: "observer \<Rightarrow> pass1_state \<Rightarrow> bool \<times> pass1_state" where
  "poll observer st =
     (case observer of
        None \<Rightarrow> (False, st)
      | Some is_cancelled \<Rightarrow> (is_cancelled (ps_polls st), st\<lparr>ps_polls := Suc (ps_polls st)\<rparr>))"

definition report :: "observer \<Rightarrow> pass1_state \<Rightarrow> pass1_state" where
  "report observer st =
     (if observer = None then st
      else st\<lparr>ps_progress := ps_progress st @
             [\<lparr>pg_phase = Extracting, pg_files_seen = ps_total_files st, pg_files_indexed = ps_files_touched st,
               pg_current_path = ps_last_touched_path st, pg_units_done = ps_files_touched st,
               pg_units_total = ps_total_files st\<rparr>]\<rparr>)"

definition SYNC_PENDING_KEY :: string where
  "SYNC_PENDING_KEY = ''sync_pending''"

definition set_meta :: "string \<Rightarrow> string \<Rightarrow> graph_db \<Rightarrow> graph_db" where
  "set_meta key value db = db\<lparr>db_meta := filter (\<lambda>e. fst e \<noteq> key) (db_meta db) @ [(key, value)]\<rparr>"

definition mark_sync_pending :: "unit sync" where
  "mark_sync_pending = commit (\<lambda>db. Inr (set_meta SYNC_PENDING_KEY ''1'' db))"

fun delete_files :: "observer \<Rightarrow> path_buf list \<Rightarrow> pass1_state \<Rightarrow> pass1_state sync" where
  "delete_files observer [] st = sync_return st"
| "delete_files observer (rel_path # paths) st =
     (case poll observer st of (stop, st1) \<Rightarrow>
        if stop then sync_return (st1\<lparr>ps_cancelled := True\<rparr>)
        else sync_bind (commit (delete_file_transaction (normalize_path rel_path))) (\<lambda>_.
               delete_files observer paths
                 (report observer
                   (st1\<lparr>ps_files_removed := Suc (ps_files_removed st1),
                        ps_files_touched := Suc (ps_files_touched st1),
                        ps_last_touched_path := Some (normalize_path rel_path)\<rparr>))))"

definition file_refs_of :: "extracted_source_file \<Rightarrow> extracted_file_refs" where
  "file_refs_of file =
     \<lparr>er_file_path = xf_file_path file, er_refs = ef_refs (xf_rows file),
      er_content_hash = xf_content_hash file, er_mtime_ns = xf_mtime_ns file\<rparr>"

fun write_files :: "observer \<Rightarrow> extracted_source_file list \<Rightarrow> pass1_state \<Rightarrow> pass1_state sync" where
  "write_files observer [] st = sync_return st"
| "write_files observer (file # files) st =
     (case poll observer st of (stop, st1) \<Rightarrow>
        if stop then sync_return (st1\<lparr>ps_cancelled := True\<rparr>)
        else sync_bind (commit (write_file_transaction file)) (\<lambda>_.
               write_files observer files
                 (report observer
                   (st1\<lparr>ps_refs := ps_refs st1 @ [file_refs_of file],
                        ps_commands := ps_commands st1 @ ef_commands (xf_rows file),
                        ps_files_written := Suc (ps_files_written st1),
                        ps_files_touched := Suc (ps_files_touched st1),
                        ps_last_touched_path := Some (xf_file_path file)\<rparr>))))"

definition note_errors :: "(path_buf \<times> extract_file_error) list \<Rightarrow> sync_failure list \<times> path_buf list \<Rightarrow>
    sync_failure list \<times> path_buf list" where
  "note_errors errors = fold (\<lambda>(path, e) (failed, oversize).
     if xe_kind e = OVERSIZE_KIND then (failed, oversize @ [path])
     else (failed @ [into_failure path e], oversize)) errors"

definition extract_chunk ::
  "backend \<Rightarrow> path_buf list \<Rightarrow> pass1_state \<Rightarrow> extracted_source_file list \<times> pass1_state" where
  "extract_chunk backend chunk st =
     (let (extracted, errors) = extract_changed_files backend chunk;
          (failed, oversize) = note_errors errors (ps_failed st, ps_oversize st)
      in (sort_key xf_path extracted,
          st\<lparr>ps_total_files := ps_total_files st - (length chunk - length extracted),
             ps_failed := failed, ps_oversize := oversize\<rparr>))"

fun run_chunks :: "observer \<Rightarrow> backend \<Rightarrow> path_buf list list \<Rightarrow> pass1_state \<Rightarrow> pass1_state sync" where
  "run_chunks observer backend [] st = sync_return st"
| "run_chunks observer backend (chunk # chunks) st =
     (if ps_cancelled st then sync_return st
      else case poll observer st of (stop, st1) \<Rightarrow>
        if stop then sync_return (st1\<lparr>ps_cancelled := True\<rparr>)
        else case extract_chunk backend chunk st1 of (files, st2) \<Rightarrow>
          sync_bind (write_files observer files st2) (\<lambda>st3. run_chunks observer backend chunks st3))"

definition rebind_unresolved_commands ::
  "backend \<Rightarrow> sync_failure list \<Rightarrow> path_buf list \<Rightarrow> (sync_failure list \<times> path_buf list) sync" where
  "rebind_unresolved_commands backend failed oversize =
     sync_bind (sync_read (\<lambda>db. Inr (unresolved_command_files db))) (\<lambda>files.
       let skip = map sf_path failed @ map normalize_path oversize;
           paths = map path_components (filter (\<lambda>p. p \<notin> set skip) files)
       in if paths = [] then sync_return (failed, oversize)
          else let (extracted, errors) = extract_changed_files backend paths;
                   noted = note_errors errors (failed, oversize);
                   commands = concat (map (\<lambda>f. ef_commands (xf_rows f)) extracted)
               in if commands = [] then sync_return noted
                  else sync_bind (commit (\<lambda>db. Inr (rebind_commands_transaction commands db))) (\<lambda>_.
                         sync_return noted))"

definition insert_all_commands :: "raw_command list \<Rightarrow> unit sync" where
  "insert_all_commands commands =
     (if commands = [] then sync_return () else commit (insert_commands_transaction commands))"

definition pass1_start :: "diff \<Rightarrow> pass1_state" where
  "pass1_start d =
     \<lparr>ps_total_files = length (df_deleted d) + length (changed_files d), ps_files_touched = 0,
      ps_last_touched_path = None, ps_polls = 0, ps_progress = [], ps_cancelled = False,
      ps_files_removed = 0, ps_files_written = 0, ps_refs = [], ps_commands = [], ps_failed = [],
      ps_oversize = []\<rparr>"

definition pass1_run ::
  "observer \<Rightarrow> backend \<Rightarrow> (path_buf \<Rightarrow> nat) \<Rightarrow> pass1_limits \<Rightarrow> diff \<Rightarrow> pass1_output sync" where
  "pass1_run observer backend file_len limits d =
     (let changed = changed_files d;
          chunks = map (chunk_of changed) (plan_chunks file_len changed limits)
      in sync_bind mark_sync_pending (\<lambda>_.
         sync_bind (delete_files observer (df_deleted d) (report observer (pass1_start d))) (\<lambda>st1.
         sync_bind (run_chunks observer backend chunks st1) (\<lambda>st.
         sync_bind (rebind_unresolved_commands backend (ps_failed st) (ps_oversize st)) (\<lambda>(failed, oversize).
         sync_bind (insert_all_commands (ps_commands st)) (\<lambda>_.
         sync_bind (sync_read (\<lambda>db. Inr (length (db_files db)))) (\<lambda>files_indexed.
           sync_return
             \<lparr>po_refs = ps_refs st, po_files_written = ps_files_written st,
              po_files_removed = ps_files_removed st, po_files_indexed = files_indexed,
              po_cancelled = ps_cancelled st, po_total_files = ps_total_files st,
              po_last_touched_path = ps_last_touched_path st, po_failed = failed,
              po_oversize = oversize, po_progress = ps_progress st\<rparr>)))))))"

section \<open>Chunks partition the changed files\<close>

definition range_bytes :: "nat list \<Rightarrow> nat \<Rightarrow> nat \<Rightarrow> nat" where
  "range_bytes lens a b = min (sum_list (take (b - a) (drop a lens))) USIZE_MAX"

lemma saturating_add_range:
  assumes "a \<le> i" "i < length lens"
  shows "saturating_add (range_bytes lens a i) (lens ! i) = range_bytes lens a (Suc i)"
proof -
  have "take (Suc i - a) (drop a lens) = take (i - a) (drop a lens) @ [lens ! i]"
    using assms by (simp add: Suc_diff_le take_Suc_conv_app_nth)
  then show ?thesis by (simp add: saturating_add_def range_bytes_def)
qed

text \<open>A chunk within the limits; one file may exceed the byte limit on its own.\<close>

definition chunk_ok :: "pass1_limits \<Rightarrow> nat list \<Rightarrow> nat \<times> nat \<Rightarrow> bool" where
  "chunk_ok limits lens c \<longleftrightarrow> fst c < snd c \<and> snd c \<le> length lens \<and>
     snd c - fst c \<le> max (pl_chunk_files limits) 1 \<and>
     (range_bytes lens (fst c) (snd c) \<le> pl_chunk_bytes limits \<or> snd c - fst c = 1)"

lemma plan_from_ok:
  assumes "rest = drop index lens" "index \<le> length lens" "start \<le> index" "length xs = length lens"
    "bytes = range_bytes lens start index" "start < index \<longrightarrow> chunk_ok limits lens (start, index)"
  shows "(\<forall>c \<in> set (plan_from limits start bytes index rest). chunk_ok limits lens c) \<and>
    concat (map (chunk_of xs) (plan_from limits start bytes index rest)) = drop start xs"
  using assms
proof (induction limits start bytes index rest rule: plan_from.induct)
  case (1 limits start bytes index)
  then have "index = length lens" by simp
  then show ?case using 1 by (auto simp: chunk_of_def)
next
  case (2 limits start bytes index len rest)
  then have i: "index < length lens" "len = lens ! index" "rest = drop (Suc index) lens"
    by (metis drop_all linorder_not_less list.distinct(1))
       (metis "2.prems"(1) drop_all list.distinct(1) linorder_not_less nth_via_drop,
        metis "2.prems"(1) drop_Suc list.sel(3) tl_drop)
  let ?split = "index > start \<and> (index - start \<ge> max (pl_chunk_files limits) 1 \<or>
    saturating_add bytes len > pl_chunk_bytes limits)"
  have one: "chunk_ok limits lens (index, Suc index)"
    using i(1) by (auto simp: chunk_ok_def)
  show ?case
  proof (cases ?split)
    case True
    have "saturating_add 0 len = range_bytes lens index (Suc index)"
      using saturating_add_range [of index index lens] i(1,2) by (simp add: range_bytes_def)
    then have IH: "(\<forall>c \<in> set (plan_from limits index (saturating_add 0 len) (Suc index) rest). chunk_ok limits lens c) \<and>
        concat (map (chunk_of xs) (plan_from limits index (saturating_add 0 len) (Suc index) rest)) = drop index xs"
      using i one 2(4-6) by (intro "2.IH"(1) [OF True]) auto
    have "chunk_of xs (start, index) @ drop index xs = drop start xs"
      using 2(5) by (simp add: chunk_of_def) (metis append_take_drop_id drop_drop le_add_diff_inverse2)
    with IH True 2(8) show ?thesis by simp
  next
    case False
    have b: "saturating_add bytes len = range_bytes lens start (Suc index)"
      using saturating_add_range [of start index lens] i(1,2) 2(5,7) by simp
    have "chunk_ok limits lens (start, Suc index)"
    proof (cases "start < index")
      case True
      then show ?thesis using False b i(1) by (auto simp: chunk_ok_def)
    next
      case False
      then show ?thesis using one 2(5) by simp
    qed
    then have "(\<forall>c \<in> set (plan_from limits start (saturating_add bytes len) (Suc index) rest). chunk_ok limits lens c) \<and>
        concat (map (chunk_of xs) (plan_from limits start (saturating_add bytes len) (Suc index) rest)) = drop start xs"
      using i b 2(4-6) by (intro "2.IH"(2) [OF False]) auto
    then show ?thesis unfolding plan_from.simps(2) if_not_P [OF False] .
  qed
qed

lemma plan_chunks_ok:
  "(\<forall>c \<in> set (plan_chunks file_len changed limits). chunk_ok limits (map file_len changed) c) \<and>
   concat (map (chunk_of changed) (plan_chunks file_len changed limits)) = drop 0 changed"
  unfolding plan_chunks_def by (rule plan_from_ok) (simp_all add: range_bytes_def)

lemma plan_chunks_concat: "concat (map (chunk_of changed) (plan_chunks file_len changed limits)) = changed"
  using plan_chunks_ok by simp

text \<open>
  C38. Pass 1 plans consecutive, non-empty chunks that together are exactly the changed files, each
  of at most \<open>chunk_files\<close> files (at least one) and, unless it is a single file, of at most
  \<open>chunk_bytes\<close> bytes; so pass 1 never holds more extracted rows than one such chunk.
\<close>

theorem plan_chunks_partition:
  "concat (map (chunk_of changed) (plan_chunks file_len changed limits)) = changed \<and>
   (\<forall>c \<in> set (plan_chunks file_len changed limits).
      chunk_of changed c \<noteq> [] \<and> length (chunk_of changed c) \<le> max (pl_chunk_files limits) 1 \<and>
      (min (sum_list (map file_len (chunk_of changed c))) USIZE_MAX \<le> pl_chunk_bytes limits \<or>
       length (chunk_of changed c) = 1))"
proof -
  let ?lens = "map file_len changed"
  note p = plan_chunks_ok [of file_len changed limits]
  have "chunk_of changed c \<noteq> [] \<and> length (chunk_of changed c) \<le> max (pl_chunk_files limits) 1 \<and>
      (min (sum_list (map file_len (chunk_of changed c))) USIZE_MAX \<le> pl_chunk_bytes limits \<or>
       length (chunk_of changed c) = 1)" if "chunk_ok limits ?lens c" for c
    using that by (auto simp: chunk_ok_def chunk_of_def range_bytes_def drop_map take_map)
  with p show ?thesis by auto
qed

section \<open>Counting\<close>

text \<open>The progress invariant: how many files are still to be touched, and no report ahead of it.\<close>

definition counts :: "nat \<Rightarrow> pass1_state \<Rightarrow> bool" where
  "counts remaining st \<longleftrightarrow>
     ps_files_removed st + ps_files_written st = ps_files_touched st \<and>
     (\<not> ps_cancelled st \<longrightarrow> ps_total_files st = ps_files_touched st + remaining) \<and>
     ps_files_touched st \<le> ps_total_files st \<and>
     (\<forall>p \<in> set (ps_progress st). pg_phase p = Extracting \<and> pg_files_indexed p \<le> pg_files_seen p \<and>
        pg_units_done p = pg_files_indexed p \<and> pg_units_total p = pg_files_seen p) \<and>
     sorted (map pg_files_indexed (ps_progress st)) \<and>
     (\<forall>p \<in> set (ps_progress st). pg_files_indexed p \<le> ps_files_touched st)"

lemma counts_report: "counts n st \<Longrightarrow> counts n (report observer st)"
  by (auto simp: counts_def report_def sorted_append)

lemma poll_polls: "poll observer st = (stop, st1) \<Longrightarrow> \<exists>k. st1 = st\<lparr>ps_polls := k\<rparr>"
  by (cases observer) (auto simp: poll_def intro: exI [of _ "ps_polls st"])

lemma counts_polls [simp]: "counts n (st\<lparr>ps_polls := k\<rparr>) = counts n st"
  by (simp add: counts_def)

lemma counts_cancelled: "counts n st \<Longrightarrow> counts m (st\<lparr>ps_cancelled := True\<rparr>)"
  by (simp add: counts_def)

text \<open>A property of the values a run returns, whatever the database.\<close>

definition returns :: "'a sync \<Rightarrow> ('a \<Rightarrow> bool) \<Rightarrow> bool" where
  "returns m Q \<longleftrightarrow> triple (\<lambda>_. True) m (\<lambda>a _. Q a) (\<lambda>_. True)"

lemma returnsD: "returns m Q \<Longrightarrow> m db = (commits, Inr a) \<Longrightarrow> Q a"
  unfolding returns_def by (erule tripleD(2)) auto

lemma returns_return: "Q a \<Longrightarrow> returns (sync_return a) Q"
  unfolding returns_def by (rule triple_return)

lemma returns_bind: "returns m R \<Longrightarrow> (\<And>a. R a \<Longrightarrow> returns (f a) Q) \<Longrightarrow> returns (sync_bind m f) Q"
  unfolding returns_def triple_def sync_bind_def by (simp split: prod.splits sum.splits) (metis snd_conv)

lemma returns_any: "returns m (\<lambda>_. True)"
  by (simp add: returns_def triple_def)

lemma delete_files_counts:
  "counts (length paths + n) st \<Longrightarrow> \<not> ps_cancelled st \<Longrightarrow> returns (delete_files observer paths st) (counts n)"
proof (induction paths arbitrary: st)
  case Nil
  then show ?case by (simp add: returns_return)
next
  case (Cons p paths)
  obtain stop st1 where p: "poll observer st = (stop, st1)" by fastforce
  then obtain k where k: "st1 = st\<lparr>ps_polls := k\<rparr>" using poll_polls by blast
  show ?case
  proof (cases stop)
    case True
    then show ?thesis using Cons.prems(1) by (simp add: p k returns_return counts_cancelled)
  next
    case False
    let ?st = "st1\<lparr>ps_files_removed := Suc (ps_files_removed st1), ps_files_touched := Suc (ps_files_touched st1),
      ps_last_touched_path := Some (normalize_path p)\<rparr>"
    have "counts (length paths + n) ?st" using Cons.prems by (auto simp: counts_def k)
    moreover have "\<not> ps_cancelled (report observer ?st)" using Cons.prems(2) by (simp add: report_def k)
    ultimately have "returns (delete_files observer paths (report observer ?st)) (counts n)"
      by (intro Cons.IH counts_report)
    then show ?thesis using False by (auto simp: p intro!: returns_bind [OF returns_any])
  qed
qed

lemma write_files_counts:
  "counts (length files + n) st \<Longrightarrow> \<not> ps_cancelled st \<Longrightarrow> returns (write_files observer files st) (counts n)"
proof (induction files arbitrary: st)
  case Nil
  then show ?case by (simp add: returns_return)
next
  case (Cons f files)
  obtain stop st1 where p: "poll observer st = (stop, st1)" by fastforce
  then obtain k where k: "st1 = st\<lparr>ps_polls := k\<rparr>" using poll_polls by blast
  show ?case
  proof (cases stop)
    case True
    then show ?thesis using Cons.prems(1) by (simp add: p k returns_return counts_cancelled)
  next
    case False
    let ?st = "st1\<lparr>ps_refs := ps_refs st1 @ [file_refs_of f], ps_commands := ps_commands st1 @ ef_commands (xf_rows f),
      ps_files_written := Suc (ps_files_written st1), ps_files_touched := Suc (ps_files_touched st1),
      ps_last_touched_path := Some (xf_file_path f)\<rparr>"
    have "counts (length files + n) ?st" using Cons.prems by (auto simp: counts_def k)
    moreover have "\<not> ps_cancelled (report observer ?st)" using Cons.prems(2) by (simp add: report_def k)
    ultimately have "returns (write_files observer files (report observer ?st)) (counts n)"
      by (intro Cons.IH counts_report)
    then show ?thesis using False by (auto simp: p intro!: returns_bind [OF returns_any])
  qed
qed

lemma extract_changed_files_length:
  "length (fst (extract_changed_files backend chunk)) + length (snd (extract_changed_files backend chunk)) = length chunk"
  by (induction chunk) (auto simp: extract_changed_files_def split: sum.splits)

lemma extract_chunk_counts:
  assumes "extract_chunk backend chunk st = (files, st')" "counts (length chunk + n) st" "\<not> ps_cancelled st"
  shows "counts (length files + n) st' \<and> \<not> ps_cancelled st'"
proof -
  obtain extracted errors where x: "extract_changed_files backend chunk = (extracted, errors)" by fastforce
  obtain failed oversize where "note_errors errors (ps_failed st, ps_oversize st) = (failed, oversize)" by fastforce
  with assms(1) x have e: "files = sort_key xf_path extracted"
    "st' = st\<lparr>ps_total_files := ps_total_files st - (length chunk - length extracted), ps_failed := failed,
      ps_oversize := oversize\<rparr>"
    by (auto simp: extract_chunk_def)
  have "length extracted \<le> length chunk" using extract_changed_files_length [of backend chunk] x by simp
  then show ?thesis using assms(2,3) unfolding e counts_def by simp
qed

lemma run_chunks_counts:
  "counts (length (concat chunks)) st \<Longrightarrow> returns (run_chunks observer backend chunks st) (counts 0)"
proof (induction chunks arbitrary: st)
  case Nil
  then show ?case by (simp add: returns_return)
next
  case (Cons chunk chunks)
  obtain stop st1 where p: "poll observer st = (stop, st1)" by fastforce
  then obtain k where k: "st1 = st\<lparr>ps_polls := k\<rparr>" using poll_polls by blast
  show ?case
  proof (cases "ps_cancelled st \<or> stop")
    case True
    have "counts 0 st" if "ps_cancelled st" using Cons.prems that by (simp add: counts_def)
    with True show ?thesis
      using Cons.prems by (auto simp: p k intro!: returns_return counts_cancelled)
  next
    case False
    obtain files st2 where e: "extract_chunk backend chunk st1 = (files, st2)" by fastforce
    have "counts (length files + length (concat chunks)) st2 \<and> \<not> ps_cancelled st2"
      by (rule extract_chunk_counts [OF e]) (use Cons.prems False in \<open>simp_all add: k\<close>)
    then have "returns (write_files observer files st2) (counts (length (concat chunks)))"
      by (intro write_files_counts) auto
    then have "returns (sync_bind (write_files observer files st2) (run_chunks observer backend chunks)) (counts 0)"
      by (rule returns_bind) (rule Cons.IH)
    then show ?thesis using False by (simp add: p e)
  qed
qed

text \<open>
  C37. Pass 1 counts truthfully. Every progress report shows at most as many files indexed as seen,
  the indexed count never goes down, and a run that was not cancelled has touched exactly the files
  it announces at the end: those it removed and those it wrote.
\<close>

theorem pass1_run_counts:
  assumes "pass1_run observer backend file_len limits d db = (commits, Inr out)"
  shows "(\<not> po_cancelled out \<longrightarrow> po_total_files out = po_files_written out + po_files_removed out) \<and>
    po_files_written out + po_files_removed out \<le> po_total_files out \<and>
    sorted (map pg_files_indexed (po_progress out)) \<and>
    (\<forall>p \<in> set (po_progress out). pg_files_indexed p \<le> pg_files_seen p \<and> pg_units_done p = pg_files_indexed p)"
proof -
  let ?chunks = "map (chunk_of (changed_files d)) (plan_chunks file_len (changed_files d) limits)"
  let ?Q = "\<lambda>out. (\<not> po_cancelled out \<longrightarrow> po_total_files out = po_files_written out + po_files_removed out) \<and>
    po_files_written out + po_files_removed out \<le> po_total_files out \<and>
    sorted (map pg_files_indexed (po_progress out)) \<and>
    (\<forall>p \<in> set (po_progress out). pg_files_indexed p \<le> pg_files_seen p \<and> pg_units_done p = pg_files_indexed p)"
  have chunks: "concat ?chunks = changed_files d" by (rule plan_chunks_concat)
  have start: "counts (length (df_deleted d) + length (concat ?chunks)) (report observer (pass1_start d))"
    "\<not> ps_cancelled (report observer (pass1_start d))"
    unfolding chunks by (rule counts_report) (simp_all add: counts_def pass1_start_def report_def)
  have "returns (pass1_run observer backend file_len limits d) ?Q"
    unfolding pass1_run_def Let_def
    apply (rule returns_bind [OF returns_any])
    apply (rule returns_bind [OF delete_files_counts [OF start]])
    apply (erule returns_bind [OF run_chunks_counts])
    apply (rule returns_bind [OF returns_any], clarsimp)
    apply (rule returns_bind [OF returns_any])+
    apply (rule returns_return)
    apply (auto simp: counts_def)
    done
  then show ?thesis using assms by (rule returnsD)
qed

section \<open>What pass 1 commits\<close>

definition sync_pending :: "graph_db \<Rightarrow> bool" where
  "sync_pending db \<longleftrightarrow> list_ex (\<lambda>e. fst e = SYNC_PENDING_KEY) (db_meta db)"

text \<open>
  The database differs from the base only in the files of \<open>T\<close>, whose references are gone; command
  handlers and metadata aside.
\<close>

definition touched_only :: "string set \<Rightarrow> graph_db \<Rightarrow> graph_db \<Rightarrow> bool" where
  "touched_only T base db \<longleftrightarrow>
     db_refs db = filter (\<lambda>r. rf_from_file r \<notin> T) (db_refs base) \<and>
     filter (\<lambda>f. fl_path f \<notin> T) (db_files db) = filter (\<lambda>f. fl_path f \<notin> T) (db_files base) \<and>
     filter (\<lambda>s. sy_file_path s \<notin> T) (db_symbols db) = filter (\<lambda>s. sy_file_path s \<notin> T) (db_symbols base) \<and>
     filter (\<lambda>i. im_from_file i \<notin> T) (db_imports db) = filter (\<lambda>i. im_from_file i \<notin> T) (db_imports base)"

lemma touched_only_refl: "touched_only {} db db"
  by (simp add: touched_only_def)

lemma filter_insert_eq:
  assumes "filter (\<lambda>x. f x \<noteq> p) ys = filter (\<lambda>x. f x \<noteq> p) xs" "filter (\<lambda>x. f x \<notin> T) xs = filter (\<lambda>x. f x \<notin> T) zs"
  shows "filter (\<lambda>x. f x \<notin> insert p T) ys = filter (\<lambda>x. f x \<notin> insert p T) zs"
proof -
  have split: "filter (\<lambda>x. f x \<notin> insert p T) ws = filter (\<lambda>x. f x \<notin> T) (filter (\<lambda>x. f x \<noteq> p) ws)"
    "filter (\<lambda>x. f x \<notin> insert p T) ws = filter (\<lambda>x. f x \<noteq> p) (filter (\<lambda>x. f x \<notin> T) ws)" for ws
    by (simp_all add: conj_commute)
  show ?thesis by (metis split assms)
qed

lemma touched_only_step:
  assumes "touched_only T base db" "without_file p db' = without_file p db" "filter (\<lambda>r. rf_from_file r = p) (db_refs db') = []"
  shows "touched_only (insert p T) base db'"
proof -
  have "filter (\<lambda>r. rf_from_file r \<noteq> p) (db_refs db') = db_refs db'"
    using assms(3) by (auto simp: filter_id_conv filter_empty_conv)
  moreover have "filter (\<lambda>r. rf_from_file r \<noteq> p) (db_refs db') = filter (\<lambda>r. rf_from_file r \<noteq> p) (db_refs db)"
    using arg_cong [OF assms(2), of db_refs] by simp
  ultimately have "db_refs db' = filter (\<lambda>r. rf_from_file r \<notin> insert p T) (db_refs base)"
    using assms(1) by (simp add: touched_only_def conj_commute)
  moreover have
    "filter (\<lambda>f. fl_path f \<noteq> p) (db_files db') = filter (\<lambda>f. fl_path f \<noteq> p) (db_files db)"
    "filter (\<lambda>s. sy_file_path s \<noteq> p) (db_symbols db') = filter (\<lambda>s. sy_file_path s \<noteq> p) (db_symbols db)"
    "filter (\<lambda>i. im_from_file i \<noteq> p) (db_imports db') = filter (\<lambda>i. im_from_file i \<noteq> p) (db_imports db)"
    using arg_cong [OF assms(2), of db_files] arg_cong [OF assms(2), of db_symbols] arg_cong [OF assms(2), of db_imports]
    by simp_all
  ultimately show ?thesis
    using assms(1) filter_insert_eq [of fl_path] filter_insert_eq [of sy_file_path] filter_insert_eq [of im_from_file]
    unfolding touched_only_def by metis
qed

text \<open>What holds of every database pass 1 commits: \<open>B\<close> bounds the files it may touch.\<close>

definition pass1_inv :: "string set \<Rightarrow> graph_db \<Rightarrow> graph_db \<Rightarrow> bool" where
  "pass1_inv B base db \<longleftrightarrow> store_ok db \<and> sync_pending db \<and> (\<exists>T \<subseteq> B. touched_only T base db)"

text \<open>With the files written so far among the touched and stored ones.\<close>

definition refs_fit :: "extracted_file_refs \<Rightarrow> bool" where
  "refs_fit file \<longleftrightarrow> (\<forall>r \<in> set (er_refs file). fits (rw_from_span_start r) \<and> fits (rw_from_span_end r))"

definition written_inv :: "string set \<Rightarrow> graph_db \<Rightarrow> extracted_file_refs list \<Rightarrow> graph_db \<Rightarrow> bool" where
  "written_inv B base refs db \<longleftrightarrow> store_ok db \<and> sync_pending db \<and>
     (\<exists>T \<subseteq> B. touched_only T base db \<and> er_file_path ` set refs \<subseteq> T) \<and>
     (\<forall>r \<in> set refs. file_stored db (er_file_path r) \<and> refs_fit r)"

lemma written_inv_pass1: "written_inv B base refs db \<Longrightarrow> pass1_inv B base db"
  by (auto simp: written_inv_def pass1_inv_def)

lemma unbind_empty [simp]: "unbind {} c = c"
  by (simp add: unbind_def split: option.split)

lemma delete_written_inv:
  assumes "written_inv B base [] db" "p \<in> B"
  shows "delete_file_transaction p db = Inr (without_file p db) \<and> written_inv B base [] (without_file p db)"
proof -
  have ok: "store_ok db" using assms(1) by (simp add: written_inv_def)
  obtain T where T: "T \<subseteq> B" "touched_only T base db" using assms(1) by (auto simp: written_inv_def)
  have "without_file p (without_file p db) = without_file p db"
    by (rule graph_db.equality)
       (simp_all add: without_file_def Let_def ids_in_file_def o_def filter_map)
  then have "touched_only (insert p T) base (without_file p db)"
    by (intro touched_only_step [OF T(2)]) simp_all
  moreover have "sync_pending (without_file p db)" using assms(1) by (simp add: written_inv_def sync_pending_def)
  ultimately show ?thesis
    using delete_file_row_ok [OF ok] store_ok_without_file [OF ok] T(1) assms(2)
    unfolding written_inv_def by (auto simp: delete_file_transaction_def intro!: exI [of _ "insert p T"])
qed

lemma refs_fit_extracted:
  "extracted_ok f \<Longrightarrow> refs_fit \<lparr>er_file_path = p, er_refs = ef_refs (xf_rows f), er_content_hash = h, er_mtime_ns = t\<rparr>"
  by (simp add: refs_fit_def extracted_ok_def Let_def)

lemma write_written_inv:
  assumes "written_inv B base refs db" "extracted_ok file" "xf_file_path file \<in> B"
    "write_file_transaction file db = Inr db'"
  shows "written_inv B base (refs @ [file_refs_of file]) db'"
proof -
  let ?p = "xf_file_path file"
  have ok: "store_ok db" using assms(1) by (simp add: written_inv_def)
  obtain T where T: "T \<subseteq> B" "touched_only T base db" "er_file_path ` set refs \<subseteq> T"
    using assms(1) by (auto simp: written_inv_def)
  have w: "store_ok db'" "holds_file file db'" "without_file ?p db' = without_file ?p db"
    using write_file_ok [OF ok assms(2)] assms(4) by auto
  have "touched_only (insert ?p T) base db'"
    using w(2) by (intro touched_only_step [OF T(2) w(3)]) (simp add: holds_file_def Let_def)
  moreover have "sync_pending db'"
    using arg_cong [OF w(3), of db_meta] assms(1) by (simp add: written_inv_def sync_pending_def)
  moreover have "file_stored db' q" if "file_stored db q \<or> q = ?p" for q
  proof (cases "q = ?p")
    case True
    have "pending_row file \<in> set (filter (\<lambda>f. fl_path f = ?p) (db_files db'))"
      using w(2) by (simp add: holds_file_def Let_def)
    then show ?thesis using True by (force simp: file_stored_def)
  next
    case False
    with that obtain f where "f \<in> set (db_files db)" "fl_path f = q" by (auto simp: file_stored_def)
    then have "f \<in> set (filter (\<lambda>f. fl_path f \<noteq> ?p) (db_files db))" using False by simp
    then have "f \<in> set (filter (\<lambda>f. fl_path f \<noteq> ?p) (db_files db'))"
      using arg_cong [OF w(3), of db_files] by simp
    then show ?thesis using \<open>fl_path f = q\<close> by (auto simp: file_stored_def)
  qed
  ultimately show ?thesis
    using assms(1,2,3) T w(1) unfolding written_inv_def
    by (intro conjI exI [of _ "insert ?p T"]) (auto simp: file_refs_of_def refs_fit_extracted)
qed

text \<open>What pass 1 relies on: an extraction names the file by its path, and its rows are well formed.\<close>

definition backend_ok :: "backend \<Rightarrow> bool" where
  "backend_ok backend \<longleftrightarrow>
     (\<forall>p file. extract_one backend p = Inr file \<longrightarrow> xf_file_path file = normalize_path p \<and> extracted_ok file)"

lemma poll_fields:
  assumes "poll observer st = (stop, st1)"
  shows "ps_refs st1 = ps_refs st" "ps_commands st1 = ps_commands st"
  using poll_polls [OF assms] by auto

lemma delete_files_triple:
  assumes "\<forall>p \<in> set paths. normalize_path p \<in> B" "ps_refs st = []"
  shows "triple (written_inv B base []) (delete_files observer paths st)
    (\<lambda>st. written_inv B base (ps_refs st)) (pass1_inv B base)"
  using assms
proof (induction paths arbitrary: st)
  case Nil
  then show ?case by (simp add: triple_return)
next
  case (Cons p paths)
  obtain stop st1 where p: "poll observer st = (stop, st1)" by fastforce
  have r: "ps_refs st1 = []" using poll_fields [OF p] Cons.prems(2) by simp
  let ?st = "report observer (st1\<lparr>ps_files_removed := Suc (ps_files_removed st1),
    ps_files_touched := Suc (ps_files_touched st1), ps_last_touched_path := Some (normalize_path p)\<rparr>)"
  have "triple (written_inv B base []) (commit (delete_file_transaction (normalize_path p)))
      (\<lambda>_. written_inv B base []) (pass1_inv B base)"
    using delete_written_inv [of B base _ "normalize_path p"] Cons.prems(1) written_inv_pass1
    by (intro triple_commit) fastforce
  moreover have "triple (written_inv B base []) (delete_files observer paths ?st)
      (\<lambda>st. written_inv B base (ps_refs st)) (pass1_inv B base)"
    using Cons.prems r by (intro Cons.IH) (auto simp: report_def)
  ultimately show ?case
    using r by (auto simp: p intro: triple_return triple_bind)
qed

lemma write_files_triple:
  assumes "\<forall>f \<in> set files. xf_file_path f \<in> B \<and> extracted_ok f"
  shows "triple (written_inv B base (ps_refs st)) (write_files observer files st)
    (\<lambda>st. written_inv B base (ps_refs st)) (pass1_inv B base)"
  using assms
proof (induction files arbitrary: st)
  case Nil
  then show ?case by (simp add: triple_return)
next
  case (Cons f files)
  obtain stop st1 where p: "poll observer st = (stop, st1)" by fastforce
  note r = poll_fields [OF p]
  let ?st = "report observer (st1\<lparr>ps_refs := ps_refs st1 @ [file_refs_of f],
    ps_commands := ps_commands st1 @ ef_commands (xf_rows f), ps_files_written := Suc (ps_files_written st1),
    ps_files_touched := Suc (ps_files_touched st1), ps_last_touched_path := Some (xf_file_path f)\<rparr>)"
  have rs: "ps_refs ?st = ps_refs st @ [file_refs_of f]" using r by (simp add: report_def)
  have "triple (written_inv B base (ps_refs st)) (commit (write_file_transaction f))
      (\<lambda>_. written_inv B base (ps_refs ?st)) (pass1_inv B base)"
    unfolding rs using write_written_inv [of B base "ps_refs st" _ f] Cons.prems written_inv_pass1
    by (intro triple_commit) (meson list.set_intros(1))
  moreover have "triple (written_inv B base (ps_refs ?st)) (write_files observer files ?st)
      (\<lambda>st. written_inv B base (ps_refs st)) (pass1_inv B base)"
    using Cons.prems by (intro Cons.IH) auto
  ultimately show ?case
    using r by (auto simp: p intro: triple_return triple_bind)
qed

lemma set_extracted:
  "set (fst (extract_changed_files backend chunk)) = {f. \<exists>p \<in> set chunk. extract_one backend p = Inr f}"
  by (auto simp: extract_changed_files_def set_kept image_iff res_ok_Some_iff eq_commute [of "Some _"])

lemma extract_chunk_files:
  assumes "extract_chunk backend chunk st = (files, st')" "backend_ok backend" "\<forall>p \<in> set chunk. normalize_path p \<in> B"
  shows "\<forall>f \<in> set files. xf_file_path f \<in> B \<and> extracted_ok f" "ps_refs st' = ps_refs st"
proof -
  obtain extracted errors where x: "extract_changed_files backend chunk = (extracted, errors)" by fastforce
  obtain failed oversize where "note_errors errors (ps_failed st, ps_oversize st) = (failed, oversize)" by fastforce
  with assms(1) x have e: "files = sort_key xf_path extracted"
    "st' = st\<lparr>ps_total_files := ps_total_files st - (length chunk - length extracted), ps_failed := failed,
      ps_oversize := oversize\<rparr>"
    by (auto simp: extract_chunk_def)
  have "set files = {f. \<exists>p \<in> set chunk. extract_one backend p = Inr f}"
    using set_extracted [of backend chunk] by (simp add: e x)
  with assms(2,3) show "\<forall>f \<in> set files. xf_file_path f \<in> B \<and> extracted_ok f"
    unfolding backend_ok_def by auto
  show "ps_refs st' = ps_refs st" by (simp add: e)
qed

lemma run_chunks_triple:
  assumes "backend_ok backend" "\<forall>p \<in> set (concat chunks). normalize_path p \<in> B"
  shows "triple (written_inv B base (ps_refs st)) (run_chunks observer backend chunks st)
    (\<lambda>st. written_inv B base (ps_refs st)) (pass1_inv B base)"
  using assms(2)
proof (induction chunks arbitrary: st)
  case Nil
  then show ?case by (simp add: triple_return)
next
  case (Cons chunk chunks)
  obtain stop st1 where p: "poll observer st = (stop, st1)" by fastforce
  obtain files st2 where e: "extract_chunk backend chunk st1 = (files, st2)" by fastforce
  note x = extract_chunk_files [OF e assms(1), of B]
  have "triple (written_inv B base (ps_refs st2)) (write_files observer files st2)
      (\<lambda>st. written_inv B base (ps_refs st)) (pass1_inv B base)"
    using x(1) Cons.prems by (intro write_files_triple) auto
  moreover have "triple (written_inv B base (ps_refs st3)) (run_chunks observer backend chunks st3)
      (\<lambda>st. written_inv B base (ps_refs st)) (pass1_inv B base)" for st3
    using Cons.prems by (intro Cons.IH) auto
  moreover have "ps_refs st2 = ps_refs st" using x(2) Cons.prems poll_fields [OF p] by auto
  ultimately show ?case
    using poll_fields [OF p] by (auto simp: p e intro: triple_return triple_bind)
qed

text \<open>The command transactions change only the command table.\<close>

lemma written_inv_commands:
  assumes "written_inv B base refs db" "store_ok (db\<lparr>db_commands := cs\<rparr>)"
  shows "written_inv B base refs (db\<lparr>db_commands := cs\<rparr>)"
  using assms by (simp add: written_inv_def sync_pending_def touched_only_def)

lemma insert_commands_store_ok:
  assumes "store_ok db" "insert_commands ws db = Inr db'"
  shows "store_ok db' \<and> (\<exists>cs. db' = db\<lparr>db_commands := cs\<rparr>)"
  using assms
proof (induction ws arbitrary: db)
  case Nil
  then show ?case by (intro conjI exI [of _ "db_commands db"]) simp_all
next
  case (Cons w ws)
  let ?row = "\<lambda>s. \<lparr>cm_name = wm_name w, cm_file_path = wm_file_path w, cm_span_start = s,
    cm_handler_symbol = resolved_handler_symbol db w\<rparr>"
  from Cons.prems(2) obtain s where s: "file_stored db (wm_file_path w)" "wm_name w \<notin> set (map cm_name (db_commands db))"
    "insert_commands ws (db\<lparr>db_commands := db_commands db @ [?row s]\<rparr>) = Inr db'"
    by (auto simp: Let_def res_simps split: if_splits)
  have "store_ok (db\<lparr>db_commands := db_commands db @ [?row s]\<rparr>)"
    using Cons.prems(1) s(1,2) resolved_handler_stored
    by (intro store_ok_commands) (auto simp: store_defs)
  from Cons.IH [OF this s(3)] show ?case by auto
qed

lemma rebind_unresolved_triple:
  "triple (written_inv B base refs) (rebind_unresolved_commands backend failed oversize)
     (\<lambda>_. written_inv B base refs) (pass1_inv B base)"
proof -
  have "written_inv B base refs (rebind_commands_transaction ws db)" if "written_inv B base refs db" for ws db
  proof -
    have "store_ok db" using that by (simp add: written_inv_def)
    with rebind_commands_ok [of db ws] show ?thesis
      using written_inv_commands [OF that, of "db_commands (rebind_commands_transaction ws db)"] by metis
  qed
  then have "triple (written_inv B base refs) (commit (\<lambda>db. Inr (rebind_commands_transaction ws db)))
      (\<lambda>_. written_inv B base refs) (pass1_inv B base)" for ws
    using written_inv_pass1 by (intro triple_commit) blast
  then show ?thesis
    unfolding rebind_unresolved_commands_def Let_def
    by (intro triple_bind [where R = "\<lambda>_. written_inv B base refs"] triple_read)
       (auto split: prod.splits intro!: triple_return triple_bind [where R = "\<lambda>_. written_inv B base refs"])
qed

lemma insert_all_commands_triple:
  "triple (written_inv B base refs) (insert_all_commands ws) (\<lambda>_. written_inv B base refs) (pass1_inv B base)"
proof -
  have "written_inv B base refs db'" if "written_inv B base refs db" "insert_commands ws db = Inr db'" for db db'
  proof -
    have "store_ok db" using that(1) by (simp add: written_inv_def)
    from insert_commands_store_ok [OF this that(2)] written_inv_commands [OF that(1)] show ?thesis by auto
  qed
  then have "triple (written_inv B base refs) (commit (insert_commands ws)) (\<lambda>_. written_inv B base refs) (pass1_inv B base)"
    using written_inv_pass1 by (intro triple_commit) blast
  moreover have "insert_commands_transaction ws = insert_commands ws"
    by (cases ws) (simp_all add: insert_commands_transaction_def fun_eq_iff)
  ultimately show ?thesis by (simp add: insert_all_commands_def triple_return)
qed

text \<open>The files a diff allows pass 1 to touch.\<close>

definition diff_files :: "diff \<Rightarrow> string set" where
  "diff_files d = set (map normalize_path (df_modified d @ df_new d @ df_deleted d))"

lemma mark_pending_triple:
  assumes "store_ok base"
  shows "triple (\<lambda>db. db = base) mark_sync_pending (\<lambda>_. written_inv B base []) (pass1_inv B base)"
proof -
  have "written_inv B base [] (set_meta SYNC_PENDING_KEY ''1'' base)"
    using assms touched_only_refl [of base]
    by (auto simp: written_inv_def sync_pending_def set_meta_def store_defs touched_only_def)
  then show ?thesis unfolding mark_sync_pending_def using written_inv_pass1 by (intro triple_commit) auto
qed

lemma pass1_run_triple:
  assumes "backend_ok backend" "store_ok base"
  shows "triple (\<lambda>db. db = base) (pass1_run observer backend file_len limits d)
    (\<lambda>out. written_inv (diff_files d) base (po_refs out)) (pass1_inv (diff_files d) base)"
proof -
  let ?B = "diff_files d"
  note mark = mark_pending_triple [OF assms(2), of ?B]
  have st: "ps_refs (report observer (pass1_start d)) = []" by (simp add: report_def pass1_start_def)
  have del: "\<forall>p \<in> set (df_deleted d). normalize_path p \<in> ?B" by (simp add: diff_files_def)
  have ch: "\<forall>p \<in> set (concat (map (chunk_of (changed_files d)) (plan_chunks file_len (changed_files d) limits))).
      normalize_path p \<in> ?B"
    unfolding plan_chunks_concat by (auto simp: changed_files_def diff_files_def)
  show ?thesis
    unfolding pass1_run_def Let_def
    apply (rule triple_bind [OF mark])
    apply (rule triple_bind [OF delete_files_triple [OF del st]])
    apply (rule triple_bind [OF run_chunks_triple [OF assms(1) ch]])
    apply (rule triple_bind [OF rebind_unresolved_triple], clarsimp)
    apply (rule triple_bind [OF insert_all_commands_triple])
    apply (rule triple_bind [OF triple_read [where Q = "\<lambda>_. written_inv ?B base (ps_refs _)"]], assumption)
    apply (rule triple_return, simp)
    done
qed


definition demo_backend :: backend where
  "demo_backend p = (if p = [''src'', ''a.rs''] then Returned (Inr demo_extraction) else Panicked ''boom'')"

lemma demo_backend_ok: "backend_ok demo_backend"
proof -
  have "xf_file_path demo_extraction = normalize_path [''src'', ''a.rs'']"
    by (simp add: demo_extraction_def normalize_path_def)
  then show ?thesis
    using demo_extraction_ok by (auto simp: backend_ok_def extract_one_def demo_backend_def)
qed

definition demo_diff :: diff where
  "demo_diff = \<lparr>df_unchanged = [], df_modified = [], df_new = [[''src'', ''a.rs''], [''src'', ''b.rs'']],
     df_deleted = [[''old.rs'']], df_oversize = [], df_failed = []\<rparr>"

definition demo_pass1 :: "pass1_output sync" where
  "demo_pass1 = pass1_run (Some (\<lambda>n. False)) demo_backend (\<lambda>_. 40) default_limits demo_diff"

definition demo_pass1_as_expected :: bool where
  "demo_pass1_as_expected =
     (case demo_pass1 empty_db of
        (commits, Inr out) \<Rightarrow> length commits = 3 \<and> po_files_written out = 1 \<and> po_files_removed out = 1 \<and>
          po_total_files out = 2 \<and> map sf_error_kind (po_failed out) = [''panic''] \<and> \<not> po_cancelled out
      | _ \<Rightarrow> False)"

lemma demo_pass1_runs: demo_pass1_as_expected
  by code_simp

lemma demo_pass1_run:
  obtains commits out where "demo_pass1 empty_db = (commits, Inr out)" "length commits = 3" "po_files_written out = 1"
    "po_files_removed out = 1" "\<not> po_cancelled out"
  using demo_pass1_runs unfolding demo_pass1_as_expected_def by (auto split: prod.splits sum.splits)

theorem pass1_run_counts_witness:
  "\<exists>commits out. demo_pass1 empty_db = (commits, Inr out) \<and> po_files_written out = 1 \<and> po_files_removed out = 1 \<and>
     po_total_files out = 2"
proof -
  obtain commits out where *: "demo_pass1 empty_db = (commits, Inr out)" "po_files_written out = 1"
    "po_files_removed out = 1" "\<not> po_cancelled out" by (rule demo_pass1_run)
  from pass1_run_counts [OF *(1) [unfolded demo_pass1_def]] * show ?thesis by auto
qed


theorem plan_chunks_partition_witness:
  "concat (map (chunk_of [[''a''], [''b''], [''c'']]) (plan_chunks (\<lambda>_. 5) [[''a''], [''b''], [''c'']]
       \<lparr>pl_chunk_files = 9, pl_chunk_bytes = 10\<rparr>)) = [[''a''], [''b''], [''c'']] \<and>
   plan_chunks (\<lambda>_. 5) [[''a''], [''b''], [''c'']] \<lparr>pl_chunk_files = 9, pl_chunk_bytes = 10\<rparr> = [(0, 2), (2, 3)]"
proof
  show "concat (map (chunk_of [[''a''], [''b''], [''c'']]) (plan_chunks (\<lambda>_. 5) [[''a''], [''b''], [''c'']]
       \<lparr>pl_chunk_files = 9, pl_chunk_bytes = 10\<rparr>)) = [[''a''], [''b''], [''c'']]"
    using plan_chunks_partition by blast
  show "plan_chunks (\<lambda>_. 5) [[''a''], [''b''], [''c'']] \<lparr>pl_chunk_files = 9, pl_chunk_bytes = 10\<rparr> = [(0, 2), (2, 3)]"
    by (simp add: plan_chunks_def saturating_add_def USIZE_MAX_def)
qed

end
