(* ===== verification/Sync_Pass2.thy ===== *)
theory Sync_Pass2
  imports Resolver Sync_Pass1
begin

text \<open>
  Pass 2 of a sync (\<open>crates/orbit-graph/src/sync/pass2.rs\<close>): the transaction that rewrites the
  references of the files pass 1 wrote, re-resolves the references elsewhere that may have changed
  meaning, and makes the written files current.

  The resolver reads symbols, imports and the files' languages, which the transaction does not
  change; the model hands it the database at hand. The clock's reading is a parameter, as the text
  stored in \<open>meta\<close> or the error of reading it.
\<close>

section \<open>What changed files define\<close>

record defined_symbol =
  ds_name :: string
  ds_qualified :: string
  ds_kind :: string
  ds_id :: int

definition defined_symbol_of :: "symbol_row \<Rightarrow> defined_symbol" where
  "defined_symbol_of s = \<lparr>ds_name = sy_name s, ds_qualified = sy_qualified s, ds_kind = sy_kind s, ds_id = sy_id s\<rparr>"

definition defined_symbols :: "graph_db \<Rightarrow> string \<Rightarrow> defined_symbol list" where
  "defined_symbols db file_path =
     map defined_symbol_of
       (sort_key (\<lambda>s. (sy_name s, sy_qualified s, sy_kind s, sy_id s))
         (filter (\<lambda>s. sy_file_path s = file_path) (db_symbols db)))"

definition has_reexports :: "graph_db \<Rightarrow> string \<Rightarrow> bool" where
  "has_reexports db file_path \<longleftrightarrow>
     list_ex (\<lambda>i. im_from_file i = file_path \<and> im_reexport_module i \<noteq> None) (db_imports db)"

record definitions =
  dn_by_file :: "(string, defined_symbol list) btree_map"
  dn_has_reexports :: bool

definition definitions_load :: "graph_db \<Rightarrow> string list \<Rightarrow> definitions" where
  "definitions_load db file_paths =
     \<lparr>dn_by_file = fold (\<lambda>p. btree_insert p (defined_symbols db p)) file_paths [],
      dn_has_reexports = list_ex (has_reexports db) file_paths\<rparr>"

section \<open>The dependents of a change\<close>

record dependents =
  dp_names :: "string list"
  dp_replaced :: "(int, string) btree_map"
  dp_changed_impl_traits :: "string list"

definition same_identity :: "defined_symbol \<Rightarrow> defined_symbol \<Rightarrow> bool" where
  "same_identity symbol other \<longleftrightarrow> ds_name other = ds_name symbol \<and> ds_qualified other = ds_qualified symbol"

definition keeps_meaning :: "defined_symbol \<Rightarrow> defined_symbol list \<Rightarrow> defined_symbol list \<Rightarrow> bool" where
  "keeps_meaning symbol old new \<longleftrightarrow>
     (case List.find (\<lambda>other. ds_id other = ds_id symbol) new of
        None \<Rightarrow> False
      | Some now \<Rightarrow>
          ds_name now = ds_name symbol \<and> ds_qualified now = ds_qualified symbol \<and> ds_kind now = ds_kind symbol \<and>
          length (filter (same_identity symbol) old) = 1 \<and> length (filter (same_identity symbol) new) = 1)"

definition definitions_by_name :: "defined_symbol list \<Rightarrow> (string, (string \<times> string) list) btree_map" where
  "definitions_by_name symbols =
     fold (\<lambda>s by_name.
         btree_insert (ds_name s)
           ((case map_of by_name (ds_name s) of Some ds \<Rightarrow> ds | None \<Rightarrow> []) @ [(ds_qualified s, ds_kind s)]) by_name)
       symbols []"

definition prefixes_of :: "(string \<Rightarrow> bool) \<Rightarrow> string \<Rightarrow> defined_symbol list \<Rightarrow> string list" where
  "prefixes_of ualnum file_path symbols =
     module_prefixes ualnum file_path (map (\<lambda>s. (ds_qualified s, ds_name s)) symbols)"

definition changed_names ::
  "(string \<Rightarrow> bool) \<Rightarrow> string \<Rightarrow> defined_symbol list \<Rightarrow> defined_symbol list \<Rightarrow> string list" where
  "changed_names ualnum file_path old new =
     (if prefixes_of ualnum file_path old \<noteq> prefixes_of ualnum file_path new
      then btree_set (map ds_name (old @ new))
      else let old_by_name = definitions_by_name old; new_by_name = definitions_by_name new in
           btree_set (filter (\<lambda>name. map_of old_by_name name \<noteq> map_of new_by_name name)
             (map fst old_by_name @ map fst new_by_name)))"

definition add_file ::
  "(string \<Rightarrow> bool) \<Rightarrow> string \<Rightarrow> defined_symbol list \<Rightarrow> defined_symbol list \<Rightarrow> dependents \<Rightarrow> dependents" where
  "add_file ualnum file_path old new deps =
     (let names = changed_names ualnum file_path old new in
      \<lparr>dp_names = btree_set (dp_names deps @ names),
       dp_replaced = fold (\<lambda>s. btree_insert (ds_id s) (ds_name s))
         (filter (\<lambda>s. \<not> keeps_meaning s old new) old) (dp_replaced deps),
       dp_changed_impl_traits = btree_set (dp_changed_impl_traits deps @
         kept (map (\<lambda>s. if ds_kind s = ''impl'' \<and> ds_name s \<in> set names then impl_trait_name (ds_qualified s)
                        else None) (old @ new)))\<rparr>)"

definition trait_member_names :: "(string \<Rightarrow> bool) \<Rightarrow> graph_db \<Rightarrow> string \<Rightarrow> string list" where
  "trait_member_names ualnum db trait_name =
     btree_set (map sy_name (filter (\<lambda>s.
         sy_kind s \<noteq> ''impl'' \<and> str_contains (trait_name @ sep) (sy_qualified s) \<and>
         (case member_parse ualnum (sy_qualified s) of
            None \<Rightarrow> False
          | Some member \<Rightarrow> \<not> mt_bracketed member \<and> mt_type_name member = trait_name)) (db_symbols db)))"

definition dependents_between ::
  "(string \<Rightarrow> bool) \<Rightarrow> graph_db \<Rightarrow> definitions \<Rightarrow> string list \<Rightarrow> dependents" where
  "dependents_between ualnum db before rewritten_files =
     (let files = btree_set (map fst (dn_by_file before) @ rewritten_files);
          deps = fold (\<lambda>file_path.
              add_file ualnum file_path
                (case map_of (dn_by_file before) file_path of Some old \<Rightarrow> old | None \<Rightarrow> [])
                (defined_symbols db file_path))
            files \<lparr>dp_names = [], dp_replaced = [], dp_changed_impl_traits = []\<rparr>
      in deps\<lparr>dp_names := btree_set (dp_names deps @
                concat (map (trait_member_names ualnum db) (dp_changed_impl_traits deps))),
              dp_changed_impl_traits := []\<rparr>)"

section \<open>Stored references\<close>

text \<open>\<open>StoredRef::from_row\<close>: the resolution inputs stored with a reference.\<close>

definition raw_of_row :: "ref_row \<Rightarrow> raw_ref" where
  "raw_of_row r =
     \<lparr>rw_from_file = rf_from_file r, rw_from_span_start = nat (rf_from_span_start r),
      rw_from_span_end = nat (rf_from_span_end r), rw_target_name = rf_target_name r,
      rw_target_qualified = rf_extracted_qualified r, rw_kind = rf_kind r, rw_confidence = rf_confidence r,
      rw_unresolved_receiver = rf_unresolved_receiver r, rw_spelled_path = rf_spelled_path r\<rparr>"

definition holds_resolution :: "ref_row \<Rightarrow> resolved_ref \<Rightarrow> bool" where
  "holds_resolution row resolved \<longleftrightarrow>
     rf_target_qualified row = rr_target_qualified resolved \<and>
     rf_target_symbol_hint row = rr_target_symbol_hint resolved \<and> rf_confidence row = rr_confidence resolved"

definition set_resolution :: "resolved_ref \<Rightarrow> ref_row \<Rightarrow> ref_row" where
  "set_resolution resolved row =
     row\<lparr>rf_target_qualified := rr_target_qualified resolved,
         rf_target_symbol_hint := rr_target_symbol_hint resolved, rf_confidence := rr_confidence resolved\<rparr>"

definition update_ref :: "int \<Rightarrow> resolved_ref \<Rightarrow> graph_db \<Rightarrow> graph_db" where
  "update_ref ref_id resolved db =
     db\<lparr>db_refs := map (\<lambda>r. if rf_id r = ref_id then set_resolution resolved r else r) (db_refs db)\<rparr>"

definition refresh_row :: "ref_row \<times> resolved_ref \<Rightarrow> graph_db \<times> nat \<Rightarrow> graph_db \<times> nat" where
  "refresh_row = (\<lambda>(row, resolved) (db, updated).
     if holds_resolution row resolved then (db, updated)
     else (update_ref (rf_id row) resolved db, Suc updated))"

text \<open>The resolver over the transaction's database; the package lookup reads manifests on disk.\<close>

record resolve_env =
  re_package_for_file :: "string \<Rightarrow> package_identity option"
  re_ualnum :: "string \<Rightarrow> bool"

definition resolver_on :: "resolve_env \<Rightarrow> graph_db \<Rightarrow> resolver" where
  "resolver_on env db = \<lparr>rs_tx = db, rs_package_for_file = re_package_for_file env, rs_ualnum = re_ualnum env\<rparr>"

definition re_resolve_stored ::
  "resolve_env \<Rightarrow> string \<Rightarrow> ref_row list \<Rightarrow> graph_db \<times> nat \<Rightarrow> (graph_db \<times> nat) graph_result" where
  "re_resolve_stored env from_file stored = (\<lambda>(db, updated).
     res_map (\<lambda>resolved. fold refresh_row (zip stored resolved) (db, updated))
       (resolve_file (resolver_on env db) from_file (map raw_of_row stored)))"

fun refresh_files ::
  "resolve_env \<Rightarrow> (string \<times> ref_row list) list \<Rightarrow> graph_db \<times> nat \<Rightarrow> (graph_db \<times> nat) graph_result" where
  "refresh_files env [] st = Inr st"
| "refresh_files env ((from_file, stored) # by_file) st =
     res_bind (re_resolve_stored env from_file stored st) (refresh_files env by_file)"

definition rows_by_id :: "(ref_row \<Rightarrow> bool) \<Rightarrow> graph_db \<Rightarrow> ref_row list" where
  "rows_by_id P db = sort_key rf_id (filter P (db_refs db))"

definition push_by_file :: "ref_row \<Rightarrow> (string, ref_row list) btree_map \<Rightarrow> (string, ref_row list) btree_map" where
  "push_by_file row by_file =
     btree_insert (rf_from_file row)
       ((case map_of by_file (rf_from_file row) of Some rows \<Rightarrow> rows | None \<Rightarrow> []) @ [row]) by_file"

definition depends_on :: "dependents \<Rightarrow> ref_row \<Rightarrow> bool" where
  "depends_on deps row \<longleftrightarrow> rf_target_name row \<in> set (dp_names deps) \<or>
     (case rf_target_symbol_hint row of None \<Rightarrow> False | Some hint \<Rightarrow> map_of (dp_replaced deps) hint \<noteq> None)"

definition dependent_rows :: "dependents \<Rightarrow> string list \<Rightarrow> graph_db \<Rightarrow> (string, ref_row list) btree_map" where
  "dependent_rows deps rewritten_files db =
     (let lookup_names = btree_set (dp_names deps @ map snd (dp_replaced deps)) in
      fold (\<lambda>name by_file.
          fold (\<lambda>row by_file.
              if depends_on deps row \<and> rf_from_file row \<notin> set rewritten_files then push_by_file row by_file
              else by_file)
            (rows_by_id (\<lambda>r. rf_target_name r = name) db) by_file)
        lookup_names [])"

definition refresh_dependent_refs ::
  "resolve_env \<Rightarrow> dependents \<Rightarrow> string list \<Rightarrow> graph_db \<Rightarrow> (graph_db \<times> nat) graph_result" where
  "refresh_dependent_refs env deps rewritten_files db =
     refresh_files env (dependent_rows deps rewritten_files db) (db, 0)"

fun refresh_from ::
  "resolve_env \<Rightarrow> string list \<Rightarrow> string list \<Rightarrow> graph_db \<times> nat \<Rightarrow> (graph_db \<times> nat) graph_result" where
  "refresh_from env rewritten_files [] st = Inr st"
| "refresh_from env rewritten_files (from_file # files) st =
     (if from_file \<in> set rewritten_files then refresh_from env rewritten_files files st
      else res_bind (re_resolve_stored env from_file (rows_by_id (\<lambda>r. rf_from_file r = from_file) (fst st)) st)
             (refresh_from env rewritten_files files))"

definition refresh_all_refs ::
  "resolve_env \<Rightarrow> string list \<Rightarrow> graph_db \<Rightarrow> (graph_db \<times> nat) graph_result" where
  "refresh_all_refs env rewritten_files db =
     refresh_from env rewritten_files (btree_set (map rf_from_file (db_refs db))) (db, 0)"

section \<open>Rewriting the files pass 1 wrote\<close>

definition mark_current :: "extracted_file_refs \<Rightarrow> graph_db \<Rightarrow> graph_db" where
  "mark_current file db =
     db\<lparr>db_files := map (\<lambda>f. if fl_path f = er_file_path file
                             then f\<lparr>fl_content_hash := er_content_hash file, fl_mtime_ns := er_mtime_ns file\<rparr>
                             else f) (db_files db)\<rparr>"

definition delete_refs_for_file :: "string \<Rightarrow> graph_db \<Rightarrow> graph_db" where
  "delete_refs_for_file from_file db = db\<lparr>db_refs := filter (\<lambda>r. rf_from_file r \<noteq> from_file) (db_refs db)\<rparr>"

definition insert_ref :: "string \<Rightarrow> raw_ref \<Rightarrow> resolved_ref \<Rightarrow> graph_db \<Rightarrow> graph_db graph_result" where
  "insert_ref from_file r resolved db =
     res_bind (usize_to_i64 ''convert ref span start'' (rw_from_span_start r)) (\<lambda>span_start.
     res_bind (usize_to_i64 ''convert ref span end'' (rw_from_span_end r)) (\<lambda>span_end.
       if \<not> file_stored db from_file then Inl (Sqlite ''insert resolved ref row'')
       else Inr (db\<lparr>db_refs := db_refs db @
              [\<lparr>rf_id = next_rowid (map rf_id (db_refs db)), rf_from_file = from_file,
                rf_from_span_start = span_start, rf_from_span_end = span_end, rf_target_name = rw_target_name r,
                rf_target_qualified = rr_target_qualified resolved,
                rf_target_symbol_hint = rr_target_symbol_hint resolved, rf_kind = rw_kind r,
                rf_confidence = rr_confidence resolved, rf_extracted_qualified = rw_target_qualified r,
                rf_unresolved_receiver = rw_unresolved_receiver r, rf_spelled_path = rw_spelled_path r\<rparr>]\<rparr>)))"

fun insert_refs :: "string \<Rightarrow> (raw_ref \<times> resolved_ref) list \<Rightarrow> graph_db \<Rightarrow> graph_db graph_result" where
  "insert_refs from_file [] db = Inr db"
| "insert_refs from_file ((r, resolved) # rest) db =
     res_bind (insert_ref from_file r resolved db) (insert_refs from_file rest)"

definition rewrite_file :: "resolve_env \<Rightarrow> extracted_file_refs \<Rightarrow> graph_db \<Rightarrow> graph_db graph_result" where
  "rewrite_file env file db =
     (let db1 = mark_current file (delete_refs_for_file (er_file_path file) db) in
      res_bind (resolve_file (resolver_on env db1) (er_file_path file) (er_refs file)) (\<lambda>resolved.
        insert_refs (er_file_path file) (zip (er_refs file) resolved) db1))"

fun rewrite_files :: "resolve_env \<Rightarrow> extracted_file_refs list \<Rightarrow> graph_db \<Rightarrow> graph_db graph_result" where
  "rewrite_files env [] db = Inr db"
| "rewrite_files env (file # files) db = res_bind (rewrite_file env file db) (rewrite_files env files)"

section \<open>The transaction\<close>

datatype reresolve = Dependents definitions | All

definition update_sync_meta :: "sync_mode \<Rightarrow> string graph_result \<Rightarrow> graph_db \<Rightarrow> graph_db graph_result" where
  "update_sync_meta mode now db =
     (let key = (case mode of Auto \<Rightarrow> ''last_incremental_at'' | Full \<Rightarrow> ''last_full_build_at'') in
      res_map (\<lambda>text. db\<lparr>db_meta := map (\<lambda>(k, v). (k, if k = key then text else v)) (db_meta db)\<rparr>) now)"

definition clear_sync_pending :: "graph_db \<Rightarrow> graph_db" where
  "clear_sync_pending db = db\<lparr>db_meta := filter (\<lambda>e. fst e \<noteq> SYNC_PENDING_KEY) (db_meta db)\<rparr>"

definition reexports_changed :: "definitions \<Rightarrow> string list \<Rightarrow> graph_db \<Rightarrow> bool" where
  "reexports_changed before rewritten_files db \<longleftrightarrow>
     dn_has_reexports before \<or> list_ex (has_reexports db) (map fst (dn_by_file before) @ rewritten_files)"

definition reresolve_refs ::
  "resolve_env \<Rightarrow> reresolve \<Rightarrow> string list \<Rightarrow> graph_db \<Rightarrow> (graph_db \<times> nat) graph_result" where
  "reresolve_refs env reresolve rewritten_files db =
     (case reresolve of
        Dependents before \<Rightarrow>
          if reexports_changed before rewritten_files db then refresh_all_refs env rewritten_files db
          else refresh_dependent_refs env (dependents_between (re_ualnum env) db before rewritten_files)
                 rewritten_files db
      | All \<Rightarrow> refresh_all_refs env rewritten_files db)"

definition pass2_run ::
  "resolve_env \<Rightarrow> sync_mode \<Rightarrow> extracted_file_refs list \<Rightarrow> reresolve \<Rightarrow> string graph_result \<Rightarrow> graph_db \<Rightarrow>
     graph_db graph_result" where
  "pass2_run env mode refs_by_file reresolve now db =
     (let rewritten_files = btree_set (map er_file_path refs_by_file) in
      res_bind (rewrite_files env refs_by_file db) (\<lambda>db1.
      res_bind (reresolve_refs env reresolve rewritten_files db1) (\<lambda>(db2, updated).
      res_bind (update_sync_meta mode now db2) (\<lambda>db3.
        Inr (clear_sync_pending db3)))))"

section \<open>What resolution reads\<close>

text \<open>
  Resolution reads the symbol and import rows and the path and language of the file rows. Two
  databases that agree there resolve every reference alike, whatever their references, hashes and
  modification times are.
\<close>

definition file_langs :: "graph_db \<Rightarrow> (string \<times> string) list" where
  "file_langs db = map (\<lambda>f. (fl_path f, fl_lang f)) (db_files db)"

definition same_inputs :: "graph_db \<Rightarrow> graph_db \<Rightarrow> bool" where
  "same_inputs db db' \<longleftrightarrow>
     db_symbols db' = db_symbols db \<and> db_imports db' = db_imports db \<and> file_langs db' = file_langs db"

lemma same_inputs_refl [simp]: "same_inputs db db"
  by (simp add: same_inputs_def)

lemma same_inputs_sym: "same_inputs db db' \<Longrightarrow> same_inputs db' db"
  by (simp add: same_inputs_def)

lemma same_inputs_trans [trans]: "same_inputs a b \<Longrightarrow> same_inputs b c \<Longrightarrow> same_inputs a c"
  by (simp add: same_inputs_def)

lemma same_inputs_updates [simp]:
  "same_inputs db (db\<lparr>db_refs := x\<rparr>)" "same_inputs db (db\<lparr>db_meta := y\<rparr>)"
  "same_inputs db (mark_current file db)"
  by (auto simp: same_inputs_def file_langs_def mark_current_def)

lemma langs_of_file:
  "map fl_lang (filter (\<lambda>f. fl_path f = p) (db_files db)) = map snd (filter (\<lambda>x. fst x = p) (file_langs db))"
  by (simp add: file_langs_def filter_map o_def)

definition file_language :: "graph_db \<Rightarrow> string \<Rightarrow> string option" where
  "file_language db path = map_option fl_lang (first_row (filter (\<lambda>f. fl_path f = path) (db_files db)))"

lemma first_row_map: "first_row (map f xs) = map_option f (first_row xs)"
  by (cases xs) auto

lemma file_language_alt: "file_language db path = first_row (map snd (filter (\<lambda>x. fst x = path) (file_langs db)))"
  unfolding file_language_def langs_of_file [symmetric] first_row_map ..

lemma file_stored_alt: "file_stored db path \<longleftrightarrow> path \<in> fst ` set (file_langs db)"
  by (force simp: file_stored_def file_langs_def)

lemma file_language_stored: "file_stored db path \<longleftrightarrow> file_language db path \<noteq> None"
proof -
  have "file_language db path = None \<longleftrightarrow> filter (\<lambda>x. fst x = path) (file_langs db) = []"
    unfolding file_language_alt by (cases "filter (\<lambda>x. fst x = path) (file_langs db)") simp_all
  then show ?thesis by (auto simp: file_stored_alt filter_empty_conv)
qed

lemma same_inputs_stored: "same_inputs db db' \<Longrightarrow> file_stored db' = file_stored db"
  by (rule ext) (simp add: file_stored_alt same_inputs_def)

lemma same_inputs_language: "same_inputs db db' \<Longrightarrow> file_language db' = file_language db"
  by (rule ext) (simp add: file_language_alt same_inputs_def)

locale same_resolver_inputs =
  fixes env :: resolve_env and db db' :: graph_db
  assumes same: "same_inputs db db'"
begin

abbreviation "rs \<equiv> resolver_on env db"
abbreviation "rs' \<equiv> resolver_on env db'"

lemma parts [simp]:
  "rs_ualnum (resolver_on env d) = re_ualnum env" "rs_package_for_file (resolver_on env d) = re_package_for_file env"
  "rs_tx (resolver_on env d) = d" "db_symbols db' = db_symbols db" "db_imports db' = db_imports db"
  using same by (simp_all add: resolver_on_def same_inputs_def)

lemma candidates [simp]: "symbols_by_name rs' = symbols_by_name rs"
proof -
  have "map (\<lambda>f. (s, fl_lang f)) (filter (\<lambda>f. fl_path f = sy_file_path s) (db_files db')) =
      map (\<lambda>f. (s, fl_lang f)) (filter (\<lambda>f. fl_path f = sy_file_path s) (db_files db))" for s :: symbol_row
  proof -
    have "map (Pair s) (map fl_lang (filter (\<lambda>f. fl_path f = sy_file_path s) (db_files db'))) =
        map (Pair s) (map fl_lang (filter (\<lambda>f. fl_path f = sy_file_path s) (db_files db)))"
      using same unfolding langs_of_file by (simp add: same_inputs_def)
    then show ?thesis by (simp add: o_def)
  qed
  then show ?thesis unfolding symbols_by_name_def parts by (intro ext) simp
qed

lemma tables [simp]:
  "module_prefixes_for_file rs' = module_prefixes_for_file rs"
  "symbols_in_file_by_name db' = symbols_in_file_by_name db"
  "imports_for_file db' = imports_for_file db" "trait_impls_of rs' = trait_impls_of rs"
  unfolding module_prefixes_for_file_def [abs_def] symbols_in_file_by_name_def [abs_def]
    imports_for_file_def [abs_def] trait_impls_of_def [abs_def] trait_impl_symbols_def [abs_def] parts
  by (rule refl)+

lemma reexports [simp]: "reexports_of rs' = reexports_of rs"
proof -
  have "list_ex (\<lambda>f. fl_path f = p \<and> fl_lang f = ''rust'') (db_files d) \<longleftrightarrow> (p, ''rust'') \<in> set (file_langs d)" for p d
    by (force simp: list_ex_iff file_langs_def)
  moreover have "file_langs db' = file_langs db" using same by (simp add: same_inputs_def)
  ultimately have "list_ex (\<lambda>f. fl_path f = p \<and> fl_lang f = ''rust'') (db_files db') =
      list_ex (\<lambda>f. fl_path f = p \<and> fl_lang f = ''rust'') (db_files db)" for p by simp
  then have "reexport_rows db' = reexport_rows db" unfolding reexport_rows_def parts by (simp only:)
  then show ?thesis by (simp add: fun_eq_iff reexports_of_def)
qed

lemma places [simp]:
  "candidate_matches_qualified rs' = candidate_matches_qualified rs"
  "candidate_matches_module rs' = candidate_matches_module rs"
  "candidate_shares_module rs' = candidate_shares_module rs"
  "candidate_within_module rs' = candidate_within_module rs"
  unfolding candidate_matches_qualified_def [abs_def] candidate_matches_module_def [abs_def]
    candidate_shares_module_def [abs_def] candidate_within_module_def [abs_def] tables by (rule refl)+

lemma matches [simp]:
  "import_matches rs' = import_matches rs" "resolve_import rs' = resolve_import rs"
  "unique_qualified_match rs' = unique_qualified_match rs" "resolve_qualified rs' = resolve_qualified rs"
  unfolding resolve_import_def [abs_def] import_matches_def [abs_def] resolve_qualified_def [abs_def]
    unique_qualified_match_def [abs_def] parts candidates places by (rule refl)+

lemma rungs [simp]:
  "resolve_exact rs' = resolve_exact rs" "resolve_same_module rs' = resolve_same_module rs"
  unfolding resolve_exact_def [abs_def] resolve_same_module_def [abs_def] parts tables candidates places
  by (rule refl)+

lemma hops [simp]: "reexport_hops rs' = reexport_hops rs"
  unfolding reexport_hops_def [abs_def] reexports ..

lemma reexport_loop_same:
  "r = rs \<Longrightarrow> reexport_loop rs' initial pending visited found = reexport_loop r initial pending visited found"
proof (induction r initial pending visited found rule: reexport_loop.induct)
  case (2 r initial path pending visited found)
  show ?case
  proof (cases "path \<in> set visited \<or> length visited \<ge> REEXPORT_CAP")
    case True
    then show ?thesis using 2 by (auto simp: reexport_loop.simps)
  next
    case False
    then show ?thesis using 2(2) [OF _ _ refl \<open>r = rs\<close>] \<open>r = rs\<close>
      by (simp add: reexport_loop.simps Let_def split del: if_split cong: if_cong option.case_cong)
  qed
qed (simp add: reexport_loop.simps)

lemma type_scopes [simp]:
  "type_scope rs' = type_scope rs" "scope_item_admits rs' = scope_item_admits rs"
  "member_within_scope rs' = member_within_scope rs" "type_members rs' = type_members rs"
  unfolding member_within_scope_def [abs_def] type_scope_def [abs_def] scope_item_admits_def [abs_def]
    type_members_def [abs_def] parts candidates places by (rule refl)+

lemma picks [simp]:
  "pick_scoped rs' = pick_scoped rs" "pick_unscoped rs' = pick_unscoped rs"
  "resolve_trait_default rs' = resolve_trait_default rs"
  unfolding pick_scoped_def [abs_def] pick_unscoped_def [abs_def] pick_nearest_def [abs_def]
    pick_by_proximity_def [abs_def] resolve_trait_default_def [abs_def] parts tables candidates places type_scopes
  by (rule refl)+

lemma resolve_ref_same: "resolve_ref rs' = resolve_ref rs"
proof -
  have x: "resolve_reexport rs' = resolve_reexport rs"
    unfolding resolve_reexport_def [abs_def] reexport_loop_same [OF refl] ..
  show ?thesis
    unfolding resolve_ref_def [abs_def] resolve_type_member_def [abs_def] resolve_by_ladder_def [abs_def]
      resolve_reexport_or_module_def [abs_def] parts matches rungs type_scopes picks x ..
qed

end

interpretation refs_rewritten: same_resolver_inputs env db "db\<lparr>db_refs := refs\<rparr>" for env db refs
  by unfold_locales simp

lemma resolve_ref_inputs: "same_inputs db db' \<Longrightarrow> resolve_ref (resolver_on env db') = resolve_ref (resolver_on env db)"
  by (rule same_resolver_inputs.resolve_ref_same) (simp add: same_resolver_inputs_def)

section \<open>Re-resolving stored references, exactly\<close>

text \<open>
  The specification: the resolution a stored reference has in a database, from the inputs stored
  with it; a row that holds it is current.
\<close>

definition resolution_of :: "resolve_env \<Rightarrow> graph_db \<Rightarrow> ref_row \<Rightarrow> resolved_ref" where
  "resolution_of env db r =
     resolve_ref (resolver_on env db) (rf_from_file r) (the (file_language db (rf_from_file r)))
       (imports_for_file db (rf_from_file r)) (raw_of_row r)"

definition refreshed :: "resolve_env \<Rightarrow> graph_db \<Rightarrow> ref_row \<Rightarrow> ref_row" where
  "refreshed env db r = set_resolution (resolution_of env db r) r"

definition ref_current :: "resolve_env \<Rightarrow> graph_db \<Rightarrow> ref_row \<Rightarrow> bool" where
  "ref_current env db r \<longleftrightarrow> file_stored db (rf_from_file r) \<and> holds_resolution r (resolution_of env db r)"

lemma set_resolution_fields [simp]:
  "rf_id (set_resolution x r) = rf_id r" "rf_from_file (set_resolution x r) = rf_from_file r"
  "rf_target_name (set_resolution x r) = rf_target_name r" "holds_resolution (set_resolution x r) x"
  "set_resolution x (set_resolution y r) = set_resolution x r"
  by (simp_all add: set_resolution_def holds_resolution_def)

lemma refreshed_fields [simp]:
  "rf_id (refreshed env db r) = rf_id r" "rf_from_file (refreshed env db r) = rf_from_file r"
  "rf_target_name (refreshed env db r) = rf_target_name r"
  by (simp_all add: refreshed_def)

lemma set_resolution_id: "holds_resolution r x \<Longrightarrow> set_resolution x r = r"
  by (simp add: set_resolution_def holds_resolution_def)

text \<open>The stored confidence is no input of resolution, so a refreshed row resolves as before.\<close>

lemma resolution_of_set [simp]: "resolution_of env db (set_resolution x r) = resolution_of env db r"
proof -
  have "ref_key_of (raw_of_row (set_resolution x r)) = ref_key_of (raw_of_row r)"
    by (simp add: ref_key_of_def raw_of_row_def set_resolution_def resolves_by_name_only_def)
  then show ?thesis unfolding resolution_of_def set_resolution_fields by (rule resolve_ref_key)
qed

lemma resolution_of_inputs: "same_inputs db db' \<Longrightarrow> resolution_of env db' = resolution_of env db"
  unfolding resolution_of_def [abs_def] resolve_ref_inputs same_inputs_language
  by (simp add: same_inputs_def imports_for_file_def)

lemma ref_current_inputs: "same_inputs db db' \<Longrightarrow> ref_current env db' = ref_current env db"
  unfolding ref_current_def [abs_def] resolution_of_inputs same_inputs_stored ..

lemma refreshed_inputs: "same_inputs db db' \<Longrightarrow> refreshed env db' = refreshed env db"
  unfolding refreshed_def [abs_def] resolution_of_inputs ..

lemma ref_current_refreshed: "file_stored db (rf_from_file r) \<Longrightarrow> ref_current env db (refreshed env db r)"
  by (simp add: ref_current_def refreshed_def)

lemma refreshed_id: "ref_current env db r \<Longrightarrow> refreshed env db r = r"
  by (simp add: ref_current_def refreshed_def set_resolution_id)

text \<open>Rewriting rows of distinct ids one by one rewrites them all.\<close>

lemma refresh_rows_fold:
  assumes "distinct (map rf_id (db_refs db))" "distinct (map rf_id stored)" "set stored \<subseteq> set (db_refs db)"
  shows "fst (fold refresh_row (zip stored (map res stored)) (db, n)) =
    db\<lparr>db_refs := map (\<lambda>r. if r \<in> set stored then set_resolution (res r) r else r) (db_refs db)\<rparr>"
  using assms
proof (induction stored arbitrary: db n)
  case (Cons row stored)
  let ?f = "\<lambda>r. if rf_id r = rf_id row then set_resolution (res row) r else r"
  let ?refs = "map ?f (db_refs db)"
  have row: "row \<in> set (db_refs db)" "rf_id row \<notin> rf_id ` set stored" using Cons.prems by auto
  have inj: "r = row" if "r \<in> set (db_refs db)" "rf_id r = rf_id row" for r
    using that row(1) Cons.prems(1) by (auto simp: distinct_map inj_on_def)
  have step: "fst (refresh_row (row, res row) (db, n)) = db\<lparr>db_refs := ?refs\<rparr>"
  proof (cases "holds_resolution row (res row)")
    case True
    then have "?f r = r" if "r \<in> set (db_refs db)" for r using inj [OF that] by (metis set_resolution_id)
    then have "?refs = db_refs db" by (simp add: map_idI)
    with True show ?thesis by (simp add: refresh_row_def)
  qed (simp add: refresh_row_def update_ref_def)
  have ids: "map rf_id ?refs = map rf_id (db_refs db)" by simp
  have sub: "set stored \<subseteq> set ?refs"
  proof
    fix r assume "r \<in> set stored"
    then have "rf_id r \<noteq> rf_id row" "r \<in> set (db_refs db)" using row(2) Cons.prems(3) by (metis image_eqI, auto)
    then show "r \<in> set ?refs" by (auto intro!: image_eqI [of _ _ r])
  qed
  define db1 where "db1 = db\<lparr>db_refs := ?refs\<rparr>"
  have refs1: "db_refs db1 = ?refs" by (simp add: db1_def)
  have "distinct (map rf_id stored)" using Cons.prems(2) by simp
  note IH = Cons.IH [of db1, unfolded refs1 ids, OF Cons.prems(1) this sub]
  obtain m where m: "refresh_row (row, res row) (db, n) = (db1, m)"
    using step unfolding db1_def by (metis prod.collapse)
  have "(if ?f r \<in> set stored then set_resolution (res (?f r)) (?f r) else ?f r) =
      (if r \<in> set (row # stored) then set_resolution (res r) r else r)" if "r \<in> set (db_refs db)" for r
  proof (cases "rf_id r = rf_id row")
    case True
    then have "r = row" by (rule inj [OF that])
    moreover have "set_resolution (res row) row \<notin> set stored" using row(2) by (metis image_eqI set_resolution_fields(1))
    ultimately show ?thesis by simp
  qed auto
  then have "map (\<lambda>r. if r \<in> set stored then set_resolution (res r) r else r) ?refs =
      map (\<lambda>r. if r \<in> set (row # stored) then set_resolution (res r) r else r) (db_refs db)"
    unfolding map_map by (intro map_cong refl) (simp only: o_apply)
  with IH m show ?case by (simp only: list.map zip_Cons_Cons fold_simps db1_def) simp
qed simp

lemma resolve_file_stored:
  assumes "file_stored db from_file" "\<forall>r \<in> set stored. rf_from_file r = from_file"
  shows "resolve_file (resolver_on env db) from_file (map raw_of_row stored) = Inr (map (resolution_of env db) stored)"
proof -
  have "file_language db from_file \<noteq> None" using assms(1) by (simp add: file_language_stored)
  then obtain f where "first_row (filter (\<lambda>f. fl_path f = from_file) (db_files db)) = Some f"
    "file_language db from_file = Some (fl_lang f)" by (auto simp: file_language_def)
  then show ?thesis
    using assms(2) by (simp add: resolve_file_map resolution_of_def resolver_on_def)
qed

definition refresh_where :: "resolve_env \<Rightarrow> (ref_row \<Rightarrow> bool) \<Rightarrow> graph_db \<Rightarrow> graph_db" where
  "refresh_where env P db = db\<lparr>db_refs := map (\<lambda>r. if P r then refreshed env db r else r) (db_refs db)\<rparr>"

lemma re_resolve_stored_exact:
  assumes "file_stored db from_file" "\<forall>r \<in> set stored. rf_from_file r = from_file"
    "distinct (map rf_id (db_refs db))" "distinct (map rf_id stored)" "set stored \<subseteq> set (db_refs db)"
  shows "\<exists>m. re_resolve_stored env from_file stored (db, n) = Inr (refresh_where env (\<lambda>r. r \<in> set stored) db, m)"
  using refresh_rows_fold [OF assms(3-5), of "resolution_of env db" n]
  unfolding re_resolve_stored_def refresh_where_def refreshed_def
  by (simp add: resolve_file_stored [OF assms(1,2)]) (metis prod.collapse)

lemma refresh_where_inputs [simp]: "same_inputs db (refresh_where env P db)"
  by (simp add: refresh_where_def)

lemma refresh_where_cong: "(\<And>r. r \<in> set (db_refs db) \<Longrightarrow> P r = Q r) \<Longrightarrow> refresh_where env P db = refresh_where env Q db"
  by (simp add: refresh_where_def cong: map_cong)

lemma refresh_where_none: "(\<And>r. r \<in> set (db_refs db) \<Longrightarrow> \<not> P r) \<Longrightarrow> refresh_where env P db = db"
  by (simp add: refresh_where_def map_idI)

lemma refresh_where_ids [simp]: "map rf_id (db_refs (refresh_where env P db)) = map rf_id (db_refs db)"
  by (simp add: refresh_where_def)

lemma refreshed_twice: "refreshed env db (refreshed env db r) = refreshed env db r"
  by (simp add: refreshed_def)

lemma refresh_where_compose:
  assumes "\<And>r. r \<in> set (db_refs db) \<Longrightarrow> P r \<Longrightarrow> Q (refreshed env db r) = Q r"
  shows "refresh_where env Q (refresh_where env P db) = refresh_where env (\<lambda>r. P r \<or> Q r) db"
proof -
  have "refreshed env (refresh_where env P db) = refreshed env db" by (rule refreshed_inputs) simp
  moreover have "(if Q (if P r then refreshed env db r else r) then refreshed env db (if P r then refreshed env db r else r)
      else if P r then refreshed env db r else r) = (if P r \<or> Q r then refreshed env db r else r)"
    if "r \<in> set (db_refs db)" for r
    using assms [OF that] by (auto simp: refreshed_twice)
  ultimately have "map (\<lambda>r. if Q r then refreshed env (refresh_where env P db) r else r)
      (map (\<lambda>r. if P r then refreshed env db r else r) (db_refs db)) =
      map (\<lambda>r. if P r \<or> Q r then refreshed env db r else r) (db_refs db)"
    by (simp add: refreshed_twice)
  then show ?thesis unfolding refresh_where_def [of env Q] by (simp add: refresh_where_def del: map_map)
qed

lemma distinct_rows_by_id:
  assumes "distinct (map rf_id (db_refs db))"
  shows "distinct (map rf_id (rows_by_id P db))"
proof -
  have "distinct (filter P (db_refs db))" "inj_on rf_id (set (filter P (db_refs db)))"
    using assms by (auto simp: distinct_map inj_on_def)
  then show ?thesis by (simp add: rows_by_id_def distinct_map)
qed

lemma set_rows_by_id [simp]: "set (rows_by_id P db) = {r \<in> set (db_refs db). P r}"
  by (simp add: rows_by_id_def)

lemma refresh_from_exact:
  assumes "distinct (map rf_id (db_refs db))" "\<forall>f \<in> set files. file_stored db f"
  shows "\<exists>m. refresh_from env rewritten files (db, n) =
    Inr (refresh_where env (\<lambda>r. rf_from_file r \<in> set files \<and> rf_from_file r \<notin> set rewritten) db, m)"
  using assms
proof (induction files arbitrary: db n)
  case Nil
  then show ?case by (simp add: refresh_where_none)
next
  case (Cons f files)
  show ?case
  proof (cases "f \<in> set rewritten")
    case True
    have "refresh_where env (\<lambda>r. rf_from_file r \<in> set (f # files) \<and> rf_from_file r \<notin> set rewritten) db =
        refresh_where env (\<lambda>r. rf_from_file r \<in> set files \<and> rf_from_file r \<notin> set rewritten) db"
      using True by (intro refresh_where_cong) auto
    then show ?thesis using True Cons.IH [OF Cons.prems(1), of n] Cons.prems(2) by simp
  next
    case False
    let ?rows = "rows_by_id (\<lambda>r. rf_from_file r = f) db"
    let ?db = "refresh_where env (\<lambda>r. rf_from_file r = f) db"
    have "refresh_where env (\<lambda>r. r \<in> set ?rows) db = ?db" by (rule refresh_where_cong) simp
    then obtain k where k: "re_resolve_stored env f ?rows (db, n) = Inr (?db, k)"
      using re_resolve_stored_exact [of db f ?rows env n] Cons.prems distinct_rows_by_id [OF Cons.prems(1)] by auto
    have "\<forall>g \<in> set files. file_stored ?db g"
      using Cons.prems(2) by (simp add: same_inputs_stored [OF refresh_where_inputs])
    then obtain m where m: "refresh_from env rewritten files (?db, k) =
        Inr (refresh_where env (\<lambda>r. rf_from_file r \<in> set files \<and> rf_from_file r \<notin> set rewritten) ?db, m)"
      using Cons.IH [of ?db k] Cons.prems(1) by auto
    have "refresh_where env (\<lambda>r. rf_from_file r \<in> set files \<and> rf_from_file r \<notin> set rewritten) ?db =
        refresh_where env (\<lambda>r. rf_from_file r = f \<or> rf_from_file r \<in> set files \<and> rf_from_file r \<notin> set rewritten) db"
      by (rule refresh_where_compose) simp
    also have "\<dots> = refresh_where env (\<lambda>r. rf_from_file r \<in> set (f # files) \<and> rf_from_file r \<notin> set rewritten) db"
      using False by (intro refresh_where_cong) auto
    finally show ?thesis using k m False by simp
  qed
qed

lemma refresh_all_refs_exact:
  assumes "distinct (map rf_id (db_refs db))" "\<forall>r \<in> set (db_refs db). file_stored db (rf_from_file r)"
  shows "\<exists>m. refresh_all_refs env rewritten db =
    Inr (refresh_where env (\<lambda>r. rf_from_file r \<notin> set rewritten) db, m)"
proof -
  let ?files = "btree_set (map rf_from_file (db_refs db))"
  have "refresh_where env (\<lambda>r. rf_from_file r \<in> set ?files \<and> rf_from_file r \<notin> set rewritten) db =
      refresh_where env (\<lambda>r. rf_from_file r \<notin> set rewritten) db"
    by (rule refresh_where_cong) (auto simp: btree_set_def)
  moreover have "\<forall>f \<in> set ?files. file_stored db f" using assms(2) by (auto simp: btree_set_def)
  ultimately show ?thesis
    using refresh_from_exact [OF assms(1), of ?files env rewritten 0] unfolding refresh_all_refs_def by metis
qed

subsection \<open>The dependents\<close>

lemma push_all:
  fixes L :: "ref_row list"
  defines "m \<equiv> fold push_by_file L []"
  shows "btree_ok m"
    and "map_of m f = (if filter (\<lambda>r. rf_from_file r = f) L = [] then None else Some (filter (\<lambda>r. rf_from_file r = f) L))"
proof -
  have "btree_ok (fold push_by_file L []) \<and> (\<forall>f. map_of (fold push_by_file L []) f =
      (if filter (\<lambda>r. rf_from_file r = f) L = [] then None else Some (filter (\<lambda>r. rf_from_file r = f) L)))"
  proof (induction L rule: rev_induct)
    case Nil
    show ?case by (simp add: btree_ok_def)
  next
    case (snoc r L)
    then show ?case by (auto simp: push_by_file_def btree_ok_insert map_of_btree_insert)
  qed
  then show "btree_ok m" "map_of m f = (if filter (\<lambda>r. rf_from_file r = f) L = [] then None
      else Some (filter (\<lambda>r. rf_from_file r = f) L))"
    by (simp_all add: m_def)
qed

definition dependent_names :: "dependents \<Rightarrow> string list" where
  "dependent_names deps = btree_set (dp_names deps @ map snd (dp_replaced deps))"

definition selected_ref :: "dependents \<Rightarrow> string list \<Rightarrow> ref_row \<Rightarrow> bool" where
  "selected_ref deps rewritten r \<longleftrightarrow>
     depends_on deps r \<and> rf_from_file r \<notin> set rewritten \<and> rf_target_name r \<in> set (dependent_names deps)"

definition dependent_list :: "dependents \<Rightarrow> string list \<Rightarrow> graph_db \<Rightarrow> ref_row list" where
  "dependent_list deps rewritten db =
     concat (map (\<lambda>name. filter (\<lambda>r. depends_on deps r \<and> rf_from_file r \<notin> set rewritten)
         (rows_by_id (\<lambda>r. rf_target_name r = name) db)) (dependent_names deps))"

lemma dependent_rows_list: "dependent_rows deps rewritten db = fold push_by_file (dependent_list deps rewritten db) []"
proof -
  have f: "fold (\<lambda>r by_file. if P r then push_by_file r by_file else by_file) rows m = fold push_by_file (filter P rows) m"
    for P rows m by (induction rows arbitrary: m) auto
  have "fold (\<lambda>name. fold push_by_file (g name)) names m = fold push_by_file (concat (map g names)) m"
    for g and names :: "string list" and m by (induction names arbitrary: m) auto
  then show ?thesis
    unfolding dependent_rows_def dependent_list_def dependent_names_def Let_def f by (simp add: fun_eq_iff)
qed

lemma distinct_concat_keyed:
  assumes "distinct names" "\<And>n. distinct (g n)" "\<And>n r. r \<in> set (g n) \<Longrightarrow> key r = n"
  shows "distinct (concat (map g names))"
  using assms(1)
proof (induction names)
  case (Cons n names)
  have "n' = n" if "r \<in> set (g n)" "r \<in> set (g n')" for r n' using assms(3) that by metis
  with Cons assms(2) show ?case by auto
qed simp

lemma dependent_list_rows:
  assumes "distinct (map rf_id (db_refs db))"
  shows "set (dependent_list deps rewritten db) = {r \<in> set (db_refs db). selected_ref deps rewritten r}"
    and "distinct (map rf_id (dependent_list deps rewritten db))"
proof -
  let ?L = "dependent_list deps rewritten db"
  show s: "set ?L = {r \<in> set (db_refs db). selected_ref deps rewritten r}"
    by (auto simp: dependent_list_def selected_ref_def)
  have "distinct (rows_by_id P db)" for P
    using distinct_rows_by_id [OF assms, of P] by (simp add: distinct_map)
  then have "distinct ?L"
    unfolding dependent_list_def
    by (intro distinct_concat_keyed [where key = rf_target_name]) (auto simp: dependent_names_def btree_set_def)
  moreover have "inj_on rf_id (set ?L)"
    using assms unfolding s by (auto simp: distinct_map inj_on_def)
  ultimately show "distinct (map rf_id ?L)" by (simp add: distinct_map)
qed

lemma refresh_files_exact:
  assumes "distinct (map rf_id (db_refs db))" "distinct (map fst by_file)"
    "\<And>f rows. (f, rows) \<in> set by_file \<Longrightarrow> file_stored db f \<and> (\<forall>r \<in> set rows. rf_from_file r = f) \<and>
       distinct (map rf_id rows) \<and> set rows \<subseteq> set (db_refs db)"
  shows "\<exists>m. refresh_files env by_file (db, n) =
    Inr (refresh_where env (\<lambda>r. \<exists>(f, rows) \<in> set by_file. r \<in> set rows) db, m)"
  using assms
proof (induction by_file arbitrary: db n)
  case Nil
  then show ?case by (simp add: refresh_where_none)
next
  case (Cons entry by_file)
  obtain f rows where e: "entry = (f, rows)" by fastforce
  let ?Q = "\<lambda>r. \<exists>(f, rows) \<in> set by_file. r \<in> set rows"
  let ?db = "refresh_where env (\<lambda>r. r \<in> set rows) db"
  have here: "file_stored db f \<and> (\<forall>r \<in> set rows. rf_from_file r = f) \<and> distinct (map rf_id rows) \<and>
      set rows \<subseteq> set (db_refs db)"
    using Cons.prems(3) [of f rows] by (simp add: e)
  then obtain k where k: "re_resolve_stored env f rows (db, n) = Inr (?db, k)"
    using re_resolve_stored_exact [of db f rows env n] Cons.prems(1) by blast
  have other: "g \<noteq> f" if "(g, rows') \<in> set by_file" for g rows'
    using Cons.prems(2) that by (force simp: e)
  have "file_stored ?db g \<and> (\<forall>r \<in> set rows'. rf_from_file r = g) \<and> distinct (map rf_id rows') \<and>
      set rows' \<subseteq> set (db_refs ?db)" if g: "(g, rows') \<in> set by_file" for g rows'
  proof -
    have p: "file_stored db g \<and> (\<forall>r \<in> set rows'. rf_from_file r = g) \<and> distinct (map rf_id rows') \<and>
        set rows' \<subseteq> set (db_refs db)"
      using Cons.prems(3) [of g rows'] g by simp
    moreover have "r \<in> set (db_refs ?db)" if "r \<in> set rows'" for r
    proof -
      have "r \<notin> set rows" using that p here other [OF g] by metis
      then show ?thesis using that p by (auto simp: refresh_where_def intro!: image_eqI [of _ _ r])
    qed
    ultimately show ?thesis by (auto simp: same_inputs_stored [OF refresh_where_inputs])
  qed
  then obtain m where m: "refresh_files env by_file (?db, k) = Inr (refresh_where env ?Q ?db, m)"
    using Cons.IH [of ?db k] Cons.prems(1,2) by auto
  have "refresh_where env ?Q ?db = refresh_where env (\<lambda>r. r \<in> set rows \<or> ?Q r) db"
  proof (rule refresh_where_compose)
    fix r assume "r \<in> set rows"
    then have "rf_from_file r = f" using here by blast
    then have "\<not> ?Q r'" if "rf_from_file r' = f" for r'
      using Cons.prems(3) other that by (metis (no_types, lifting) case_prodE list.set_intros(2))
    then show "?Q (refreshed env db r) = ?Q r" using \<open>rf_from_file r = f\<close> refreshed_fields(2) by blast
  qed
  also have "\<dots> = refresh_where env (\<lambda>r. \<exists>(f, rows) \<in> set (entry # by_file). r \<in> set rows) db"
    by (rule refresh_where_cong) (auto simp: e)
  finally show ?case using k m by (simp add: e)
qed

lemma refresh_dependent_refs_exact:
  assumes "distinct (map rf_id (db_refs db))" "\<forall>r \<in> set (db_refs db). file_stored db (rf_from_file r)"
  shows "\<exists>m. refresh_dependent_refs env deps rewritten db = Inr (refresh_where env (selected_ref deps rewritten) db, m)"
proof -
  let ?L = "dependent_list deps rewritten db"
  let ?m = "fold push_by_file ?L []"
  note L = dependent_list_rows [OF assms(1), of deps rewritten]
  have d: "distinct (map fst ?m)" using btree_sorted_key [OF push_all(1)] by blast
  then have entry: "(f, rows) \<in> set ?m \<longleftrightarrow> rows = filter (\<lambda>r. rf_from_file r = f) ?L \<and> rows \<noteq> []" for f rows
    using map_of_eq_Some_iff [OF d, of f rows] unfolding push_all(2) by (auto split: if_splits)
  have entries: "file_stored db f \<and> (\<forall>r \<in> set rows. rf_from_file r = f) \<and> distinct (map rf_id rows) \<and>
      set rows \<subseteq> set (db_refs db)" if "(f, rows) \<in> set ?m" for f rows
  proof -
    have rows: "rows = filter (\<lambda>r. rf_from_file r = f) ?L" "rows \<noteq> []" using that entry by auto
    then obtain r where "r \<in> set rows" by (meson list.set_sel(1))
    then have "r \<in> set (db_refs db)" "rf_from_file r = f" unfolding rows(1) by (simp_all add: L(1))
    then have "file_stored db f" using assms(2) by blast
    moreover have "distinct (map rf_id rows)" using L(2) rows(1) by (simp add: distinct_map_filter)
    ultimately show ?thesis unfolding rows(1) by (simp add: L(1))
  qed
  obtain m where "refresh_files env ?m (db, 0) = Inr (refresh_where env (\<lambda>r. \<exists>(f, rows) \<in> set ?m. r \<in> set rows) db, m)"
    using refresh_files_exact [OF assms(1) d entries] by blast
  moreover have "(\<exists>(f, rows) \<in> set ?m. r \<in> set rows) \<longleftrightarrow> r \<in> set ?L" for r
    unfolding Bex_def split_paired_Ex by (simp add: entry) (auto simp: filter_empty_conv)
  ultimately have "refresh_files env ?m (db, 0) = Inr (refresh_where env (\<lambda>r. r \<in> set ?L) db, m)" by simp
  moreover have "refresh_where env (\<lambda>r. r \<in> set ?L) db = refresh_where env (selected_ref deps rewritten) db"
    unfolding L(1) by (rule refresh_where_cong) simp
  ultimately show ?thesis unfolding refresh_dependent_refs_def dependent_rows_list by simp
qed

section \<open>Rewriting a file, exactly\<close>

text \<open>The row of an extracted reference: its inputs as extracted, whatever it resolves to.\<close>

definition stores_ref :: "string \<Rightarrow> raw_ref \<Rightarrow> ref_row \<Rightarrow> bool" where
  "stores_ref path r row \<longleftrightarrow>
     rf_from_file row = path \<and> rf_from_span_start row = int (rw_from_span_start r) \<and>
     rf_from_span_end row = int (rw_from_span_end r) \<and> rf_target_name row = rw_target_name r \<and>
     rf_kind row = rw_kind r \<and> rf_extracted_qualified row = rw_target_qualified r \<and>
     rf_unresolved_receiver row = rw_unresolved_receiver r \<and> rf_spelled_path row = rw_spelled_path r"

lemma insert_refs_exact:
  assumes "file_stored db path" "\<forall>r \<in> set refs. fits (rw_from_span_start r) \<and> fits (rw_from_span_end r)"
    "distinct (map rf_id (db_refs db))"
  shows "\<exists>rows. insert_refs path (zip refs (map res refs)) db = Inr (db\<lparr>db_refs := db_refs db @ rows\<rparr>) \<and>
    list_all2 (stores_ref path) refs rows \<and> list_all2 (\<lambda>r row. holds_resolution row (res r)) refs rows \<and>
    distinct (map rf_id (db_refs db @ rows))"
  using assms
proof (induction refs arbitrary: db)
  case (Cons r refs)
  define row where "row = \<lparr>rf_id = next_rowid (map rf_id (db_refs db)), rf_from_file = path,
    rf_from_span_start = int (rw_from_span_start r), rf_from_span_end = int (rw_from_span_end r),
    rf_target_name = rw_target_name r, rf_target_qualified = rr_target_qualified (res r),
    rf_target_symbol_hint = rr_target_symbol_hint (res r), rf_kind = rw_kind r,
    rf_confidence = rr_confidence (res r), rf_extracted_qualified = rw_target_qualified r,
    rf_unresolved_receiver = rw_unresolved_receiver r, rf_spelled_path = rw_spelled_path r\<rparr>"
  let ?db = "db\<lparr>db_refs := db_refs db @ [row]\<rparr>"
  have ins: "insert_ref path r (res r) db = Inr ?db"
    using Cons.prems by (simp add: insert_ref_def row_def)
  have row: "stores_ref path r row" "holds_resolution row (res r)"
    by (simp_all add: row_def stores_ref_def holds_resolution_def)
  have "rf_id row = next_rowid (map rf_id (db_refs db))" by (simp add: row_def)
  then have "distinct (map rf_id (db_refs ?db))"
    using Cons.prems(3) next_rowid_fresh [of "map rf_id (db_refs db)"] by simp
  then obtain rows where rows: "insert_refs path (zip refs (map res refs)) ?db = Inr (?db\<lparr>db_refs := db_refs ?db @ rows\<rparr>)"
    "list_all2 (stores_ref path) refs rows" "list_all2 (\<lambda>r row. holds_resolution row (res r)) refs rows"
    "distinct (map rf_id (db_refs ?db @ rows))"
    using Cons.IH [of ?db] Cons.prems(1,2) by auto
  then show ?case using ins row by (intro exI [of _ "row # rows"]) simp
qed simp

lemma stores_ref_current:
  assumes "file_stored db path" "stores_ref path r row"
    "holds_resolution row (resolve_ref (resolver_on env db) path (the (file_language db path)) (imports_for_file db path) r)"
  shows "ref_current env db row"
proof -
  have "ref_key_of (raw_of_row row) = ref_key_of r"
    using assms(2) by (simp add: stores_ref_def ref_key_of_def raw_of_row_def resolves_by_name_only_def)
  note key = resolve_ref_key [OF this]
  have path: "rf_from_file row = path" using assms(2) by (simp add: stores_ref_def)
  show ?thesis using assms(1,3) unfolding ref_current_def resolution_of_def path key by simp
qed

definition stamped :: "extracted_file_refs \<Rightarrow> file_row \<Rightarrow> file_row" where
  "stamped file f = f\<lparr>fl_content_hash := er_content_hash file, fl_mtime_ns := er_mtime_ns file\<rparr>"

text \<open>Pass 2 changes references, file stamps and metadata only.\<close>

definition pass2_frame :: "graph_db \<Rightarrow> graph_db \<Rightarrow> bool" where
  "pass2_frame db db' \<longleftrightarrow> same_inputs db db' \<and>
     db_relations db' = db_relations db \<and> db_commands db' = db_commands db \<and> db_strings db' = db_strings db \<and>
     db_configs db' = db_configs db \<and> db_symbols_fts db' = db_symbols_fts db \<and>
     db_strings_fts db' = db_strings_fts db \<and> db_configs_fts db' = db_configs_fts db"

lemma pass2_frame_inputs: "pass2_frame db db' \<Longrightarrow> same_inputs db db'"
  by (simp add: pass2_frame_def)

lemma pass2_frame_refl [simp]: "pass2_frame db db"
  by (simp add: pass2_frame_def)

lemma pass2_frame_trans [trans]: "pass2_frame a b \<Longrightarrow> pass2_frame b c \<Longrightarrow> pass2_frame a c"
  using same_inputs_trans [of a b c] by (simp add: pass2_frame_def)

lemma pass2_frame_updates [simp]:
  "pass2_frame db (db\<lparr>db_refs := x\<rparr>)" "pass2_frame db (db\<lparr>db_meta := y\<rparr>)" "pass2_frame db (mark_current file db)"
  "pass2_frame db (refresh_where env P db)"
  using same_inputs_updates(3) [of db] by (simp_all add: pass2_frame_def refresh_where_def) (simp add: mark_current_def)

lemma store_ok_frame:
  assumes "store_ok db" "pass2_frame db db'" "distinct (map rf_id (db_refs db'))"
    "\<forall>r \<in> set (db_refs db'). file_stored db (rf_from_file r)"
  shows "store_ok db'"
proof -
  have d: "db_symbols db' = db_symbols db" "db_relations db' = db_relations db" "db_imports db' = db_imports db"
    "db_commands db' = db_commands db" "db_strings db' = db_strings db" "db_configs db' = db_configs db"
    "db_symbols_fts db' = db_symbols_fts db" "db_strings_fts db' = db_strings_fts db"
    "db_configs_fts db' = db_configs_fts db"
    using assms(2) by (simp_all add: pass2_frame_def same_inputs_def)
  have p: "map fl_path (db_files db') = map fl_path (db_files db)"
  proof -
    have "map fst (file_langs db') = map fst (file_langs db)"
      using assms(2) by (simp add: pass2_frame_def same_inputs_def)
    then show ?thesis by (simp add: file_langs_def o_def)
  qed
  have s: "file_stored db' = file_stored db" using assms(2) by (simp add: pass2_frame_def same_inputs_stored)
  show ?thesis using assms(1,3,4) unfolding store_defs symbol_in_def d p s by blast
qed

text \<open>The file's references are the extracted ones, and its row carries the hash and time they came from.\<close>

definition rewritten_as :: "extracted_file_refs \<Rightarrow> graph_db \<Rightarrow> bool" where
  "rewritten_as file db \<longleftrightarrow>
     list_all2 (stores_ref (er_file_path file)) (er_refs file)
       (filter (\<lambda>r. rf_from_file r = er_file_path file) (db_refs db)) \<and>
     (\<forall>f \<in> set (db_files db). fl_path f = er_file_path file \<longrightarrow>
        fl_content_hash f = er_content_hash file \<and> fl_mtime_ns f = er_mtime_ns file)"

lemma filter_stores_ref: "list_all2 (stores_ref path) refs rows \<Longrightarrow> filter (\<lambda>r. rf_from_file r = path) rows = rows"
  by (induction rule: list_all2_induct) (auto simp: stores_ref_def)

lemma rewrite_file_exact:
  assumes "store_ok db" "file_stored db (er_file_path file)" "refs_fit file"
  shows "\<exists>db'. rewrite_file env file db = Inr db' \<and> store_ok db' \<and> pass2_frame db db' \<and> db_meta db' = db_meta db \<and>
    filter (\<lambda>r. rf_from_file r \<noteq> er_file_path file) (db_refs db') =
      filter (\<lambda>r. rf_from_file r \<noteq> er_file_path file) (db_refs db) \<and>
    filter (\<lambda>f. fl_path f \<noteq> er_file_path file) (db_files db') =
      filter (\<lambda>f. fl_path f \<noteq> er_file_path file) (db_files db) \<and>
    (\<forall>r \<in> set (db_refs db'). rf_from_file r = er_file_path file \<longrightarrow> ref_current env db' r) \<and> rewritten_as file db'"
proof -
  let ?p = "er_file_path file"
  let ?kept = "filter (\<lambda>r. rf_from_file r \<noteq> ?p) (db_refs db)"
  define db1 where "db1 = mark_current file (delete_refs_for_file ?p db)"
  have f1: "pass2_frame db db1"
    using pass2_frame_trans [OF pass2_frame_updates(1) pass2_frame_updates(3)] by (simp add: db1_def delete_refs_for_file_def)
  have r1: "db_refs db1 = ?kept" by (simp add: db1_def mark_current_def delete_refs_for_file_def)
  have stored: "file_stored db1 = file_stored db" by (rule same_inputs_stored [OF pass2_frame_inputs [OF f1]])
  define res where "res = resolve_ref (resolver_on env db1) ?p (the (file_language db1 ?p)) (imports_for_file db1 ?p)"
  have "file_language db1 ?p \<noteq> None" using assms(2) stored file_language_stored [of db1 ?p] by simp
  then obtain f where "first_row (filter (\<lambda>f. fl_path f = ?p) (db_files db1)) = Some f" by (auto simp: file_language_def)
  then have resolved: "resolve_file (resolver_on env db1) ?p (er_refs file) = Inr (map res (er_refs file))"
    by (simp add: resolve_file_map res_def file_language_def resolver_on_def)
  have "distinct (map rf_id (db_refs db1))"
    using assms(1) unfolding r1 by (simp add: store_defs distinct_map_filter)
  then obtain rows where rows: "insert_refs ?p (zip (er_refs file) (map res (er_refs file))) db1 =
        Inr (db1\<lparr>db_refs := ?kept @ rows\<rparr>)"
    "list_all2 (stores_ref ?p) (er_refs file) rows" "list_all2 (\<lambda>r row. holds_resolution row (res r)) (er_refs file) rows"
    "distinct (map rf_id (?kept @ rows))"
    using insert_refs_exact [of db1 ?p "er_refs file" res] assms(2,3) stored r1 by (auto simp: refs_fit_def)
  let ?db = "db1\<lparr>db_refs := ?kept @ rows\<rparr>"
  have run: "rewrite_file env file db = Inr ?db"
    using rows(1) resolved by (simp add: rewrite_file_def Let_def db1_def [symmetric])
  have frame: "pass2_frame db ?db" by (rule pass2_frame_trans [OF f1]) simp
  have mine: "filter (\<lambda>r. rf_from_file r = ?p) rows = rows" by (rule filter_stores_ref [OF rows(2)])
  then have from_rows: "\<forall>r \<in> set rows. rf_from_file r = ?p" by (simp add: filter_id_conv)
  have ok: "store_ok ?db"
    using assms(1,2) rows(4) from_rows by (intro store_ok_frame [OF assms(1) frame]) (auto simp: store_defs)
  have cur: "ref_current env ?db row" if row: "row \<in> set rows" for row
  proof -
    obtain r where "stores_ref ?p r row" "holds_resolution row (res r)"
      using rows(2,3) row by (metis (no_types, lifting) in_set_conv_nth list_all2_conv_all_nth)
    then have "ref_current env db1 row" using assms(2) stored by (intro stores_ref_current) (simp_all add: res_def)
    then show ?thesis using ref_current_inputs [OF same_inputs_updates(1)] by metis
  qed
  have files: "db_files ?db = map (\<lambda>f. if fl_path f = ?p then stamped file f else f) (db_files db)"
    by (simp add: db1_def mark_current_def delete_refs_for_file_def stamped_def)
  have path: "fl_path (if fl_path f = ?p then stamped file f else f) = fl_path f" for f by (simp add: stamped_def)
  have "filter (\<lambda>f. fl_path f \<noteq> ?p) (db_files ?db) = filter (\<lambda>f. fl_path f \<noteq> ?p) (db_files db)"
    unfolding files filter_map o_def path by (rule map_idI) simp
  moreover have "rewritten_as file ?db"
    unfolding rewritten_as_def files using rows(2) mine by (auto simp: stamped_def filter_empty_conv)
  moreover have "filter (\<lambda>r. rf_from_file r \<noteq> ?p) (db_refs ?db) = ?kept"
    using from_rows by (simp add: filter_empty_conv)
  moreover have "\<forall>r \<in> set (db_refs ?db). rf_from_file r = ?p \<longrightarrow> ref_current env ?db r" using cur by auto
  moreover have "db_meta ?db = db_meta db" by (simp add: db1_def mark_current_def delete_refs_for_file_def)
  ultimately show ?thesis using run ok frame by blast
qed

lemma rewritten_as_outside:
  assumes "rewritten_as file db" "er_file_path file \<notin> P"
    "filter (\<lambda>r. rf_from_file r \<notin> P) (db_refs db') = filter (\<lambda>r. rf_from_file r \<notin> P) (db_refs db)"
    "filter (\<lambda>f. fl_path f \<notin> P) (db_files db') = filter (\<lambda>f. fl_path f \<notin> P) (db_files db)"
  shows "rewritten_as file db'"
proof -
  let ?p = "er_file_path file"
  have "filter (\<lambda>x. g x = ?p) xs = filter (\<lambda>x. g x = ?p) (filter (\<lambda>x. g x \<notin> P) xs)" for xs and g :: "'b \<Rightarrow> string"
    using assms(2) by (auto intro!: filter_cong)
  then have e: "filter (\<lambda>r. rf_from_file r = ?p) (db_refs db') = filter (\<lambda>r. rf_from_file r = ?p) (db_refs db)"
    "filter (\<lambda>f. fl_path f = ?p) (db_files db') = filter (\<lambda>f. fl_path f = ?p) (db_files db)"
    using assms(3,4) by metis+
  have "(f \<in> set (db_files d) \<and> fl_path f = ?p) \<longleftrightarrow> f \<in> set (filter (\<lambda>f. fl_path f = ?p) (db_files d))" for f d by simp
  then show ?thesis using assms(1) e unfolding rewritten_as_def by metis
qed

lemma rewrite_files_exact:
  assumes "store_ok db" "\<forall>file \<in> set files. file_stored db (er_file_path file) \<and> refs_fit file"
  shows "\<exists>db'. rewrite_files env files db = Inr db' \<and> store_ok db' \<and> pass2_frame db db' \<and> db_meta db' = db_meta db \<and>
    filter (\<lambda>r. rf_from_file r \<notin> er_file_path ` set files) (db_refs db') =
      filter (\<lambda>r. rf_from_file r \<notin> er_file_path ` set files) (db_refs db) \<and>
    filter (\<lambda>f. fl_path f \<notin> er_file_path ` set files) (db_files db') =
      filter (\<lambda>f. fl_path f \<notin> er_file_path ` set files) (db_files db) \<and>
    (\<forall>r \<in> set (db_refs db'). rf_from_file r \<in> er_file_path ` set files \<longrightarrow> ref_current env db' r) \<and>
    (distinct (map er_file_path files) \<longrightarrow> (\<forall>file \<in> set files. rewritten_as file db'))"
  using assms
proof (induction files arbitrary: db)
  case (Cons er files)
  let ?p = "er_file_path er" and ?P = "er_file_path ` set files"
  obtain db1 where one: "rewrite_file env er db = Inr db1" "store_ok db1" "pass2_frame db db1"
    "db_meta db1 = db_meta db"
    "filter (\<lambda>r. rf_from_file r \<noteq> ?p) (db_refs db1) = filter (\<lambda>r. rf_from_file r \<noteq> ?p) (db_refs db)"
    "filter (\<lambda>f. fl_path f \<noteq> ?p) (db_files db1) = filter (\<lambda>f. fl_path f \<noteq> ?p) (db_files db)"
    "\<forall>r \<in> set (db_refs db1). rf_from_file r = ?p \<longrightarrow> ref_current env db1 r" "rewritten_as er db1"
    using rewrite_file_exact [of db er env] Cons.prems by auto
  have "\<forall>g \<in> set files. file_stored db1 (er_file_path g) \<and> refs_fit g"
    using Cons.prems(2) same_inputs_stored [OF pass2_frame_inputs [OF one(3)]] by simp
  then obtain db2 where two: "rewrite_files env files db1 = Inr db2" "store_ok db2" "pass2_frame db1 db2"
    "db_meta db2 = db_meta db1"
    "filter (\<lambda>r. rf_from_file r \<notin> ?P) (db_refs db2) = filter (\<lambda>r. rf_from_file r \<notin> ?P) (db_refs db1)"
    "filter (\<lambda>f. fl_path f \<notin> ?P) (db_files db2) = filter (\<lambda>f. fl_path f \<notin> ?P) (db_files db1)"
    "\<forall>r \<in> set (db_refs db2). rf_from_file r \<in> ?P \<longrightarrow> ref_current env db2 r" 
    "distinct (map er_file_path files) \<longrightarrow> (\<forall>g \<in> set files. rewritten_as g db2)"
    using Cons.IH [of db1] one(2) by auto
  have "filter (\<lambda>x. g x \<notin> insert ?p ?P) ys = filter (\<lambda>x. g x \<notin> insert ?p ?P) zs"
    if "filter (\<lambda>x. g x \<notin> ?P) ys = filter (\<lambda>x. g x \<notin> ?P) xs" "filter (\<lambda>x. g x \<noteq> ?p) xs = filter (\<lambda>x. g x \<noteq> ?p) zs"
    for g :: "'b \<Rightarrow> string" and xs ys zs
  proof -
    have s: "filter (\<lambda>x. g x \<notin> insert ?p ?P) ws = filter (\<lambda>x. g x \<noteq> ?p) (filter (\<lambda>x. g x \<notin> ?P) ws)"
      "filter (\<lambda>x. g x \<notin> insert ?p ?P) ws = filter (\<lambda>x. g x \<notin> ?P) (filter (\<lambda>x. g x \<noteq> ?p) ws)" for ws
      by (simp_all add: conj_commute)
    show ?thesis by (metis s that)
  qed
  note out = this [OF two(5) one(5)] this [OF two(6) one(6)]
  have first: "rewritten_as er db2" if "?p \<notin> ?P" using rewritten_as_outside [OF one(8) that two(5,6)] .
  have "ref_current env db2 r" if "r \<in> set (db_refs db2)" "rf_from_file r = ?p" "?p \<notin> ?P" for r
  proof -
    have "r \<in> set (filter (\<lambda>r. rf_from_file r \<notin> ?P) (db_refs db2))" using that by simp
    then have "r \<in> set (db_refs db1)" unfolding two(5) by simp
    then show ?thesis using one(7) that(2) ref_current_inputs [OF pass2_frame_inputs [OF two(3)]] by metis
  qed
  then have "\<forall>r \<in> set (db_refs db2). rf_from_file r \<in> insert ?p ?P \<longrightarrow> ref_current env db2 r"
    using two(7) by (metis insert_iff)
  moreover have "distinct (map er_file_path (er # files)) \<longrightarrow> (\<forall>g \<in> set (er # files). rewritten_as g db2)"
    using first two(8) by simp
  ultimately show ?case
    using one(1,4) two(1,2,4) out pass2_frame_trans [OF one(3) two(3)] by simp
qed simp

section \<open>What the transaction promises\<close>

lemma clear_sync_pending_done: "\<not> sync_pending (clear_sync_pending db)"
  by (simp add: sync_pending_def clear_sync_pending_def list_ex_iff)

lemma pass2_finish:
  assumes "store_ok db" "update_sync_meta mode (Inr now) db = Inr db1"
  shows "store_ok (clear_sync_pending db1)" "pass2_frame db (clear_sync_pending db1)"
    "db_refs (clear_sync_pending db1) = db_refs db" "db_files (clear_sync_pending db1) = db_files db"
    "\<not> sync_pending (clear_sync_pending db1)"
proof -
  obtain meta where m: "clear_sync_pending db1 = db\<lparr>db_meta := meta\<rparr>"
    using assms(2) by (auto simp: update_sync_meta_def clear_sync_pending_def Let_def)
  show "store_ok (clear_sync_pending db1)" using assms(1) unfolding m by (simp add: store_defs)
  show "pass2_frame db (clear_sync_pending db1)" "db_refs (clear_sync_pending db1) = db_refs db"
    "db_files (clear_sync_pending db1) = db_files db" unfolding m by simp_all
qed (rule clear_sync_pending_done)

text \<open>The rows outside the rewritten files that a re-resolution refreshes.\<close>

definition selects :: "resolve_env \<Rightarrow> reresolve \<Rightarrow> string list \<Rightarrow> graph_db \<Rightarrow> ref_row \<Rightarrow> bool" where
  "selects env reresolve rewritten db r \<longleftrightarrow> rf_from_file r \<notin> set rewritten \<and>
     (case reresolve of
        All \<Rightarrow> True
      | Dependents before \<Rightarrow> reexports_changed before rewritten db \<or>
          selected_ref (dependents_between (re_ualnum env) db before rewritten) rewritten r)"

lemma reresolve_refs_exact:
  assumes "store_ok db"
  shows "\<exists>m. reresolve_refs env reresolve rewritten db = Inr (refresh_where env (selects env reresolve rewritten db) db, m)"
proof -
  have k: "distinct (map rf_id (db_refs db))" "\<forall>r \<in> set (db_refs db). file_stored db (rf_from_file r)"
    using assms by (simp_all add: store_defs)
  note exact = refresh_all_refs_exact [OF k, of env rewritten] refresh_dependent_refs_exact [OF k, of env _ rewritten]
  show ?thesis
  proof (cases reresolve)
    case (Dependents before)
    show ?thesis
    proof (cases "reexports_changed before rewritten db")
      case True
      then show ?thesis using exact(1) Dependents by (simp add: reresolve_refs_def selects_def [abs_def])
    next
      case False
      have "refresh_where env (selects env reresolve rewritten db) db =
          refresh_where env (selected_ref (dependents_between (re_ualnum env) db before rewritten) rewritten) db"
        using False Dependents by (intro refresh_where_cong) (auto simp: selects_def selected_ref_def)
      then show ?thesis using False exact(2) Dependents by (simp add: reresolve_refs_def)
    qed
  next
    case All
    then show ?thesis using exact(1) by (simp add: reresolve_refs_def selects_def [abs_def])
  qed
qed

lemma selects_inputs: "same_inputs db db' \<Longrightarrow> selects env reresolve rewritten db' = selects env reresolve rewritten db"
proof -
  assume s: "same_inputs db db'"
  have "reexports_changed before rewritten db' = reexports_changed before rewritten db" for before
    using s unfolding reexports_changed_def has_reexports_def [abs_def] by (simp add: same_inputs_def)
  moreover have "dependents_between u db' before rewritten = dependents_between u db before rewritten" for u before
    using s unfolding dependents_between_def defined_symbols_def [abs_def] trait_member_names_def [abs_def]
    by (simp add: same_inputs_def)
  ultimately show ?thesis unfolding selects_def [abs_def] by (simp only:)
qed

text \<open>
  The specification of pass 2: the rewritten files hold the extracted references, current and
  stamped; of the other rows, the selected ones are refreshed and the others stay.
\<close>

definition pass2_spec ::
  "resolve_env \<Rightarrow> extracted_file_refs list \<Rightarrow> reresolve \<Rightarrow> graph_db \<Rightarrow> graph_db \<Rightarrow> bool" where
  "pass2_spec env files reresolve db db' \<longleftrightarrow>
     (let paths = map er_file_path files in
      store_ok db' \<and> pass2_frame db db' \<and> \<not> sync_pending db' \<and>
      (distinct paths \<longrightarrow> (\<forall>file \<in> set files. rewritten_as file db')) \<and>
      (\<forall>r \<in> set (db_refs db'). rf_from_file r \<in> set paths \<longrightarrow> ref_current env db' r) \<and>
      filter (\<lambda>r. rf_from_file r \<notin> set paths) (db_refs db') =
        map (\<lambda>r. if selects env reresolve (btree_set paths) db r then refreshed env db r else r)
          (filter (\<lambda>r. rf_from_file r \<notin> set paths) (db_refs db)) \<and>
      filter (\<lambda>f. fl_path f \<notin> set paths) (db_files db') = filter (\<lambda>f. fl_path f \<notin> set paths) (db_files db))"

lemma set_btree_set [simp]: "set (btree_set xs) = set xs"
  by (simp add: btree_set_def)

lemma selects_outside: "selects env reresolve rewritten db r \<Longrightarrow> rf_from_file r \<notin> set rewritten"
  by (simp add: selects_def)

lemma filter_refresh_where:
  assumes "\<And>r. P (rf_from_file r) \<Longrightarrow> \<not> S r"
  shows "filter (\<lambda>r. P (rf_from_file r)) (db_refs (refresh_where env S db)) = filter (\<lambda>r. P (rf_from_file r)) (db_refs db)"
    and "filter (\<lambda>r. \<not> P (rf_from_file r)) (db_refs (refresh_where env S db)) =
      map (\<lambda>r. if S r then refreshed env db r else r) (filter (\<lambda>r. \<not> P (rf_from_file r)) (db_refs db))"
proof -
  have f: "rf_from_file (if S r then refreshed env db r else r) = rf_from_file r" for r by simp
  show "filter (\<lambda>r. \<not> P (rf_from_file r)) (db_refs (refresh_where env S db)) =
      map (\<lambda>r. if S r then refreshed env db r else r) (filter (\<lambda>r. \<not> P (rf_from_file r)) (db_refs db))"
    by (simp add: refresh_where_def filter_map o_def f)
  have "filter (\<lambda>r. P (rf_from_file r)) (db_refs (refresh_where env S db)) =
      map (\<lambda>r. if S r then refreshed env db r else r) (filter (\<lambda>r. P (rf_from_file r)) (db_refs db))"
    by (simp add: refresh_where_def filter_map o_def f)
  also have "\<dots> = filter (\<lambda>r. P (rf_from_file r)) (db_refs db)" using assms by (intro map_idI) auto
  finally show "filter (\<lambda>r. P (rf_from_file r)) (db_refs (refresh_where env S db)) =
      filter (\<lambda>r. P (rf_from_file r)) (db_refs db)" .
qed

lemma store_ok_refresh: "store_ok db \<Longrightarrow> store_ok (refresh_where env S db)"
proof (rule store_ok_frame)
  assume ok: "store_ok db"
  then have s: "\<forall>r \<in> set (db_refs db). file_stored db (rf_from_file r)" by (simp add: store_defs)
  show "distinct (map rf_id (db_refs (refresh_where env S db)))" using ok by (simp add: store_defs)
  show "\<forall>r \<in> set (db_refs (refresh_where env S db)). file_stored db (rf_from_file r)"
    using s by (auto simp: refresh_where_def)
qed simp_all

lemma pass2_run_ok:
  assumes "store_ok db" "\<forall>file \<in> set files. file_stored db (er_file_path file) \<and> refs_fit file"
  shows "\<exists>db'. pass2_run env mode files reresolve (Inr now) db = Inr db' \<and> pass2_spec env files reresolve db db'"
proof -
  let ?P = "set (map er_file_path files)" and ?rw = "btree_set (map er_file_path files)"
  obtain db1 where one: "rewrite_files env files db = Inr db1" "store_ok db1" "pass2_frame db db1"
    "filter (\<lambda>r. rf_from_file r \<notin> ?P) (db_refs db1) = filter (\<lambda>r. rf_from_file r \<notin> ?P) (db_refs db)"
    "filter (\<lambda>f. fl_path f \<notin> ?P) (db_files db1) = filter (\<lambda>f. fl_path f \<notin> ?P) (db_files db)"
    "\<forall>r \<in> set (db_refs db1). rf_from_file r \<in> ?P \<longrightarrow> ref_current env db1 r"
    "distinct (map er_file_path files) \<longrightarrow> (\<forall>file \<in> set files. rewritten_as file db1)"
    using rewrite_files_exact [OF assms, of env] by auto
  let ?S = "selects env reresolve ?rw db1"
  define db2 where "db2 = refresh_where env ?S db1"
  obtain m where two: "reresolve_refs env reresolve ?rw db1 = Inr (db2, m)"
    using reresolve_refs_exact [OF one(2), of env reresolve ?rw] by (auto simp: db2_def)
  have ok2: "store_ok db2" unfolding db2_def by (rule store_ok_refresh [OF one(2)])
  obtain db3 where three: "update_sync_meta mode (Inr now) db2 = Inr db3" by (simp add: update_sync_meta_def)
  let ?db = "clear_sync_pending db3"
  note fin = pass2_finish [OF ok2 three]
  have frame: "pass2_frame db1 ?db" using pass2_frame_trans [OF _ fin(2)] by (simp add: db2_def)
  have out: "\<not> ?S r" if "rf_from_file r \<in> ?P" for r using selects_outside that by fastforce
  have mine: "filter (\<lambda>r. rf_from_file r \<in> ?P) (db_refs ?db) = filter (\<lambda>r. rf_from_file r \<in> ?P) (db_refs db1)"
    unfolding fin(3) db2_def by (rule filter_refresh_where(1)) (rule out)
  have files: "db_files ?db = db_files db1" by (simp add: fin(4)) (simp add: db2_def refresh_where_def)
  have rest: "filter (\<lambda>r. rf_from_file r \<notin> ?P) (db_refs ?db) =
      map (\<lambda>r. if ?S r then refreshed env db1 r else r) (filter (\<lambda>r. rf_from_file r \<notin> ?P) (db_refs db1))"
    unfolding fin(3) db2_def by (rule filter_refresh_where(2)) (rule out)
  have "rewritten_as er ?db" if "distinct (map er_file_path files)" "er \<in> set files" for er
  proof (rule rewritten_as_outside [where P = "- ?P"])
    show "filter (\<lambda>r. rf_from_file r \<notin> - ?P) (db_refs ?db) = filter (\<lambda>r. rf_from_file r \<notin> - ?P) (db_refs db1)"
      using mine by simp
  qed (use that one(7) files in auto)
  moreover have "ref_current env ?db r" if "r \<in> set (db_refs ?db)" "rf_from_file r \<in> ?P" for r
  proof -
    have "r \<in> set (filter (\<lambda>r. rf_from_file r \<in> ?P) (db_refs ?db))" using that by simp
    then have "r \<in> set (db_refs db1)" unfolding mine by simp
    then show ?thesis using one(6) that(2) ref_current_inputs [OF pass2_frame_inputs [OF frame]] by metis
  qed
  moreover have "filter (\<lambda>r. rf_from_file r \<notin> ?P) (db_refs ?db) =
      map (\<lambda>r. if selects env reresolve ?rw db r then refreshed env db r else r)
        (filter (\<lambda>r. rf_from_file r \<notin> ?P) (db_refs db))"
    using rest one(4) selects_inputs [OF pass2_frame_inputs [OF one(3)]]
      refreshed_inputs [OF pass2_frame_inputs [OF one(3)]] by simp
  ultimately have "pass2_spec env files reresolve db ?db"
    using fin(1,5) pass2_frame_trans [OF one(3) frame] one(5) files unfolding pass2_spec_def Let_def by simp
  moreover have "pass2_run env mode files reresolve (Inr now) db = Inr ?db"
    unfolding pass2_run_def Let_def using one(1) two three by simp
  ultimately show ?thesis by blast
qed

text \<open>When everything is re-resolved, every stored reference is current afterwards.\<close>

lemma pass2_spec_all_current:
  assumes "pass2_spec env files reresolve db db'" "store_ok db"
    "\<And>r. r \<in> set (db_refs db) \<Longrightarrow> rf_from_file r \<notin> er_file_path ` set files \<Longrightarrow>
       selects env reresolve (btree_set (map er_file_path files)) db r \<or> ref_current env db r"
  shows "\<forall>r \<in> set (db_refs db'). ref_current env db' r"
proof
  fix r assume r: "r \<in> set (db_refs db')"
  let ?P = "set (map er_file_path files)"
  let ?f = "\<lambda>r. if selects env reresolve (btree_set (map er_file_path files)) db r then refreshed env db r else r"
  have spec: "\<forall>r \<in> set (db_refs db'). rf_from_file r \<in> ?P \<longrightarrow> ref_current env db' r"
    "filter (\<lambda>r. rf_from_file r \<notin> ?P) (db_refs db') = map ?f (filter (\<lambda>r. rf_from_file r \<notin> ?P) (db_refs db))"
    "pass2_frame db db'"
    using assms(1) unfolding pass2_spec_def Let_def by blast+
  show "ref_current env db' r"
  proof (cases "rf_from_file r \<in> ?P")
    case False
    then have "r \<in> set (filter (\<lambda>r. rf_from_file r \<notin> ?P) (db_refs db'))" using r by simp
    then obtain r0 where r0: "r0 \<in> set (db_refs db)" "rf_from_file r0 \<notin> ?P" "r = ?f r0" unfolding spec(2) by auto
    have "ref_current env db (?f r0)"
      using assms(3) [OF r0(1)] r0(1,2) assms(2) ref_current_refreshed by (auto simp: store_defs)
    then show ?thesis using r0(3) ref_current_inputs [OF pass2_frame_inputs [OF spec(3)]] by metis
  qed (use spec(1) r in blast)
qed

text \<open>
  C2. Pass 2 succeeds on any consistent store and commits exactly its specification: the marker is
  cleared; each rewritten file holds one row per extracted reference, in order, resolved as it
  resolves in the committed database, and is stamped with the hash and time it was extracted at;
  every other reference row the re-resolution selects is refreshed from its stored inputs; all other
  rows of all tables stay as they were. When everything is re-resolved, every stored reference is
  current afterwards.
\<close>

theorem pass2_run_exact:
  assumes "store_ok db" "\<forall>file \<in> set files. file_stored db (er_file_path file) \<and> refs_fit file"
  shows "\<exists>db'. pass2_run env mode files reresolve (Inr now) db = Inr db' \<and> pass2_spec env files reresolve db db' \<and>
    (reresolve = All \<longrightarrow> (\<forall>r \<in> set (db_refs db'). ref_current env db' r))"
proof -
  obtain db' where run: "pass2_run env mode files reresolve (Inr now) db = Inr db'" "pass2_spec env files reresolve db db'"
    using pass2_run_ok [OF assms] by blast
  moreover have "\<forall>r \<in> set (db_refs db'). ref_current env db' r" if "reresolve = All"
    by (rule pass2_spec_all_current [OF run(2) assms(1)]) (simp add: selects_def that)
  ultimately show ?thesis by blast
qed

definition demo_resolve_env :: resolve_env where
  "demo_resolve_env = \<lparr>re_package_for_file = (\<lambda>_. None), re_ualnum = (\<lambda>_. False)\<rparr>"

definition demo_rewrite_db :: graph_db where
  "demo_rewrite_db = demo_reexport_db\<lparr>db_symbols_fts := map fts_of_symbol (db_symbols demo_reexport_db)\<rparr>"

definition demo_file_refs :: extracted_file_refs where
  "demo_file_refs = \<lparr>er_file_path = ''src/c.rs'', er_refs = [demo_raw ''Bar'' (Some ''crate::a::Bar'') None],
     er_content_hash = ''h2'', er_mtime_ns = 8\<rparr>"

theorem pass2_run_exact_witness:
  "\<exists>db'. pass2_run demo_resolve_env Full [demo_file_refs] All (Inr ''now'') demo_rewrite_db = Inr db' \<and>
     rewritten_as demo_file_refs db' \<and> (\<forall>r \<in> set (db_refs db'). ref_current demo_resolve_env db' r)"
proof -
  have ok: "store_ok demo_rewrite_db"
    by (simp add: store_defs demo_rewrite_db_def demo_reexport_db_def demo_item_def demo_rust_file_def file_stored_def)
  have "\<forall>file \<in> set [demo_file_refs]. file_stored demo_rewrite_db (er_file_path file) \<and> refs_fit file"
    by (simp add: demo_file_refs_def demo_raw_def demo_rewrite_db_def demo_reexport_db_def demo_rust_file_def
        file_stored_def refs_fit_def fits_def I64_MAX_def)
  from pass2_run_exact [OF ok this, of demo_resolve_env Full All "''now''"] obtain db' where
    "pass2_run demo_resolve_env Full [demo_file_refs] All (Inr ''now'') demo_rewrite_db = Inr db'"
    "pass2_spec demo_resolve_env [demo_file_refs] All demo_rewrite_db db'"
    "\<forall>r \<in> set (db_refs db'). ref_current demo_resolve_env db' r" by blast
  then show ?thesis by (auto simp: pass2_spec_def Let_def)
qed

end
