(* ===== verification/Scanner.thy ===== *)
theory Scanner
  imports Sync_Pass1
begin

text \<open>
  The worktree scan of a sync (\<open>crates/orbit-graph/src/sync/scanner.rs\<close>) and the failure records of
  \<open>sync/mod.rs\<close>: the walk over the directory tree, the classification of each file against the
  stored rows, and the list of files to delete.

  The file system is a tree of listings, with the errors reading it gives. The \<open>.orbitignore\<close>
  matcher, Git's ignore rules, the extractor registry and the content hash are parameters.
\<close>

section \<open>Failures\<close>

datatype io_error_kind = PermissionDenied | IoNotFound | IoInvalidData | OtherIo

record io_error =
  io_kind :: io_error_kind
  io_message :: string

fun io_error_kind_label :: "io_error_kind \<Rightarrow> string" where
  "io_error_kind_label PermissionDenied = ''permission_denied''"
| "io_error_kind_label IoNotFound = ''not_found''"
| "io_error_kind_label IoInvalidData = ''invalid_data''"
| "io_error_kind_label OtherIo = ''io''"

definition display_rel_path :: "path_buf \<Rightarrow> string" where
  "display_rel_path path = (let text = normalize_path path in if text = [] then ''.'' else text)"

definition io_failure :: "path_buf \<Rightarrow> string \<Rightarrow> io_error \<Rightarrow> sync_failure" where
  "io_failure path operation e =
     \<lparr>sf_path = display_rel_path path, sf_operation = operation, sf_error_kind = io_error_kind_label (io_kind e),
      sf_message = io_message e\<rparr>"

fun graph_failure_class :: "graph_error \<Rightarrow> string \<times> string" where
  "graph_failure_class (Io operation _) = (operation, ''io'')"
| "graph_failure_class (Sqlite operation) = (operation, ''sqlite'')"
| "graph_failure_class (InvalidData operation _) = (operation, ''invalid_data'')"
| "graph_failure_class (IndexMissing _ _) = (''open graph index'', ''index_missing'')"
| "graph_failure_class (IndexIncompatible _ _) = (''open graph index'', ''index_incompatible'')"
| "graph_failure_class (VersionMismatch _ _ _ _ _) = (''open history index'', ''version_mismatch'')"
| "graph_failure_class (UnsafeStatePath _ _) = (''check state path'', ''unsafe_state_path'')"
| "graph_failure_class (Git operation) = (operation, ''git'')"
| "graph_failure_class (InvalidInput operation _ _) = (operation, ''invalid_input'')"
| "graph_failure_class (NotFound operation _) = (operation, ''not_found'')"
| "graph_failure_class (Timeout operation _ _) = (operation, ''timeout'')"
| "graph_failure_class (OrbitRefused _ _ _) = (''call Orbit'', ''orbit_refused'')"
| "graph_failure_class (Subprocess operation _ _) = (operation, ''subprocess'')"

definition graph_failure :: "(graph_error \<Rightarrow> string) \<Rightarrow> path_buf \<Rightarrow> graph_error \<Rightarrow> sync_failure" where
  "graph_failure display path e =
     (case graph_failure_class e of (operation, kind) \<Rightarrow>
        \<lparr>sf_path = display_rel_path path, sf_operation = operation, sf_error_kind = kind, sf_message = display e\<rparr>)"

section \<open>The walk\<close>

text \<open>
  A directory's listing as \<open>read_dir\<close> gives it: not at all, or entry by entry, where an entry may be
  an error, may hide its type, or is a directory, a regular file with its metadata, or another kind
  of node.
\<close>

datatype dir_entry =
    EntryError io_error
  | Untyped string io_error
  | Directory string dir_listing
  | RegularFile string "io_error + (graph_error + int) \<times> nat"
  | OtherNode string
and dir_listing = Unlisted io_error | Listed "dir_entry list"

record disk_file =
  kf_path :: path_buf
  kf_mtime_ns :: int
  kf_byte_len :: nat

record unreadable =
  ur_path :: path_buf
  ur_failure :: sync_failure

record walk =
  wk_files :: "disk_file list"
  wk_unreadable :: "unreadable list"

record scan_env =
  sv_orbitignored :: "path_buf \<Rightarrow> bool \<Rightarrow> bool"
  sv_language_for :: "path_buf \<Rightarrow> string option"
  sv_display :: "graph_error \<Rightarrow> string"

definition empty_walk :: walk where
  "empty_walk = \<lparr>wk_files = [], wk_unreadable = []\<rparr>"

definition note_unreadable :: "path_buf \<Rightarrow> string \<Rightarrow> io_error \<Rightarrow> walk \<Rightarrow> walk" where
  "note_unreadable rel operation e out =
     out\<lparr>wk_unreadable := wk_unreadable out @ [\<lparr>ur_path = rel, ur_failure = io_failure rel operation e\<rparr>]\<rparr>"

definition ORBITIGNORE_FILE_NAME :: string where
  "ORBITIGNORE_FILE_NAME = ''.orbitignore''"

definition SKIP_EXTENSIONS :: "string list" where
  "SKIP_EXTENSIONS =
     [''png'', ''jpg'', ''jpeg'', ''gif'', ''ico'', ''woff'', ''woff2'', ''ttf'', ''eot'', ''exe'', ''dll'', ''so'',
      ''dylib'', ''pdf'', ''zip'', ''tar'', ''gz'', ''lock'']"

text \<open>\<open>Path::extension\<close>: what follows the last dot, unless nothing precedes that dot.\<close>

definition path_extension :: "string \<Rightarrow> string option" where
  "path_extension name =
     (case rsplit_once ''.'' name of None \<Rightarrow> None | Some (stem, ext) \<Rightarrow> if stem = [] then None else Some ext)"

definition walk_file ::
  "scan_env \<Rightarrow> path_buf \<Rightarrow> string \<Rightarrow> io_error + (graph_error + int) \<times> nat \<Rightarrow> walk \<Rightarrow> walk" where
  "walk_file env rel name metadata out =
     (if name = ORBITIGNORE_FILE_NAME then out
      else if starts_with ''.'' name then out
      else if (case path_extension name of None \<Rightarrow> False | Some ext \<Rightarrow> ext \<in> set SKIP_EXTENSIONS) then out
      else if sv_orbitignored env rel False \<or> sv_language_for env rel = None then out
      else case metadata of
             Inl e \<Rightarrow> note_unreadable rel ''read file metadata'' e out
           | Inr (Inl e, _) \<Rightarrow>
               out\<lparr>wk_unreadable := wk_unreadable out @
                    [\<lparr>ur_path = rel, ur_failure = graph_failure (sv_display env) rel e\<rparr>]\<rparr>
           | Inr (Inr mtime_ns, byte_len) \<Rightarrow>
               out\<lparr>wk_files := wk_files out @ [\<lparr>kf_path = rel, kf_mtime_ns = mtime_ns, kf_byte_len = byte_len\<rparr>]\<rparr>)"

text \<open>An entry that cannot be read ends its directory, so the rest of the listing is not visited.\<close>

fun walk_dir :: "scan_env \<Rightarrow> path_buf \<Rightarrow> dir_listing \<Rightarrow> walk \<Rightarrow> walk"
  and walk_entries :: "scan_env \<Rightarrow> path_buf \<Rightarrow> dir_entry list \<Rightarrow> walk \<Rightarrow> walk" where
  "walk_dir env dir (Unlisted e) out = note_unreadable dir ''scan directory'' e out"
| "walk_dir env dir (Listed entries) out = walk_entries env dir entries out"
| "walk_entries env dir [] out = out"
| "walk_entries env dir (EntryError e # entries) out = note_unreadable dir ''read directory entry'' e out"
| "walk_entries env dir (Untyped name e # entries) out =
     walk_entries env dir entries (note_unreadable (dir @ [name]) ''read file type'' e out)"
| "walk_entries env dir (Directory name listing # entries) out =
     walk_entries env dir entries
       (if starts_with ''.'' name \<or> sv_orbitignored env (dir @ [name]) True then out
        else walk_dir env (dir @ [name]) listing out)"
| "walk_entries env dir (RegularFile name metadata # entries) out =
     walk_entries env dir entries (walk_file env (dir @ [name]) name metadata out)"
| "walk_entries env dir (OtherNode name # entries) out = walk_entries env dir entries out"

section \<open>The diff\<close>

record scan_row =
  sw_content_hash :: string
  sw_mtime_ns :: int
  sw_byte_len :: nat

definition load_file_rows :: "graph_db \<Rightarrow> (path_buf, scan_row) btree_map graph_result" where
  "load_file_rows db =
     (if list_ex (\<lambda>f. fl_byte_len f < 0) (db_files db) then Inl (Sqlite ''collect files scan rows'')
      else Inr (fold (\<lambda>f. btree_insert (path_components (fl_path f))
             \<lparr>sw_content_hash = fl_content_hash f, sw_mtime_ns = fl_mtime_ns f, sw_byte_len = nat (fl_byte_len f)\<rparr>)
           (db_files db) []))"

definition touch_mtime :: "path_buf \<Rightarrow> int \<Rightarrow> graph_db \<Rightarrow> graph_db" where
  "touch_mtime path mtime_ns db =
     db\<lparr>db_files := map (\<lambda>f. if fl_path f = normalize_path path then f\<lparr>fl_mtime_ns := mtime_ns\<rparr> else f) (db_files db)\<rparr>"

record scan_state =
  ss_rows :: "(path_buf, scan_row) btree_map"
  ss_diff :: diff
  ss_seen :: "path_buf list"

definition empty_diff :: diff where
  "empty_diff = \<lparr>df_unchanged = [], df_modified = [], df_new = [], df_deleted = [], df_oversize = [], df_failed = []\<rparr>"

definition skip_oversize :: "path_buf \<Rightarrow> diff \<Rightarrow> diff" where
  "skip_oversize path d = d\<lparr>df_oversize := df_oversize d @ [path]\<rparr>"

type_synonym hash_file = "path_buf \<Rightarrow> io_error + string option"

fun scan_files :: "sync_mode \<Rightarrow> hash_file \<Rightarrow> (path_buf \<Rightarrow> bool) \<Rightarrow> disk_file list \<Rightarrow> scan_state \<Rightarrow> scan_state sync" where
  "scan_files mode hash ignored [] st = sync_return st"
| "scan_files mode hash ignored (f # files) st =
     (let path = kf_path f; continue = scan_files mode hash ignored files; d = ss_diff st in
      if ignored path then continue st
      else if kf_byte_len f > MAX_FILE_BYTES then continue (st\<lparr>ss_diff := skip_oversize path d\<rparr>)
      else
        let existing = map_of (ss_rows st) path;
            st1 = st\<lparr>ss_rows := filter (\<lambda>e. fst e \<noteq> path) (ss_rows st)\<rparr>;
            seen = ss_seen st @ [path]
        in if (case existing of
                 None \<Rightarrow> False
               | Some row \<Rightarrow> mode = Auto \<and> sw_mtime_ns row = kf_mtime_ns f \<and> sw_byte_len row = kf_byte_len f)
           then continue (st1\<lparr>ss_seen := seen, ss_diff := d\<lparr>df_unchanged := df_unchanged d @ [path]\<rparr>\<rparr>)
           else case hash path of
                  Inl e \<Rightarrow>
                    continue (st1\<lparr>ss_seen := seen,
                      ss_diff := d\<lparr>df_failed := df_failed d @ [io_failure path ''read file for content hash'' e]\<rparr>\<rparr>)
                | Inr None \<Rightarrow> continue (st1\<lparr>ss_diff := skip_oversize path d\<rparr>)
                | Inr (Some content_hash) \<Rightarrow>
                    (case existing of
                       None \<Rightarrow> continue (st1\<lparr>ss_seen := seen, ss_diff := d\<lparr>df_new := df_new d @ [path]\<rparr>\<rparr>)
                     | Some row \<Rightarrow>
                         if mode = Auto \<and> content_hash = sw_content_hash row
                         then sync_bind (commit (\<lambda>db. Inr (touch_mtime path (kf_mtime_ns f) db))) (\<lambda>_.
                                continue (st1\<lparr>ss_seen := seen, ss_diff := d\<lparr>df_unchanged := df_unchanged d @ [path]\<rparr>\<rparr>))
                         else continue (st1\<lparr>ss_seen := seen, ss_diff := d\<lparr>df_modified := df_modified d @ [path]\<rparr>\<rparr>)))"

definition sort_diff :: "diff \<Rightarrow> diff" where
  "sort_diff d =
     \<lparr>df_unchanged = sort (df_unchanged d), df_modified = sort (df_modified d), df_new = sort (df_new d),
      df_deleted = sort (df_deleted d), df_oversize = sort (df_oversize d), df_failed = sort_key sf_path (df_failed d)\<rparr>"

definition scan ::
  "sync_mode \<Rightarrow> hash_file \<Rightarrow> scan_env graph_result \<Rightarrow> (path_buf list \<Rightarrow> (path_buf \<Rightarrow> bool) graph_result) \<Rightarrow> dir_listing \<Rightarrow> diff sync" where
  "scan mode hash load_env git_ignored_paths root =
     sync_bind (sync_read load_file_rows) (\<lambda>rows. sync_bind (sync_read (\<lambda>_. load_env)) (\<lambda>env.
       let out = walk_dir env [] root empty_walk;
           disk_files = sort_key kf_path (wk_files out)
       in sync_bind (sync_read (\<lambda>_. git_ignored_paths (map kf_path disk_files @ map ur_path (wk_unreadable out)))) (\<lambda>ignored.
          let unreadables = filter (\<lambda>e. \<not> ignored (ur_path e)) (wk_unreadable out) in
          sync_bind (scan_files mode hash ignored disk_files \<lparr>ss_rows = rows, ss_diff = empty_diff, ss_seen = []\<rparr>) (\<lambda>st.
            let d = ss_diff st;
                deleted = filter (\<lambda>p. p \<notin> set (ss_seen st) \<and> \<not> list_ex (\<lambda>e. prefix (ur_path e) p) unreadables)
                            (map fst (ss_rows st))
            in sync_return (sort_diff
                 (d\<lparr>df_deleted := df_deleted d @ deleted, df_failed := df_failed d @ map ur_failure unreadables\<rparr>))))))"

section \<open>What the walk finds\<close>

text \<open>A directory lists each name once.\<close>

fun entry_name :: "dir_entry \<Rightarrow> string option" where
  "entry_name (EntryError e) = None"
| "entry_name (Untyped name e) = Some name"
| "entry_name (Directory name listing) = Some name"
| "entry_name (RegularFile name metadata) = Some name"
| "entry_name (OtherNode name) = Some name"

fun names_unique :: "dir_listing \<Rightarrow> bool"
  and entries_unique :: "dir_entry list \<Rightarrow> bool" where
  "names_unique (Unlisted e) = True"
| "names_unique (Listed entries) = entries_unique entries"
| "entries_unique [] = True"
| "entries_unique (e # entries) =
     ((case entry_name e of None \<Rightarrow> True | Some n \<Rightarrow> n \<notin> set (kept (map entry_name entries))) \<and>
      (case e of Directory name listing \<Rightarrow> names_unique listing | _ \<Rightarrow> True) \<and> entries_unique entries)"

text \<open>A file the walk reports is one the index supports, neither hidden nor ignored.\<close>

definition indexable :: "scan_env \<Rightarrow> path_buf \<Rightarrow> bool" where
  "indexable env p \<longleftrightarrow> p \<noteq> [] \<and> \<not> starts_with ''.'' (last p) \<and> \<not> sv_orbitignored env p False \<and>
     sv_language_for env p \<noteq> None \<and>
     (case path_extension (last p) of None \<Rightarrow> True | Some ext \<Rightarrow> ext \<notin> set SKIP_EXTENSIONS)"

text \<open>The files a step of the walk adds: all indexable, below the given names of the directory, each once.\<close>

definition adds :: "scan_env \<Rightarrow> path_buf \<Rightarrow> string set \<Rightarrow> walk \<Rightarrow> walk \<Rightarrow> bool" where
  "adds env dir names out out' \<longleftrightarrow>
     (\<exists>new. wk_files out' = wk_files out @ new \<and> distinct (map kf_path new) \<and>
        (\<forall>f \<in> set new. indexable env (kf_path f) \<and> (\<exists>n \<in> names. prefix (dir @ [n]) (kf_path f))))"

lemma adds_none: "wk_files out' = wk_files out \<Longrightarrow> adds env dir names out out'"
  by (simp add: adds_def)

lemma prefix_one_name: "prefix (dir @ [a]) p \<Longrightarrow> prefix (dir @ [b]) p \<Longrightarrow> a = b"
  by (auto simp: prefix_def)

lemma adds_trans:
  assumes "adds env dir A out out1" "adds env dir B out1 out2" "A \<inter> B = {}"
  shows "adds env dir (A \<union> B) out out2"
proof -
  obtain new1 where 1: "wk_files out1 = wk_files out @ new1" "distinct (map kf_path new1)"
    "\<forall>f \<in> set new1. indexable env (kf_path f) \<and> (\<exists>n \<in> A. prefix (dir @ [n]) (kf_path f))"
    using assms(1) by (auto simp: adds_def)
  obtain new2 where 2: "wk_files out2 = wk_files out1 @ new2" "distinct (map kf_path new2)"
    "\<forall>f \<in> set new2. indexable env (kf_path f) \<and> (\<exists>n \<in> B. prefix (dir @ [n]) (kf_path f))"
    using assms(2) by (auto simp: adds_def)
  have "kf_path f \<noteq> kf_path g" if "f \<in> set new1" "g \<in> set new2" for f g
    using 1(3) 2(3) that assms(3) prefix_one_name by (metis disjoint_iff)
  then have "distinct (map kf_path (new1 @ new2))" using 1(2) 2(2) by auto
  then show ?thesis unfolding adds_def using 1 2 by (intro exI [of _ "new1 @ new2"]) auto
qed

lemma adds_mono: "adds env dir A out out' \<Longrightarrow> A \<subseteq> B \<Longrightarrow> adds env dir B out out'"
  unfolding adds_def by blast

lemma adds_below:
  assumes "adds env (dir @ [name]) A out out'"
  shows "adds env dir {name} out out'"
proof -
  have "prefix (dir @ [name]) p" if "prefix ((dir @ [name]) @ [n]) p" for n p
    using that by (metis append_prefixD)
  then show ?thesis using assms unfolding adds_def by blast
qed

lemma walk_file_adds: "adds env dir {name} out (walk_file env (dir @ [name]) name metadata out)"
  by (auto simp: walk_file_def adds_none note_unreadable_def split: sum.splits option.splits)
     (auto simp: adds_def indexable_def)

lemma walk_adds:
  "names_unique listing \<Longrightarrow> adds env dir UNIV out (walk_dir env dir listing out)"
  "entries_unique entries \<Longrightarrow> adds env dir (set (kept (map entry_name entries))) out (walk_entries env dir entries out)"
proof (induction env dir listing out and env dir entries out rule: walk_dir_walk_entries.induct)
  case (5 env dir name e entries out)
  have "adds env dir {name} out (note_unreadable (dir @ [name]) ''read file type'' e out)"
    by (simp add: adds_none note_unreadable_def)
  moreover have "{name} \<inter> set (kept (map entry_name entries)) = {}" "entries_unique entries" using 5(2) by auto
  ultimately show ?case using adds_trans 5(1) by fastforce
next
  case (6 env dir name listing entries out)
  let ?out = "if starts_with ''.'' name \<or> sv_orbitignored env (dir @ [name]) True then out
    else walk_dir env (dir @ [name]) listing out"
  have one: "adds env dir {name} out ?out"
  proof (cases "starts_with ''.'' name \<or> sv_orbitignored env (dir @ [name]) True")
    case False
    have "names_unique listing" using 6(3) by simp
    from adds_below [OF 6(1) [OF False this]] False show ?thesis by simp
  qed (simp add: adds_none)
  have "{name} \<inter> set (kept (map entry_name entries)) = {}" "entries_unique entries" using 6(3) by auto
  from adds_trans [OF one 6(2) this(1)] this(2) show ?case by simp
next
  case (7 env dir name metadata entries out)
  have "{name} \<inter> set (kept (map entry_name entries)) = {}" "entries_unique entries" using 7(2) by auto
  from adds_trans [OF walk_file_adds 7(1) this(1)] this(2) show ?case by simp
qed (auto simp: adds_none note_unreadable_def intro: adds_mono)

lemma walk_files:
  assumes "names_unique root"
  shows "distinct (map kf_path (wk_files (walk_dir env [] root empty_walk)))"
    and "\<forall>f \<in> set (wk_files (walk_dir env [] root empty_walk)). indexable env (kf_path f)"
  using walk_adds(1) [OF assms, of env "[]" empty_walk] by (auto simp: adds_def empty_walk_def)

section \<open>What the scan decides\<close>

text \<open>The reference definition: the verdict on one file, from the rows the scan started with.\<close>

datatype verdict = Skipped | Oversized | Fresh | Unhashed io_error | Grown | Added | Same | Changed

definition verdict ::
  "sync_mode \<Rightarrow> hash_file \<Rightarrow> (path_buf \<Rightarrow> bool) \<Rightarrow> (path_buf, scan_row) btree_map \<Rightarrow> disk_file \<Rightarrow> verdict" where
  "verdict mode hash ignored rows f =
     (if ignored (kf_path f) then Skipped
      else if kf_byte_len f > MAX_FILE_BYTES then Oversized
      else if (case map_of rows (kf_path f) of
                 None \<Rightarrow> False
               | Some row \<Rightarrow> mode = Auto \<and> sw_mtime_ns row = kf_mtime_ns f \<and> sw_byte_len row = kf_byte_len f)
      then Fresh
      else case hash (kf_path f) of
             Inl e \<Rightarrow> Unhashed e
           | Inr None \<Rightarrow> Grown
           | Inr (Some content_hash) \<Rightarrow>
               (case map_of rows (kf_path f) of
                  None \<Rightarrow> Added
                | Some row \<Rightarrow> if mode = Auto \<and> content_hash = sw_content_hash row then Same else Changed))"

definition scan_step :: "verdict \<Rightarrow> disk_file \<Rightarrow> scan_state \<Rightarrow> scan_state" where
  "scan_step v f st =
     (let path = kf_path f; d = ss_diff st;
          st1 = (if v \<in> {Skipped, Oversized} then st else st\<lparr>ss_rows := filter (\<lambda>e. fst e \<noteq> path) (ss_rows st)\<rparr>);
          st2 = (if v \<in> {Skipped, Oversized, Grown} then st1 else st1\<lparr>ss_seen := ss_seen st @ [path]\<rparr>)
      in st2\<lparr>ss_diff :=
           (case v of
              Skipped \<Rightarrow> d
            | Oversized \<Rightarrow> skip_oversize path d
            | Grown \<Rightarrow> skip_oversize path d
            | Fresh \<Rightarrow> d\<lparr>df_unchanged := df_unchanged d @ [path]\<rparr>
            | Same \<Rightarrow> d\<lparr>df_unchanged := df_unchanged d @ [path]\<rparr>
            | Changed \<Rightarrow> d\<lparr>df_modified := df_modified d @ [path]\<rparr>
            | Added \<Rightarrow> d\<lparr>df_new := df_new d @ [path]\<rparr>
            | Unhashed e \<Rightarrow> d\<lparr>df_failed := df_failed d @ [io_failure path ''read file for content hash'' e]\<rparr>)\<rparr>)"

lemma sync_bind_return [simp]: "sync_bind (sync_return a) f = f a"
  by (simp add: sync_defs)

lemma scan_files_step:
  "scan_files mode hash ignored (f # files) st =
     (let v = verdict mode hash ignored (ss_rows st) f in
      sync_bind (if v = Same then commit (\<lambda>db. Inr (touch_mtime (kf_path f) (kf_mtime_ns f) db)) else sync_return ())
        (\<lambda>_. scan_files mode hash ignored files (scan_step v f st)))"
  by (auto simp: verdict_def scan_step_def Let_def split: sum.splits option.splits)

lemma verdict_remove:
  "kf_path f \<noteq> p \<Longrightarrow> verdict mode hash ignored (filter (\<lambda>e. fst e \<noteq> p) rows) f = verdict mode hash ignored rows f"
proof -
  assume "kf_path f \<noteq> p"
  then have "map_of (filter (\<lambda>e. fst e \<noteq> p) rows) (kf_path f) = map_of rows (kf_path f)"
    by (induction rows) auto
  then show ?thesis unfolding verdict_def by (simp only:)
qed

lemma ss_rows_step:
  "ss_rows (scan_step v f st) = (if v \<in> {Skipped, Oversized} then ss_rows st else filter (\<lambda>e. fst e \<noteq> kf_path f) (ss_rows st))"
  by (simp add: scan_step_def Let_def)

text \<open>The loop decides each file by its verdict, and touches the time of the unchanged ones it had to hash.\<close>

definition touch_same :: "(disk_file \<Rightarrow> verdict) \<Rightarrow> disk_file list \<Rightarrow> graph_db \<Rightarrow> graph_db" where
  "touch_same v files = fold (\<lambda>f. touch_mtime (kf_path f) (kf_mtime_ns f)) (filter (\<lambda>f. v f = Same) files)"

lemma scan_files_fold:
  assumes "distinct (map kf_path files)"
  shows "\<exists>commits. scan_files mode hash ignored files st db =
      (commits, Inr (fold (\<lambda>f. scan_step (verdict mode hash ignored (ss_rows st) f) f) files st)) \<and>
    final_db db commits = touch_same (verdict mode hash ignored (ss_rows st)) files db"
  using assms
proof (induction files arbitrary: st db)
  case Nil
  then show ?case by (simp add: sync_defs touch_same_def)
next
  case (Cons f files)
  define v where "v = verdict mode hash ignored (ss_rows st)"
  define st1 where "st1 = scan_step (v f) f st"
  have same: "verdict mode hash ignored (ss_rows st1) g = v g" if "g \<in> set files" for g
  proof -
    have "kf_path g \<noteq> kf_path f" using Cons.prems that by (metis distinct.simps(2) image_eqI list.simps(9) set_map)
    then show ?thesis unfolding st1_def ss_rows_step v_def by (simp add: verdict_remove)
  qed
  have fold_eq: "fold (\<lambda>g. scan_step (verdict mode hash ignored (ss_rows st1) g) g) files st1 =
      fold (\<lambda>g. scan_step (v g) g) files st1"
    using same by (intro fold_cong) auto
  have touch_eq: "touch_same (verdict mode hash ignored (ss_rows st1)) files = touch_same v files"
    unfolding touch_same_def using same by (simp cong: filter_cong)
  have run: "scan_files mode hash ignored (f # files) st =
      sync_bind (if v f = Same then commit (\<lambda>db. Inr (touch_mtime (kf_path f) (kf_mtime_ns f) db)) else sync_return ())
        (\<lambda>_. scan_files mode hash ignored files st1)"
    unfolding scan_files_step Let_def v_def [symmetric] st1_def ..
  define db1 where "db1 = (if v f = Same then touch_mtime (kf_path f) (kf_mtime_ns f) db else db)"
  obtain commits where c: "scan_files mode hash ignored files st1 db1 = (commits, Inr (fold (\<lambda>g. scan_step (v g) g) files st1))"
    "final_db db1 commits = touch_same v files db1"
    using Cons.IH [of st1 db1] Cons.prems fold_eq touch_eq by auto
  have "scan_files mode hash ignored (f # files) st db =
      ((if v f = Same then db1 # commits else commits), Inr (fold (\<lambda>g. scan_step (v g) g) (f # files) st))"
    unfolding run using c(1) by (cases "v f = Same") (simp_all add: sync_defs db1_def st1_def)
  moreover have "final_db db (if v f = Same then db1 # commits else commits) = touch_same v (f # files) db"
    using c(2) by (cases "v f = Same") (simp_all add: touch_same_def db1_def)
  ultimately show ?case unfolding v_def by blast
qed

definition picked :: "(disk_file \<Rightarrow> verdict) \<Rightarrow> verdict set \<Rightarrow> disk_file list \<Rightarrow> path_buf list" where
  "picked v V files = map kf_path (filter (\<lambda>f. v f \<in> V) files)"

definition hash_failures :: "(disk_file \<Rightarrow> verdict) \<Rightarrow> disk_file list \<Rightarrow> sync_failure list" where
  "hash_failures v files =
     kept (map (\<lambda>f. case v f of Unhashed e \<Rightarrow> Some (io_failure (kf_path f) ''read file for content hash'' e) | _ \<Rightarrow> None) files)"

lemma scan_fold_fields:
  fixes v :: "disk_file \<Rightarrow> verdict"
  defines "st' \<equiv> \<lambda>files st. fold (\<lambda>f. scan_step (v f) f) files st"
  shows "ss_rows (st' files st) = filter (\<lambda>e. fst e \<notin> set (picked v (- {Skipped, Oversized}) files)) (ss_rows st)"
    and "ss_seen (st' files st) = ss_seen st @ picked v (- {Skipped, Oversized, Grown}) files"
    and "ss_diff (st' files st) =
      \<lparr>df_unchanged = df_unchanged (ss_diff st) @ picked v {Fresh, Same} files,
       df_modified = df_modified (ss_diff st) @ picked v {Changed} files,
       df_new = df_new (ss_diff st) @ picked v {Added} files, df_deleted = df_deleted (ss_diff st),
       df_oversize = df_oversize (ss_diff st) @ picked v {Oversized, Grown} files,
       df_failed = df_failed (ss_diff st) @ hash_failures v files\<rparr>"
proof -
  show "ss_rows (st' files st) = filter (\<lambda>e. fst e \<notin> set (picked v (- {Skipped, Oversized}) files)) (ss_rows st)"
    unfolding st'_def
    by (induction files arbitrary: st) (auto simp: ss_rows_step picked_def intro!: filter_cong)
  show "ss_seen (st' files st) = ss_seen st @ picked v (- {Skipped, Oversized, Grown}) files"
    unfolding st'_def by (induction files arbitrary: st) (auto simp: scan_step_def picked_def Let_def)
  show "ss_diff (st' files st) =
      \<lparr>df_unchanged = df_unchanged (ss_diff st) @ picked v {Fresh, Same} files,
       df_modified = df_modified (ss_diff st) @ picked v {Changed} files,
       df_new = df_new (ss_diff st) @ picked v {Added} files, df_deleted = df_deleted (ss_diff st),
       df_oversize = df_oversize (ss_diff st) @ picked v {Oversized, Grown} files,
       df_failed = df_failed (ss_diff st) @ hash_failures v files\<rparr>"
    unfolding st'_def
  proof (induction files arbitrary: st)
    case (Cons f files)
    then show ?case
      by (cases "v f") (simp_all add: scan_step_def picked_def hash_failures_def skip_oversize_def Let_def)
  qed (simp add: picked_def hash_failures_def)
qed

text \<open>What a scan reports, from the walk, Git's answer and the stored rows.\<close>

definition scan_report ::
  "(disk_file \<Rightarrow> verdict) \<Rightarrow> disk_file list \<Rightarrow> unreadable list \<Rightarrow> (path_buf, scan_row) btree_map \<Rightarrow> diff" where
  "scan_report v files unreadables rows =
     \<lparr>df_unchanged = sort (picked v {Fresh, Same} files), df_modified = sort (picked v {Changed} files),
      df_new = sort (picked v {Added} files),
      df_deleted = sort (filter (\<lambda>p. p \<notin> set (picked v (- {Skipped, Oversized}) files) \<and>
        \<not> (\<exists>e \<in> set unreadables. prefix (ur_path e) p)) (map fst rows)),
      df_oversize = sort (picked v {Oversized, Grown} files),
      df_failed = sort_key sf_path (hash_failures v files @ map ur_failure unreadables)\<rparr>"

lemma scan_ok:
  fixes env :: scan_env and root :: dir_listing and out :: walk and files :: "disk_file list"
  defines "out \<equiv> walk_dir env [] root empty_walk"
  defines "files \<equiv> sort_key kf_path (wk_files out)"
  assumes rows: "load_file_rows db = Inr rows" and names: "names_unique root"
    and ign: "git_ignored_paths (map kf_path files @ map ur_path (wk_unreadable out)) = Inr ignored"
  shows "\<exists>commits. scan mode hash (Inr env) git_ignored_paths root db =
      (commits, Inr (scan_report (verdict mode hash ignored rows) files
         (filter (\<lambda>e. \<not> ignored (ur_path e)) (wk_unreadable out)) rows)) \<and>
    final_db db commits = touch_same (verdict mode hash ignored rows) files db"
proof -
  let ?v = "verdict mode hash ignored rows"
  let ?st = "\<lparr>ss_rows = rows, ss_diff = empty_diff, ss_seen = []\<rparr>"
  let ?st' = "fold (\<lambda>f. scan_step (?v f) f) files ?st"
  let ?un = "filter (\<lambda>e. \<not> ignored (ur_path e)) (wk_unreadable out)"
  have "distinct (map kf_path (wk_files out))" unfolding out_def by (rule walk_files(1) [OF names])
  then have d: "distinct (map kf_path files)" by (simp add: files_def distinct_map)
  obtain commits where c: "scan_files mode hash ignored files ?st db = (commits, Inr ?st')"
    "final_db db commits = touch_same ?v files db"
    using scan_files_fold [OF d, of mode hash ignored ?st db] by auto
  note f = scan_fold_fields [of ?v files ?st]
  have seen: "set (ss_seen ?st') \<subseteq> set (picked ?v (- {Skipped, Oversized}) files)"
    unfolding f(2) by (auto simp: picked_def)
  have "filter (\<lambda>p. p \<notin> set (ss_seen ?st') \<and> \<not> list_ex (\<lambda>e. prefix (ur_path e) p) ?un) (map fst (ss_rows ?st')) =
      filter (\<lambda>p. p \<notin> set (picked ?v (- {Skipped, Oversized}) files) \<and> \<not> (\<exists>e \<in> set ?un. prefix (ur_path e) p)) (map fst rows)"
    unfolding f(1) using seen by (auto simp: filter_map o_def list_ex_iff intro!: arg_cong [of _ _ "map fst"] filter_cong)
  then have "scan mode hash (Inr env) git_ignored_paths root db = (commits, Inr (scan_report ?v files ?un rows))"
    unfolding scan_def scan_report_def using rows ign c(1) f(3)
    by (simp add: sync_bind_def sync_read_def sync_return_def out_def [symmetric] files_def [symmetric]
        empty_diff_def sort_diff_def Let_def)
  with c(2) show ?thesis by blast
qed


definition demo_scan_env :: scan_env where
  "demo_scan_env = \<lparr>sv_orbitignored = (\<lambda>p d. p = [''target'']), sv_language_for = (\<lambda>p. Some ''python''), sv_display = (\<lambda>_. [])\<rparr>"

definition demo_tree :: dir_listing where
  "demo_tree = Listed [RegularFile ''a.py'' (Inr (Inr 7, 10)), Directory ''target'' (Listed [RegularFile ''t.py'' (Inr (Inr 1, 1))]),
     Directory ''sub'' (Unlisted \<lparr>io_kind = PermissionDenied, io_message = ''denied''\<rparr>), RegularFile ''new.py'' (Inr (Inr 3, 5))]"

definition demo_scan :: "diff sync" where
  "demo_scan = scan Auto (\<lambda>p. Inr (Some ''h2'')) (Inr demo_scan_env) (\<lambda>paths. Inr (\<lambda>p. False)) demo_tree"

definition demo_scan_as_expected :: bool where
  "demo_scan_as_expected =
     (case demo_scan demo_two_files of
        (commits, Inr d) \<Rightarrow> commits = [] \<and> df_unchanged d = [[''a.py'']] \<and> df_new d = [[''new.py'']] \<and> df_modified d = [] \<and>
          df_deleted d = [[''b.py'']] \<and> map sf_path (df_failed d) = [''sub'']
      | _ \<Rightarrow> False)"


text \<open>
  A stored file that grows past the cap between the walk and the read is reported as oversize and
  not deleted, so its old rows stay; one the walk already finds too large is deleted.
\<close>

definition oversize_file_kept :: bool where
  "oversize_file_kept =
     (let run = (\<lambda>len. scan Auto (\<lambda>p. Inr None) (Inr demo_scan_env) (\<lambda>paths. Inr (\<lambda>p. False))
          (Listed [RegularFile ''a.py'' (Inr (Inr 8, len)), RegularFile ''b.py'' (Inr (Inr 7, 10))]) demo_two_files)
      in case (run 11, run (MAX_FILE_BYTES + 1)) of
           ((_, Inr grown), (_, Inr large)) \<Rightarrow>
             df_oversize grown = [[''a.py'']] \<and> df_deleted grown = [] \<and>
             df_oversize large = [[''a.py'']] \<and> df_deleted large = [[''a.py'']]
         | _ \<Rightarrow> False)"

theorem grown_file_keeps_rows: oversize_file_kept
  by code_simp

end
