(* ===== verification/Sync_Run.thy ===== *)
theory Sync_Run
  imports Sync_Pass2 Scanner
begin

text \<open>
  A whole sync (\<open>crates/orbit-graph/src/sync/mod.rs\<close>): the scan, pass 1 and pass 2 in order, the
  unfinished-sync marker, and what a sync does when it finds one.

  The file lock and the clock of the report's duration are not modelled. A crash is any prefix of
  the commits of a run.
\<close>

section \<open>The run\<close>

record sync_skip =
  sk_path :: string
  sk_reason :: string

record sync_report =
  sr_files_indexed :: nat
  sr_files_changed :: nat
  sr_files_removed :: nat
  sr_failed :: "sync_failure list"
  sr_skipped :: "sync_skip list"
  sr_database_path :: string
  sr_branch :: string

datatype sync_outcome = Completed sync_report | Cancelled sync_report

record sync_env =
  sx_resolve :: resolve_env
  sx_backend :: backend
  sx_file_len :: "path_buf \<Rightarrow> nat"
  sx_limits :: pass1_limits
  sx_now :: "string graph_result"
  sx_db_path :: string

definition skips :: "path_buf list \<Rightarrow> sync_skip list" where
  "skips paths = map (\<lambda>p. \<lparr>sk_path = normalize_path p, sk_reason = ''oversize''\<rparr>) paths"

definition manifest_changed :: "diff \<Rightarrow> bool" where
  "manifest_changed d \<longleftrightarrow>
     list_ex (\<lambda>p. p \<noteq> [] \<and> last p = ''Cargo.toml'') (df_modified d @ df_new d @ df_deleted d)"

definition definitions_before_pass1 :: "diff \<Rightarrow> graph_db \<Rightarrow> definitions" where
  "definitions_before_pass1 d db = definitions_load db (map normalize_path (df_modified d @ df_deleted d))"

definition initial_report :: "sync_env \<Rightarrow> diff \<Rightarrow> sync_report" where
  "initial_report env d =
     \<lparr>sr_files_indexed = 0, sr_files_changed = 0, sr_files_removed = 0, sr_failed = df_failed d,
      sr_skipped = skips (df_oversize d), sr_database_path = sx_db_path env, sr_branch = []\<rparr>"

definition report_pass1 :: "pass1_output \<Rightarrow> sync_report \<Rightarrow> sync_report" where
  "report_pass1 p1 rep =
     rep\<lparr>sr_files_indexed := po_files_indexed p1, sr_files_changed := po_files_written p1,
         sr_files_removed := po_files_removed p1,
         sr_failed := sort_key sf_path (sr_failed rep @ po_failed p1),
         sr_skipped := sr_skipped rep @ skips (po_oversize p1)\<rparr>"

definition count_indexed_files :: "graph_db \<Rightarrow> nat graph_result" where
  "count_indexed_files db = Inr (length (db_files db))"

text \<open>Pass 1 and pass 2 once what to re-resolve is known.\<close>

definition write_passes ::
  "sync_env \<Rightarrow> sync_mode \<Rightarrow> diff \<Rightarrow> observer \<Rightarrow> definitions option \<Rightarrow> sync_outcome sync" where
  "write_passes env mode d observer before =
     sync_bind (pass1_run observer (sx_backend env) (sx_file_len env) (sx_limits env) d) (\<lambda>p1.
       let rep = report_pass1 p1 (initial_report env d) in
       if po_cancelled p1 then sync_return (Cancelled rep)
       else sync_bind (commit (pass2_run (sx_resolve env) mode (po_refs p1)
              (case before of Some b \<Rightarrow> Dependents b | None \<Rightarrow> All) (sx_now env))) (\<lambda>_.
            sync_return (Completed rep)))"

definition write_sync :: "sync_env \<Rightarrow> sync_mode \<Rightarrow> diff \<Rightarrow> observer \<Rightarrow> sync_outcome sync" where
  "write_sync env mode d observer =
     sync_bind (sync_read (\<lambda>db. Inr (sync_pending db))) (\<lambda>recovering.
       if \<not> has_changes d \<and> \<not> recovering
       then sync_bind (sync_read count_indexed_files) (\<lambda>n.
              sync_return (Completed ((initial_report env d)\<lparr>sr_files_indexed := n\<rparr>)))
       else sync_bind (if recovering \<or> mode = Full \<or> manifest_changed d then sync_return None
                       else sync_read (\<lambda>db. Inr (Some (definitions_before_pass1 d db))))
              (write_passes env mode d observer))"

definition run_with_observer ::
  "sync_env \<Rightarrow> sync_mode \<Rightarrow> hash_file \<Rightarrow> scan_env graph_result \<Rightarrow> (path_buf list \<Rightarrow> (path_buf \<Rightarrow> bool) graph_result) \<Rightarrow>
     dir_listing \<Rightarrow> observer \<Rightarrow> sync_outcome sync" where
  "run_with_observer env mode hash load_env git_ignored_paths root observer =
     sync_bind (scan mode hash load_env git_ignored_paths root) (\<lambda>d. write_sync env mode d observer)"

section \<open>Every commit of a sync\<close>

definition refs_current :: "resolve_env \<Rightarrow> graph_db \<Rightarrow> bool" where
  "refs_current env db \<longleftrightarrow> (\<forall>r \<in> set (db_refs db). ref_current env db r)"

text \<open>The marker is gone only when pass 2 has committed, on top of what pass 1 left.\<close>

definition finished ::
  "resolve_env \<Rightarrow> string set \<Rightarrow> graph_db \<Rightarrow> reresolve \<Rightarrow> graph_db \<Rightarrow> bool" where
  "finished env B base reresolve db \<longleftrightarrow>
     (\<exists>db1 files. written_inv B base files db1 \<and> pass2_spec env files reresolve db1 db)"

lemma finished_ok: "finished env B base reresolve db \<Longrightarrow> store_ok db \<and> \<not> sync_pending db"
  by (auto simp: finished_def pass2_spec_def Let_def)

lemma pass2_written:
  assumes "written_inv B base files db" "pass2_run env mode files reresolve now db = Inr db'"
  shows "finished env B base reresolve db'"
proof -
  have "now \<noteq> Inl e" for e
    using assms(2) by (auto simp: pass2_run_def Let_def res_simps update_sync_meta_def split: prod.splits)
  then obtain t where "now = Inr t" by (cases now) auto
  moreover have "store_ok db" "\<forall>file \<in> set files. file_stored db (er_file_path file) \<and> refs_fit file"
    using assms(1) by (auto simp: written_inv_def)
  ultimately have "pass2_spec env files reresolve db db'"
    using pass2_run_ok [of db files env mode reresolve t] assms(2) by auto
  then show ?thesis using assms(1) by (auto simp: finished_def)
qed

lemma write_passes_triple:
  assumes "backend_ok (sx_backend env)" "store_ok base"
  shows "triple (\<lambda>db. db = base) (write_passes env mode d observer before)
    (\<lambda>out db. case out of
       Completed rep \<Rightarrow> finished (sx_resolve env) (diff_files d) base (case before of Some b \<Rightarrow> Dependents b | None \<Rightarrow> All) db
     | Cancelled rep \<Rightarrow> store_ok db \<and> sync_pending db)
    (\<lambda>db. store_ok db \<and> (sync_pending db \<or>
       finished (sx_resolve env) (diff_files d) base (case before of Some b \<Rightarrow> Dependents b | None \<Rightarrow> All) db))"
    (is "triple _ _ ?Q ?C")
proof -
  have "triple (\<lambda>db. db = base) (pass1_run observer (sx_backend env) (sx_file_len env) (sx_limits env) d)
      (\<lambda>out. written_inv (diff_files d) base (po_refs out)) ?C"
    by (rule triple_conseq [OF pass1_run_triple [OF assms]]) (auto simp: pass1_inv_def)
  moreover have "triple (written_inv (diff_files d) base refs)
      (commit (pass2_run (sx_resolve env) mode refs (case before of Some b \<Rightarrow> Dependents b | None \<Rightarrow> All) (sx_now env)))
      (\<lambda>_. finished (sx_resolve env) (diff_files d) base (case before of Some b \<Rightarrow> Dependents b | None \<Rightarrow> All)) ?C" for refs
    using pass2_written finished_ok by (intro triple_commit) blast
  ultimately show ?thesis
    unfolding write_passes_def Let_def
    by (auto intro!: triple_bind triple_return simp: written_inv_def split: if_split elim!: triple_bind)
qed

text \<open>A sync whose pass 2 re-resolves everything.\<close>

definition resolves_all :: "sync_mode \<Rightarrow> diff \<Rightarrow> graph_db \<Rightarrow> bool" where
  "resolves_all mode d db \<longleftrightarrow> sync_pending db \<or> has_changes d \<and> (mode = Full \<or> manifest_changed d)"

lemma finished_all_current: "finished env B base All db \<Longrightarrow> refs_current env db"
proof -
  assume "finished env B base All db"
  then obtain db1 files where f: "written_inv B base files db1" "pass2_spec env files All db1 db"
    by (auto simp: finished_def)
  then have "store_ok db1" by (simp add: written_inv_def)
  then show ?thesis
    using pass2_spec_all_current [OF f(2)] by (auto simp: refs_current_def selects_def)
qed

lemma write_sync_passes:
  "resolves_all mode d db \<Longrightarrow> write_sync env mode d observer db = write_passes env mode d observer None db"
  by (auto simp: write_sync_def resolves_all_def sync_bind_def sync_read_def sync_return_def split: prod.splits sum.splits)

lemma write_sync_store_ok:
  assumes "backend_ok (sx_backend env)" "store_ok db" "write_sync env mode d observer db = (commits, result)"
    "db' \<in> set commits"
  shows "store_ok db'"
proof -
  have run: "write_sync env mode d observer db = write_passes env mode d observer before db \<Longrightarrow> ?thesis" for before
    using tripleD(1) [OF write_passes_triple [OF assms(1,2), of mode d observer before] refl, of commits result db'] assms(3,4)
    by simp
  show ?thesis
  proof (cases "\<not> has_changes d \<and> \<not> sync_pending db")
    case True
    then show ?thesis using assms(3,4) by (auto simp: write_sync_def sync_defs count_indexed_files_def)
  next
    case False
    have "\<exists>before. write_sync env mode d observer db = write_passes env mode d observer before db"
      using False unfolding write_sync_def
      by (cases "sync_pending db \<or> mode = Full \<or> manifest_changed d")
         (auto simp: sync_bind_def sync_read_def sync_return_def split: prod.splits sum.splits)
    then show ?thesis using run by blast
  qed
qed

text \<open>
  C4. A sync that re-resolves everything (a full one, one with a changed manifest, or one that finds
  the marker of an interrupted sync) never exposes a half-done state: every database it commits
  satisfies the store invariant and either carries the marker or has every stored reference resolved
  as its inputs resolve in that database. Once it completes, the marker is gone and every reference
  is current; when it is cancelled, the marker stays.
\<close>

theorem sync_all_or_pending:
  assumes "backend_ok (sx_backend env)" "store_ok db" "resolves_all mode d db"
    "write_sync env mode d observer db = (commits, result)"
  shows "(\<forall>db' \<in> set commits. store_ok db' \<and> (sync_pending db' \<or> refs_current (sx_resolve env) db')) \<and>
    (case result of
       Inr (Completed rep) \<Rightarrow> \<not> sync_pending (final_db db commits) \<and> refs_current (sx_resolve env) (final_db db commits)
     | Inr (Cancelled rep) \<Rightarrow> sync_pending (final_db db commits)
     | Inl e \<Rightarrow> True)"
proof -
  have run: "write_passes env mode d observer None db = (commits, result)"
    using write_sync_passes [OF assms(3)] assms(4) by simp
  note t = tripleD [OF write_passes_triple [OF assms(1,2), of mode d observer None] refl run]
  have "\<forall>db' \<in> set commits. store_ok db' \<and> (sync_pending db' \<or> refs_current (sx_resolve env) db')"
    using t(1) finished_all_current by (metis option.simps(4))
  moreover have "case result of
       Inr (Completed rep) \<Rightarrow> \<not> sync_pending (final_db db commits) \<and> refs_current (sx_resolve env) (final_db db commits)
     | Inr (Cancelled rep) \<Rightarrow> sync_pending (final_db db commits)
     | Inl e \<Rightarrow> True"
    using t(2) finished_all_current finished_ok by (auto split: sum.split sync_outcome.split)
  ultimately show ?thesis by blast
qed

section \<open>Recovery completes\<close>

text \<open>Total correctness: from the precondition the run returns, and the postcondition holds.\<close>

definition total_run :: "(graph_db \<Rightarrow> bool) \<Rightarrow> 'a sync \<Rightarrow> ('a \<Rightarrow> graph_db \<Rightarrow> bool) \<Rightarrow> bool" where
  "total_run P m Q \<longleftrightarrow> (\<forall>db. P db \<longrightarrow> (\<exists>commits a. m db = (commits, Inr a) \<and> Q a (final_db db commits)))"

lemma total_return: "(\<And>db. P db \<Longrightarrow> Q a db) \<Longrightarrow> total_run P (sync_return a) Q"
  by (simp add: total_run_def sync_return_def)

lemma total_read: "(\<And>db. P db \<Longrightarrow> \<exists>a. f db = Inr a \<and> Q a db) \<Longrightarrow> total_run P (sync_read f) Q"
  by (force simp: total_run_def sync_read_def)

lemma total_commit: "(\<And>db. P db \<Longrightarrow> \<exists>db'. tx db = Inr db' \<and> Q () db') \<Longrightarrow> total_run P (commit tx) Q"
  by (force simp: total_run_def commit_def)

lemma total_bind:
  assumes "total_run P m R" "\<And>a. total_run (R a) (f a) Q"
  shows "total_run P (sync_bind m f) Q"
  unfolding total_run_def
proof (intro allI impI)
  fix db assume "P db"
  then obtain commits a where m: "m db = (commits, Inr a)" "R a (final_db db commits)"
    using assms(1) by (auto simp: total_run_def)
  then obtain commits' b where "f a (final_db db commits) = (commits', Inr b)" "Q b (final_db (final_db db commits) commits')"
    using assms(2) [of a] by (auto simp: total_run_def)
  with m show "\<exists>commits b. sync_bind m f db = (commits, Inr b) \<and> Q b (final_db db commits)"
    by (auto simp: sync_bind_def)
qed

lemma total_conseq:
  "total_run P m Q \<Longrightarrow> (\<And>db. P' db \<Longrightarrow> P db) \<Longrightarrow> (\<And>a db. Q a db \<Longrightarrow> Q' a db) \<Longrightarrow> total_run P' m Q'"
  unfolding total_run_def by blast

text \<open>No observer, and extractions without commands: nothing is left that could stop pass 1.\<close>

definition no_commands :: "backend \<Rightarrow> bool" where
  "no_commands backend \<longleftrightarrow> (\<forall>p file. extract_one backend p = Inr file \<longrightarrow> ef_commands (xf_rows file) = [])"

definition quiet :: "pass1_state \<Rightarrow> bool" where
  "quiet st \<longleftrightarrow> ps_commands st = [] \<and> \<not> ps_cancelled st"

lemma delete_files_total:
  assumes "\<forall>p \<in> set paths. normalize_path p \<in> B" "ps_refs st = []" "quiet st"
  shows "total_run (written_inv B base []) (delete_files None paths st)
    (\<lambda>st db. written_inv B base (ps_refs st) db \<and> quiet st)"
  using assms
proof (induction paths arbitrary: st)
  case Nil
  then show ?case by (simp add: total_return)
next
  case (Cons p paths)
  have "total_run (written_inv B base []) (commit (delete_file_transaction (normalize_path p))) (\<lambda>_. written_inv B base [])"
    using delete_written_inv [of B base _ "normalize_path p"] Cons.prems(1) by (intro total_commit) auto
  moreover have "total_run (written_inv B base [])
      (delete_files None paths (st\<lparr>ps_files_removed := Suc (ps_files_removed st),
         ps_files_touched := Suc (ps_files_touched st), ps_last_touched_path := Some (normalize_path p)\<rparr>))
      (\<lambda>st db. written_inv B base (ps_refs st) db \<and> quiet st)"
    using Cons.prems by (intro Cons.IH) (auto simp: quiet_def)
  ultimately show ?case by (auto simp: poll_def report_def intro!: total_bind)
qed

lemma write_files_total:
  assumes "\<forall>f \<in> set files. xf_file_path f \<in> B \<and> extracted_ok f \<and> ef_commands (xf_rows f) = []" "quiet st"
  shows "total_run (written_inv B base (ps_refs st)) (write_files None files st)
    (\<lambda>st db. written_inv B base (ps_refs st) db \<and> quiet st)"
  using assms
proof (induction files arbitrary: st)
  case Nil
  then show ?case by (simp add: total_return)
next
  case (Cons f files)
  let ?st = "st\<lparr>ps_refs := ps_refs st @ [file_refs_of f], ps_commands := ps_commands st @ ef_commands (xf_rows f),
    ps_files_written := Suc (ps_files_written st), ps_files_touched := Suc (ps_files_touched st),
    ps_last_touched_path := Some (xf_file_path f)\<rparr>"
  have "\<exists>db'. write_file_transaction f db = Inr db' \<and> written_inv B base (ps_refs ?st) db'"
    if "written_inv B base (ps_refs st) db" for db
    using write_file_ok [of db f] write_written_inv [OF that, of f] that Cons.prems(1) by (auto simp: written_inv_def)
  then have "total_run (written_inv B base (ps_refs st)) (commit (write_file_transaction f)) (\<lambda>_. written_inv B base (ps_refs ?st))"
    by (rule total_commit)
  moreover have "total_run (written_inv B base (ps_refs ?st)) (write_files None files ?st)
      (\<lambda>st db. written_inv B base (ps_refs st) db \<and> quiet st)"
    using Cons.prems by (intro Cons.IH) (auto simp: quiet_def)
  ultimately show ?case by (auto simp: poll_def report_def intro!: total_bind)
qed

lemma run_chunks_total:
  assumes "backend_ok backend" "no_commands backend" "\<forall>p \<in> set (concat chunks). normalize_path p \<in> B" "quiet st"
  shows "total_run (written_inv B base (ps_refs st)) (run_chunks None backend chunks st)
    (\<lambda>st db. written_inv B base (ps_refs st) db \<and> quiet st)"
  using assms(3,4)
proof (induction chunks arbitrary: st)
  case Nil
  then show ?case by (simp add: total_return)
next
  case (Cons chunk chunks)
  obtain files st2 where e: "extract_chunk backend chunk st = (files, st2)" by fastforce
  note x = extract_chunk_files [OF e assms(1), of B]
  have "\<forall>f \<in> set files. ef_commands (xf_rows f) = []"
    using e assms(2) set_extracted [of backend chunk]
    by (auto simp: extract_chunk_def no_commands_def split: prod.splits)
  moreover have "quiet st2" using e Cons.prems(2) by (auto simp: extract_chunk_def quiet_def split: prod.splits)
  ultimately have w: "total_run (written_inv B base (ps_refs st)) (write_files None files st2)
      (\<lambda>st db. written_inv B base (ps_refs st) db \<and> quiet st)"
    using write_files_total [of files B st2 base] x Cons.prems(1) by simp
  have "total_run (\<lambda>db. written_inv B base (ps_refs st3) db \<and> quiet st3) (run_chunks None backend chunks st3)
      (\<lambda>st db. written_inv B base (ps_refs st) db \<and> quiet st)" for st3
  proof (cases "quiet st3")
    case True
    then show ?thesis using Cons.IH [of st3] Cons.prems(1) by (auto intro: total_conseq)
  qed (simp add: total_run_def)
  from total_bind [OF w this] show ?case
    using Cons.prems(2) by (simp add: poll_def e quiet_def)
qed

lemma rebind_unresolved_total:
  "total_run (written_inv B base refs) (rebind_unresolved_commands backend failed oversize) (\<lambda>_. written_inv B base refs)"
  unfolding total_run_def
proof (intro allI impI)
  fix db assume inv: "written_inv B base refs db"
  have "\<exists>commits a. rebind_unresolved_commands backend failed oversize db = (commits, Inr a)"
    unfolding rebind_unresolved_commands_def Let_def sync_bind_def sync_read_def sync_return_def commit_def
    by (simp split: prod.split)
  then obtain commits a where run: "rebind_unresolved_commands backend failed oversize db = (commits, Inr a)" by blast
  with tripleD(2) [OF rebind_unresolved_triple inv run] show
    "\<exists>commits a. rebind_unresolved_commands backend failed oversize db = (commits, Inr a) \<and>
       written_inv B base refs (final_db db commits)" by blast
qed

lemma pass1_run_total:
  assumes "backend_ok backend" "no_commands backend" "store_ok base"
  shows "total_run (\<lambda>db. db = base) (pass1_run None backend file_len limits d)
    (\<lambda>out db. written_inv (diff_files d) base (po_refs out) db \<and> \<not> po_cancelled out)"
proof -
  let ?B = "diff_files d"
  have m: "mark_sync_pending base = ([set_meta SYNC_PENDING_KEY ''1'' base], Inr ())"
    by (simp add: mark_sync_pending_def commit_def)
  note tripleD(2) [OF mark_pending_triple [OF assms(3), of ?B] refl m refl]
  then have mark: "total_run (\<lambda>db. db = base) mark_sync_pending (\<lambda>_. written_inv ?B base [])"
    unfolding total_run_def using m by blast
  have st: "ps_refs (report None (pass1_start d)) = []" "quiet (report None (pass1_start d))"
    by (simp_all add: report_def pass1_start_def quiet_def)
  have del: "\<forall>p \<in> set (df_deleted d). normalize_path p \<in> ?B" by (simp add: diff_files_def)
  have ch: "\<forall>p \<in> set (concat (map (chunk_of (changed_files d)) (plan_chunks file_len (changed_files d) limits))).
      normalize_path p \<in> ?B"
    unfolding plan_chunks_concat by (auto simp: changed_files_def diff_files_def)
  have chunks: "total_run (\<lambda>db. written_inv ?B base (ps_refs st1) db \<and> quiet st1)
      (run_chunks None backend (map (chunk_of (changed_files d)) (plan_chunks file_len (changed_files d) limits)) st1)
      (\<lambda>st db. written_inv ?B base (ps_refs st) db \<and> quiet st)" for st1
  proof (cases "quiet st1")
    case True
    from run_chunks_total [OF assms(1,2) ch this] show ?thesis by (rule total_conseq) auto
  qed (simp add: total_run_def)
  have rest: "total_run (\<lambda>db. written_inv ?B base (ps_refs st) db \<and> quiet st) (rebind_unresolved_commands backend (ps_failed st) (ps_oversize st))
      (\<lambda>_ db. written_inv ?B base (ps_refs st) db \<and> quiet st)" for st
    using rebind_unresolved_total [of ?B base "ps_refs st" backend] by (auto simp: total_run_def)
  have cmds: "total_run (\<lambda>db. written_inv ?B base (ps_refs st) db \<and> quiet st) (insert_all_commands (ps_commands st))
      (\<lambda>_ db. written_inv ?B base (ps_refs st) db \<and> quiet st)" for st
    by (auto simp: total_run_def insert_all_commands_def quiet_def sync_return_def)
  show ?thesis
    unfolding pass1_run_def Let_def
    apply (rule total_bind [OF mark])
    apply (rule total_bind [OF delete_files_total [OF del st]])
    apply (rule total_bind [OF chunks])
    apply (rule total_bind [OF rest], clarsimp)
    apply (rule total_bind [OF cmds])
    apply (rule total_bind [OF total_read [where Q = "\<lambda>_ db. written_inv ?B base (ps_refs _) db \<and> quiet _"]], blast)
    apply (rule total_return, simp add: quiet_def)
    done
qed

text \<open>Undisturbed, a sync that re-resolves everything completes.\<close>

lemma undisturbed_sync_current:
  assumes "store_ok db" "resolves_all mode d db" "backend_ok (sx_backend env)" "no_commands (sx_backend env)"
    "sx_now env = Inr t"
  shows "\<exists>commits rep. write_sync env mode d None db = (commits, Inr (Completed rep)) \<and>
    store_ok (final_db db commits) \<and> \<not> sync_pending (final_db db commits) \<and>
    refs_current (sx_resolve env) (final_db db commits)"
proof -
  obtain commits1 out where one: "pass1_run None (sx_backend env) (sx_file_len env) (sx_limits env) d db = (commits1, Inr out)"
    "written_inv (diff_files d) db (po_refs out) (final_db db commits1)" "\<not> po_cancelled out"
    using pass1_run_total [OF assms(3,4,1), of "sx_file_len env" "sx_limits env" d] by (auto simp: total_run_def)
  let ?db1 = "final_db db commits1"
  have ok1: "store_ok ?db1" "\<forall>file \<in> set (po_refs out). file_stored ?db1 (er_file_path file) \<and> refs_fit file"
    using one(2) by (auto simp: written_inv_def)
  obtain db2 where two: "pass2_run (sx_resolve env) mode (po_refs out) All (sx_now env) ?db1 = Inr db2"
    using pass2_run_ok [OF ok1, of "sx_resolve env" mode All t] assms(5) by auto
  have fin: "finished (sx_resolve env) (diff_files d) db All db2" by (rule pass2_written [OF one(2) two])
  have "write_sync env mode d None db = write_passes env mode d None None db" by (rule write_sync_passes [OF assms(2)])
  also have "\<dots> = (commits1 @ [db2], Inr (Completed (report_pass1 out (initial_report env d))))"
    using one(1,3) two by (simp add: write_passes_def sync_bind_def commit_def sync_return_def Let_def)
  finally show ?thesis using finished_ok [OF fin] finished_all_current [OF fin] by auto
qed


section \<open>Witnesses\<close>

definition demo_sync_env :: "backend \<Rightarrow> sync_env" where
  "demo_sync_env backend =
     \<lparr>sx_resolve = demo_resolve_env, sx_backend = backend, sx_file_len = (\<lambda>_. 40), sx_limits = default_limits,
      sx_now = Inr ''2024'', sx_db_path = ''graph.db''\<rparr>"

definition demo_sync :: "sync_outcome sync" where
  "demo_sync = write_sync (demo_sync_env demo_backend) Full demo_diff None"

definition demo_sync_as_expected :: bool where
  "demo_sync_as_expected =
     (case demo_sync empty_db of
        (commits, Inr (Completed rep)) \<Rightarrow> length commits = 4 \<and> sync_pending (hd commits) \<and> sr_files_changed rep = 1
      | _ \<Rightarrow> False)"

lemma demo_sync_run:
  obtains commits rep where "demo_sync empty_db = (commits, Inr (Completed rep))" "length commits = 4" "sync_pending (hd commits)"
proof -
  have demo_sync_as_expected by code_simp
  then show ?thesis using that unfolding demo_sync_as_expected_def
    by (auto split: prod.splits sum.splits sync_outcome.splits)
qed

theorem sync_all_or_pending_witness:
  "\<exists>commits rep. demo_sync empty_db = (commits, Inr (Completed rep)) \<and> \<not> sync_pending (final_db empty_db commits) \<and>
     refs_current demo_resolve_env (final_db empty_db commits)"
proof -
  obtain commits rep where run: "demo_sync empty_db = (commits, Inr (Completed rep))" by (rule demo_sync_run)
  have "backend_ok (sx_backend (demo_sync_env demo_backend))" "resolves_all Full demo_diff empty_db"
    using demo_backend_ok by (simp_all add: demo_sync_env_def resolves_all_def has_changes_def demo_diff_def)
  from sync_all_or_pending [OF this(1) store_ok_empty this(2) run [unfolded demo_sync_def]] run show ?thesis
    by (auto simp: demo_sync_env_def)
qed


end
