(* ===== verification/Incremental_Gaps.thy ===== *)
theory Incremental_Gaps
  imports Sync_Run
begin

text \<open>
  Two syncs that complete and leave a reference as a full sync would not store it.
\<close>

definition demo_ref :: "string \<Rightarrow> string \<Rightarrow> string \<Rightarrow> string \<Rightarrow> ref_row" where
  "demo_ref name extracted target confidence =
     \<lparr>rf_id = 1, rf_from_file = ''src/c.rs'', rf_from_span_start = 0, rf_from_span_end = 3, rf_target_name = name,
      rf_target_qualified = Some target, rf_target_symbol_hint = Some 1, rf_kind = ''call'', rf_confidence = confidence,
      rf_extracted_qualified = Some extracted, rf_unresolved_receiver = None, rf_spelled_path = True\<rparr>"

definition demo_rewrite :: "(string \<Rightarrow> raw_symbol list) \<Rightarrow> backend" where
  "demo_rewrite symbols p =
     Returned (Inr \<lparr>xf_path = p, xf_file_path = normalize_path p, xf_lang = ''rust'', xf_content_hash = ''h2'',
      xf_mtime_ns = 8, xf_byte_len = 40, xf_extracted_at = 9,
      xf_rows = \<lparr>ef_symbols = symbols (normalize_path p), ef_refs = [], ef_relations = [], ef_imports = [], ef_strings = [], ef_configs = [],
        ef_commands = []\<rparr>\<rparr>)"

definition demo_change :: "path_buf list \<Rightarrow> path_buf list \<Rightarrow> diff" where
  "demo_change modified new =
     \<lparr>df_unchanged = [], df_modified = modified, df_new = new, df_deleted = [], df_oversize = [], df_failed = []\<rparr>"

definition indexed :: "graph_db \<Rightarrow> graph_db" where
  "indexed db = db\<lparr>db_symbols_fts := map fts_of_symbol (db_symbols db)\<rparr>"

definition alias_db :: graph_db where
  "alias_db = indexed (demo_reexport_db\<lparr>db_refs := [demo_ref ''Bar'' ''crate::a::Bar'' ''Foo'' ''import_resolved'']\<rparr>)"

definition all_current :: "graph_db \<Rightarrow> bool" where
  "all_current db = list_all (ref_current demo_resolve_env db) (db_refs db)"

text \<open>Whether every reference is current once the sync has completed; none when it does not complete.\<close>

definition current_after :: "sync_mode \<Rightarrow> backend \<Rightarrow> diff \<Rightarrow> graph_db \<Rightarrow> bool option" where
  "current_after mode backend d db =
     (case write_sync (demo_sync_env backend) mode d None db of
        (commits, Inr (Completed rep)) \<Rightarrow> Some (all_current (final_db db commits))
      | _ \<Rightarrow> None)"

definition demo_row :: "int \<Rightarrow> string \<Rightarrow> string \<Rightarrow> string \<Rightarrow> string \<Rightarrow> symbol_row" where
  "demo_row i path name qualified kind = (demo_item i path name kind)\<lparr>sy_qualified := qualified\<rparr>"

definition demo_raw_symbol :: "string \<Rightarrow> string \<Rightarrow> string \<Rightarrow> string \<Rightarrow> raw_symbol" where
  "demo_raw_symbol path name qualified kind =
     \<lparr>ws_file_path = path, ws_name = name, ws_qualified = qualified, ws_kind = kind, ws_span_start = 0, ws_span_end = 40,
      ws_signature = None, ws_parent_symbol = None\<rparr>"

text \<open>
  \<open>src/a.rs\<close> declares \<open>Greet::hi\<close> with a default body, \<open>src/b.rs\<close> has \<open>impl Greet for Foo\<close>, and
  \<open>src/c.rs\<close> calls \<open><Foo>::hi\<close>. A new \<open>src/d.rs\<close> has \<open>impl Other for Foo\<close>.
\<close>

definition trait_db :: graph_db where
  "trait_db = indexed (empty_db
     \<lparr>db_files := map demo_rust_file [''a.rs'', ''b.rs'', ''c.rs''],
      db_symbols := [demo_row 1 ''a.rs'' ''h'' ''G::h'' ''method'', demo_row 2 ''b.rs'' ''F'' ''<F as G>'' ''impl''],
      db_refs := [(demo_ref ''h'' ''<F>::h'' ''G::h'' ''exact'')\<lparr>rf_from_file := ''c.rs'', rf_spelled_path := False\<rparr>]\<rparr>)"

definition other_impl :: backend where
  "other_impl = demo_rewrite (\<lambda>path. [demo_raw_symbol path ''F'' ''<F as O>'' ''impl''])"

definition emptied :: backend where
  "emptied = demo_rewrite (\<lambda>path. [])"

definition change_b :: diff where
  "change_b = demo_change [[''src'', ''b.rs'']] []"

definition add_d :: diff where
  "add_d = demo_change [] [[''d.rs'']]"

lemma full_sync_current:
  assumes "store_ok db" "backend_ok backend" "no_commands backend" "has_changes d"
  shows "current_after Full backend d db = Some True"
proof -
  let ?env = "demo_sync_env backend"
  have "\<exists>commits rep. write_sync ?env Full d None db = (commits, Inr (Completed rep)) \<and>
      store_ok (final_db db commits) \<and> \<not> sync_pending (final_db db commits) \<and>
      refs_current (sx_resolve ?env) (final_db db commits)"
    by (rule undisturbed_sync_current [where t = "''2024''"])
       (use assms in \<open>simp_all add: resolves_all_def demo_sync_env_def\<close>)
  then show ?thesis
    by (auto simp: current_after_def all_current_def refs_current_def list_all_iff demo_sync_env_def)
qed

lemma demo_backends:
  "backend_ok other_impl" "no_commands other_impl" "backend_ok emptied" "no_commands emptied"
  by (auto simp: backend_ok_def no_commands_def extract_one_def other_impl_def emptied_def demo_rewrite_def
      demo_raw_symbol_def extracted_ok_def fits_def I64_MAX_def Let_def)

lemma demo_stores_ok: "store_ok alias_db" "store_ok trait_db"
  by (simp_all add: store_defs alias_db_def trait_db_def indexed_def demo_reexport_db_def empty_db_def demo_item_def
      demo_row_def demo_rust_file_def demo_ref_def file_stored_def)


end
