(* ===== verification/Spec2Isabelle.thy ===== *)
theory Spec2Isabelle
  imports Query_Listings Query_Lookup Filters Incremental_Gaps
begin

text \<open>
  A verification development for orbit-graph, a code graph store with selectors, queries, change
  evidence and redaction.

  \<^item> \<open>Rust_Prelude\<close>: results, byte strings, sorting.
  \<^item> \<open>Selectors\<close> models \<open>crates/orbit-graph-extract/src/selector.rs\<close>.
  \<^item> \<open>Filters\<close> models \<open>crates/orbit-graph-changes/src/filters.rs\<close>.
  \<^item> \<open>Redaction\<close> models \<open>crates/orbit-graph/src/redaction.rs\<close>.
\<close>

section \<open>One selector, one row\<close>

lemma resolvers_agree:
  assumes "db_keys_ok db" "trim_str kind = kind" "kind \<noteq> []"
  shows "show_symbol_row db path symbol kind = refs_target_row db path symbol kind"
    and "span_row db path symbol kind = refs_target_row db path symbol kind"
    and "resolve_symbol_selector db path symbol kind = refs_target_row db path symbol kind"
proof -
  note agree = symbol_lookup_agree [OF _ refs_lookup.symbol_lookup_axioms assms(1)]
  show "show_symbol_row db path symbol kind = refs_target_row db path symbol kind"
    by (rule agree [OF show_lookup.symbol_lookup_axioms])
  show "span_row db path symbol kind = refs_target_row db path symbol kind"
    unfolding span_row_trimmed [OF assms(2,3)] by (rule agree [OF span_lookup.symbol_lookup_axioms])
  have "resolve_symbol_selector db path symbol kind = impact_symbol_row db path symbol kind"
    using assms(2,3) by (simp add: resolve_symbol_selector_def)
  then show "resolve_symbol_selector db path symbol kind = refs_target_row db path symbol kind"
    using agree [OF impact_lookup.symbol_lookup_axioms] by simp
qed

definition span_of :: "symbol_row \<Rightarrow> symbol_span" where
  "span_of s = \<lparr>sp_file_path = sy_file_path s, sp_span_start = sy_span_start s, sp_span_end = sy_span_end s\<rparr>"

text \<open>
  C23. The four queries that take a \<open>symbol:\<close> selector (references, callees, impact, show) address
  the same stored row, or all of them none, although each has its own statement: the row stored
  under that file, kind and name, an exact qualified name before a short name, the lowest id
  between equals.
\<close>

theorem queries_resolve_same_row:
  assumes "db_keys_ok db" "trim_str kind = kind" "kind \<noteq> []"
  shows "\<exists>row. (case row of None \<Rightarrow> \<forall>t \<in> set (db_symbols db). \<not> selected path symbol kind t
      | Some s \<Rightarrow> s \<in> set (db_symbols db) \<and> selected path symbol kind s \<and>
          (\<forall>t \<in> set (db_symbols db). selected path symbol kind t \<longrightarrow> preferred symbol s \<le> preferred symbol t)) \<and>
    qt_symbol_id (resolve_target db (Symbol path symbol kind)) = map_option sy_id row \<and>
    resolve_symbol_span db (Symbol path symbol kind) = map_option span_of row \<and>
    resolve_selector db (Symbol path symbol kind) = row \<and>
    show_resolve_selector db (Symbol path symbol kind) = map_option resolved_symbol row"
proof -
  note r = resolvers_agree [OF assms]
  define row where "row = refs_target_row db path symbol kind"
  have "case row of None \<Rightarrow> \<forall>t \<in> set (db_symbols db). \<not> selected path symbol kind t
      | Some s \<Rightarrow> s \<in> set (db_symbols db) \<and> selected path symbol kind s \<and>
          (\<forall>t \<in> set (db_symbols db). selected path symbol kind t \<longrightarrow> preferred symbol s \<le> preferred symbol t)"
    unfolding row_def
    using refs_lookup.sound refs_lookup.best refs_lookup.complete
    by (cases "refs_target_row db path symbol kind") auto
  moreover have "qt_symbol_id (resolve_target db (Symbol path symbol kind)) = map_option sy_id row"
    by (auto simp: row_def resolve_target_def unresolved_target_def split: option.splits)
  moreover have "resolve_symbol_span db (Symbol path symbol kind) = map_option span_of row"
    by (simp add: row_def resolve_symbol_span_def r(2) span_of_def [abs_def])
  moreover have "resolve_selector db (Symbol path symbol kind) = row"
    by (simp add: row_def resolve_selector_def r(3))
  moreover have "show_resolve_selector db (Symbol path symbol kind) = map_option resolved_symbol row"
    by (simp add: row_def show_resolve_selector_def r(1))
  ultimately show ?thesis by blast
qed

theorem queries_resolve_same_row_witness:
  "\<exists>row. resolve_selector demo_db (Symbol ''src/a.rs'' ''main'' ''function'') = row \<and>
     qt_symbol_id (resolve_target demo_db (Symbol ''src/a.rs'' ''main'' ''function'')) = map_option sy_id row"
proof -
  have "db_keys_ok demo_db" "trim_str ''function'' = ''function''" by code_simp+
  from queries_resolve_same_row [OF this, of "''src/a.rs''" "''main''"] show ?thesis by blast
qed



end
